(* ===== verification/Prelude.thy ===== *)
theory Prelude
  imports Complex_Main "HOL-Library.Word"
begin

text \<open>
  Shared vocabulary of the development: the machine types of the C++ sources, the faults a
  handler can end in, the chaining of fallible steps with a rule set for proving what a
  chain guarantees, and the generic facts about the singly linked lists
  (\<^verbatim>\<open>lib/bsd-list.h\<close>) that every component of EAMRP keeps its state in.
\<close>

section \<open>Machine types\<close>

type_synonym u8 = "8 word"
type_synonym u16 = "16 word"
type_synonym u32 = "32 word"

text \<open>Node addresses are only compared for equality by the protocol.\<close>

type_synonym nsaddr = "32 word"

text \<open>
  The C++ \<open>double\<close>s hold simulated times in seconds. They are exact reals here:
  the code adds constants to the clock, scales by small integers and compares.
\<close>

type_synonym time = real

section \<open>Faults and fallible steps\<close>

text \<open>
  A handler either returns the new state or ends the simulation: a failed \<open>assert\<close>, a
  null pointer read, a write past the end of a header array, \<open>exit\<close> on an unknown
  packet type, or a loop that would not have stopped.
\<close>

datatype assertion =
    Seqno_even | Route_up | Route_down | Hopcount_match | Rt_hops_valid
  | Rt_fresh | Rt_found | Num_paths | Hopcount_finite | Broadcast_dst | No_route_given
  | Initialized | Interval_nonneg | Rt_port | Queue_length | Queue_tail | Queue_links | Queue_nonempty | Header_fits
  | Forward_nexthop | Forward_lasthop

datatype fault =
    Assert_failed assertion
  | Null_deref
  | Array_overflow
  | Exit_bad_type u8
  | Diverges

definition bindE :: "'e + 'a \<Rightarrow> ('a \<Rightarrow> 'e + 'b) \<Rightarrow> 'e + 'b" where
  "bindE m f = (case m of Inl e \<Rightarrow> Inl e | Inr x \<Rightarrow> f x)"

definition assertE :: "assertion \<Rightarrow> bool \<Rightarrow> fault + unit" where
  "assertE a b = (if b then Inr () else Inl (Assert_failed a))"

fun foldE :: "('a \<Rightarrow> 's \<Rightarrow> 'e + 's) \<Rightarrow> 'a list \<Rightarrow> 's \<Rightarrow> 'e + 's" where
  "foldE f [] s = Inr s"
| "foldE f (x # xs) s = bindE (f x s) (foldE f xs)"

text \<open>\<open>safe F P m\<close>: the step \<open>m\<close> ends in a state with \<open>P\<close>, or in a fault from \<open>F\<close>.\<close>

definition safe :: "'e set \<Rightarrow> ('a \<Rightarrow> bool) \<Rightarrow> 'e + 'a \<Rightarrow> bool" where
  "safe F P m = (case m of Inl e \<Rightarrow> e \<in> F | Inr x \<Rightarrow> P x)"

named_theorems safe_simps \<open>equations that push \<open>safe\<close> through a step\<close>

lemma bindE_simps [simp]:
  "bindE (Inl e) f = Inl e"
  "bindE (Inr x) f = f x"
  by (simp_all add: bindE_def)

lemma safe_Inr [simp, safe_simps]: "safe F P (Inr x) = P x"
  by (simp add: safe_def)

lemma safe_Inl [simp, safe_simps]: "safe F P (Inl e) = (e \<in> F)"
  by (simp add: safe_def)

lemma safe_bindE [simp, safe_simps]:
  "safe F P (bindE m f) = safe F (\<lambda>x. safe F P (f x)) m"
  by (cases m) simp_all

lemma safe_assertE [simp, safe_simps]:
  "safe F P (assertE a b) = (if b then P () else Assert_failed a \<in> F)"
  by (simp add: assertE_def)

lemma assertE_True [simp]: "assertE a True = Inr ()"
  by (simp add: assertE_def)

lemma safe_if [safe_simps]:
  "safe F P (if b then m else n) = (if b then safe F P m else safe F P n)"
  by simp

lemma safe_mono:
  "safe F Q m \<Longrightarrow> (\<And>x. Q x \<Longrightarrow> P x) \<Longrightarrow> safe F P m"
  by (cases m) simp_all

lemma safe_bindI:
  "safe F Q m \<Longrightarrow> (\<And>x. Q x \<Longrightarrow> safe F P (f x)) \<Longrightarrow> safe F P (bindE m f)"
  by (cases m) simp_all

lemma safe_bindI2:
  "safe F (\<lambda>(x, y). Q x y) m \<Longrightarrow> (\<And>x y. Q x y \<Longrightarrow> safe F P (f (x, y))) \<Longrightarrow> safe F P (bindE m f)"
  by (cases m) auto

lemma safe_weaken_faults: "safe F P m \<Longrightarrow> F \<subseteq> G \<Longrightarrow> safe G P m"
  by (cases m) auto

lemma safe_conj: "safe F P m \<Longrightarrow> safe F Q m \<Longrightarrow> safe F (\<lambda>x. P x \<and> Q x) m"
  by (cases m) simp_all

lemma safe_InrD: "safe F P m \<Longrightarrow> m = Inr x \<Longrightarrow> P x"
  by simp

lemma safe_no_faultD: "safe {} P m \<Longrightarrow> \<exists>x. m = Inr x \<and> P x"
  by (cases m) simp_all

lemma safe_foldE:
  assumes "\<And>x s. x \<in> set xs \<Longrightarrow> I s \<Longrightarrow> safe F I (f x s)" and "I s"
  shows "safe F I (foldE f xs s)"
  using assms
proof (induction xs arbitrary: s)
  case Nil
  then show ?case by simp
next
  case (Cons x xs)
  have "safe F I (f x s)" using Cons.prems by simp
  then have "safe F (\<lambda>t. safe F I (foldE f xs t)) (f x s)"
    by (rule safe_mono) (simp add: Cons.IH Cons.prems(1))
  then show ?case by simp
qed

lemma foldE_append: "foldE f (xs @ ys) s = bindE (foldE f xs s) (foldE f ys)"
  by (induction xs arbitrary: s) (auto simp: bindE_def split: sum.splits)

lemma safe_foldE_upt:
  assumes "\<And>i s. i < n \<Longrightarrow> I i s \<Longrightarrow> safe F (I (Suc i)) (f i s)" and "I 0 s"
  shows "safe F (I n) (foldE f [0..<n] s)"
  using assms
proof (induction n)
  case (Suc n)
  then have "safe F (I n) (foldE f [0..<n] s)" by simp
  then have "safe F (I (Suc n)) (bindE (foldE f [0..<n] s) (f n))"
    using Suc.prems(1) by (auto elim!: safe_mono)
  moreover have "foldE f [n] = f n" by (rule ext, rename_tac t, case_tac "f n t") simp_all
  ultimately show ?case by (simp add: foldE_append del: foldE.simps safe_bindE)
qed simp

section \<open>Linked lists\<close>

text \<open>
  \<open>remove_first\<close> is the walk that unlinks (\<open>LIST_REMOVE\<close>) the first match,
  \<open>update_first\<close> the walk that writes through the pointer to the first match.
\<close>

fun remove_first :: "('a \<Rightarrow> bool) \<Rightarrow> 'a list \<Rightarrow> 'a list" where
  "remove_first P [] = []"
| "remove_first P (x # xs) = (if P x then xs else x # remove_first P xs)"

fun update_first :: "('a \<Rightarrow> bool) \<Rightarrow> ('a \<Rightarrow> 'a) \<Rightarrow> 'a list \<Rightarrow> 'a list" where
  "update_first P f [] = []"
| "update_first P f (x # xs) = (if P x then f x # xs else x # update_first P f xs)"

text \<open>
  The purge loops of the sources restart the walk after every removal; \<open>remove_all_loop\<close>
  is that loop, and it is \<open>filter\<close>.
\<close>

lemma length_remove_first:
  "length (remove_first P xs) = (if \<exists>x\<in>set xs. P x then length xs - 1 else length xs)"
proof (induction xs)
  case (Cons x xs)
  then show ?case by (cases xs) auto
qed simp

lemma length_remove_first_less [termination_simp]:
  "\<exists>x\<in>set xs. P x \<Longrightarrow> length (remove_first P xs) < length xs"
  by (induction xs) auto

function remove_all_loop :: "('a \<Rightarrow> bool) \<Rightarrow> 'a list \<Rightarrow> 'a list" where
  "remove_all_loop P xs =
     (if \<exists>x\<in>set xs. P x then remove_all_loop P (remove_first P xs) else xs)"
  by pat_completeness auto
termination
  by (relation "measure (\<lambda>(P, xs). length xs)") (auto simp: length_remove_first_less)

declare remove_all_loop.simps [simp del]

lemma filter_remove_first [simp]:
  "filter (\<lambda>x. \<not> P x) (remove_first P xs) = filter (\<lambda>x. \<not> P x) xs"
  by (induction xs) auto

lemma length_filter_remove_first:
  "\<exists>x\<in>set xs. P x \<Longrightarrow> length (filter P xs) = Suc (length (filter P (remove_first P xs)))"
  by (induction xs) auto

lemma remove_all_loop_filter: "remove_all_loop P xs = filter (\<lambda>x. \<not> P x) xs"
proof (induction P xs rule: remove_all_loop.induct)
  case (1 P xs)
  show ?case
  proof (cases "\<exists>x\<in>set xs. P x")
    case True
    with 1 show ?thesis by (simp add: remove_all_loop.simps [of P xs])
  next
    case False
    then have "filter (\<lambda>x. \<not> P x) xs = xs" by (auto simp: filter_id_conv)
    with False show ?thesis by (simp add: remove_all_loop.simps [of P xs])
  qed
qed

lemma set_remove_first_subset: "set (remove_first P xs) \<subseteq> set xs"
  by (induction xs) auto

lemma in_remove_firstD: "x \<in> set (remove_first P xs) \<Longrightarrow> x \<in> set xs"
  by (rule subsetD [OF set_remove_first_subset])

lemma remove_first_id: "(\<And>x. x \<in> set xs \<Longrightarrow> \<not> P x) \<Longrightarrow> remove_first P xs = xs"
  by (induction xs) auto

lemma remove_first_find_None: "find P xs = None \<Longrightarrow> remove_first P xs = xs"
  by (induction xs) (auto split: if_splits)

lemma length_remove_first_find:
  "find P xs = Some x \<Longrightarrow> length xs = Suc (length (remove_first P xs))"
  by (induction xs) (auto split: if_splits)

lemma distinct_map_remove_first:
  "distinct (map f xs) \<Longrightarrow> distinct (map f (remove_first P xs))"
  by (induction xs) (auto dest: in_remove_firstD)

lemma remove_first_split:
  "find P xs = Some x \<Longrightarrow>
     \<exists>as bs. xs = as @ x # bs \<and> remove_first P xs = as @ bs \<and> P x \<and> (\<forall>a\<in>set as. \<not> P a)"
proof (induction xs)
  case (Cons y xs)
  show ?case
  proof (cases "P y")
    case True
    with Cons.prems show ?thesis by (intro exI [of _ "[]"] exI [of _ xs]) auto
  next
    case False
    with Cons obtain as bs where
      "xs = as @ x # bs" "remove_first P xs = as @ bs" "P x" "\<forall>a\<in>set as. \<not> P a" by auto
    with False show ?thesis by (intro exI [of _ "y # as"] exI [of _ bs]) auto
  qed
qed simp

lemma length_update_first [simp]: "length (update_first P f xs) = length xs"
  by (induction xs) auto

lemma map_update_first:
  "(\<And>x. x \<in> set xs \<Longrightarrow> P x \<Longrightarrow> g (f x) = g x) \<Longrightarrow> map g (update_first P f xs) = map g xs"
  by (induction xs) auto

lemma update_first_Nil_iff [simp]: "update_first P f xs = [] \<longleftrightarrow> xs = []"
  by (cases xs) auto

lemma in_update_firstD:
  "x \<in> set (update_first P f xs) \<Longrightarrow> x \<in> set xs \<or> (\<exists>y\<in>set xs. P y \<and> x = f y)"
  by (induction xs) (auto split: if_splits)

lemma find_SomeD: "find P xs = Some x \<Longrightarrow> x \<in> set xs \<and> P x"
  by (auto simp: find_Some_iff)

lemma find_None_ball: "find P xs = None \<longleftrightarrow> (\<forall>x\<in>set xs. \<not> P x)"
  by (auto simp: find_None_iff)

section \<open>Tables keyed by a field\<close>

text \<open>
  The interface of every cache of the agent: a linked list searched from its head for the
  first entry with a key. Clients of a cache rest on these laws only.
\<close>

locale keyed_list =
  fixes key :: "'v \<Rightarrow> 'k"
    and lookup :: "'k \<Rightarrow> 'v list \<Rightarrow> 'v option"
  assumes lookup_Nil: "lookup k [] = None"
    and lookup_Cons: "lookup k (v # vs) = (if key v = k then Some v else lookup k vs)"
begin

lemma lookup_find: "lookup k vs = find (\<lambda>v. key v = k) vs"
  by (induction vs) (auto simp: lookup_Nil lookup_Cons)

lemma lookup_in: "lookup k vs = Some v \<Longrightarrow> v \<in> set vs"
  by (simp add: lookup_find find_SomeD)

lemma lookup_key: "lookup k vs = Some v \<Longrightarrow> key v = k"
  by (auto simp: lookup_find dest: find_SomeD)

lemma lookup_None: "lookup k vs = None \<longleftrightarrow> k \<notin> key ` set vs"
  by (auto simp: lookup_find find_None_ball)

lemma lookup_None_fresh: "lookup k vs = None \<Longrightarrow> v \<in> set vs \<Longrightarrow> key v \<noteq> k"
  by (auto simp: lookup_None)

lemma insert_distinct:
  "distinct (map key vs) \<Longrightarrow> lookup (key v) vs = None \<Longrightarrow> distinct (map key (v # vs))"
  by (auto simp: lookup_None)

lemma lookup_distinct:
  "distinct (map key vs) \<Longrightarrow> v \<in> set vs \<Longrightarrow> lookup (key v) vs = Some v"
proof (induction vs)
  case (Cons w vs)
  show ?case
  proof (cases "v = w")
    case True
    then show ?thesis by (simp add: lookup_Cons)
  next
    case False
    with Cons.prems have "v \<in> set vs" by simp
    with Cons have "lookup (key v) vs = Some v" "key w \<noteq> key v" by auto
    then show ?thesis by (simp add: lookup_Cons)
  qed
qed simp

lemma lookup_remove_same:
  "distinct (map key vs) \<Longrightarrow> lookup k (remove_first (\<lambda>v. key v = k) vs) = None"
  by (induction vs) (auto simp: lookup_Nil lookup_Cons lookup_None)

lemma lookup_remove_other:
  "k \<noteq> j \<Longrightarrow> lookup k (remove_first (\<lambda>v. key v = j) vs) = lookup k vs"
  by (induction vs) (auto simp: lookup_Nil lookup_Cons)

end

text \<open>A cache whose entries are also written through the pointer a search returned.\<close>

locale keyed_store = keyed_list +
  fixes put :: "'v \<Rightarrow> 'v list \<Rightarrow> 'v list"
  assumes put_Nil: "put v [] = []"
    and put_Cons: "put v (w # ws) = (if key w = key v then v # ws else w # put v ws)"
begin

lemma put_keys [simp]: "map key (put v ws) = map key ws"
  by (induction ws) (auto simp: put_Nil put_Cons)

lemma put_length [simp]: "length (put v ws) = length ws"
  by (metis put_keys length_map)

lemma lookup_put_same: "lookup (key v) ws = Some w \<Longrightarrow> lookup (key v) (put v ws) = Some v"
  by (induction ws) (auto simp: lookup_Nil lookup_Cons put_Nil put_Cons split: if_splits)

lemma lookup_put_other: "k \<noteq> key v \<Longrightarrow> lookup k (put v ws) = lookup k ws"
  by (induction ws) (auto simp: lookup_Nil lookup_Cons put_Nil put_Cons)

lemma put_id: "lookup k ws = Some v \<Longrightarrow> put v ws = ws"
proof -
  assume l: "lookup k ws = Some v"
  then have "key v = k" by (rule lookup_key)
  with l show ?thesis by (induction ws) (auto simp: lookup_Nil lookup_Cons put_Nil put_Cons split: if_splits)
qed

lemma lookup_put_None: "lookup k (put v ws) = None \<longleftrightarrow> lookup k ws = None"
  by (induction ws) (auto simp: lookup_Nil lookup_Cons put_Nil put_Cons)

lemma lookup_put:
  "lookup k (put v ws) =
     (if k = key v \<and> lookup k ws \<noteq> None then Some v else lookup k ws)"
  by (cases "k = key v"; cases "lookup k ws")
    (auto simp: lookup_put_None lookup_put_other lookup_put_same)

lemma in_put: "w \<in> set (put v ws) \<Longrightarrow> w = v \<or> w \<in> set ws"
  by (induction ws) (auto simp: put_Nil put_Cons split: if_splits)

lemma put_all: "(\<forall>w\<in>set ws. P w) \<Longrightarrow> P v \<Longrightarrow> \<forall>w\<in>set (put v ws). P w"
  by (auto dest: in_put)

lemma put_distinct [simp]: "distinct (map key (put v ws)) = distinct (map key ws)"
  by simp

end

section \<open>Parity of sequence numbers\<close>

text \<open>
  Even sequence numbers mark valid routes, odd ones broken routes; 32-bit wrap-around
  keeps parity because \<open>2 ^ 32\<close> is even.
\<close>

lemma even_succ_word [simp]: "even (x + 1 :: u32) \<longleftrightarrow> odd x"
  by simp

lemma odd_word_nonzero: "odd (x :: u32) \<Longrightarrow> x \<noteq> 0"
  by auto

lemma max_odd_or_zero:
  "odd (x :: u32) \<Longrightarrow> odd y \<or> y = 0 \<Longrightarrow> odd (max x y)"
  by (auto simp: max_def)

section \<open>Strings without regard to case\<close>

definition to_lower :: "char \<Rightarrow> char" where
  "to_lower c =
     (let n = of_char c :: nat in if 65 \<le> n \<and> n \<le> 90 then char_of (n + 32) else c)"

end
