(* ===== verification/NsPacket.thy ===== *)
theory NsPacket
  imports Prelude
begin

text \<open>
  Packets: the packet types, classifier and common header of \<^verbatim>\<open>common/packet.h\<close>, and
  the EAMRP headers of \<^verbatim>\<open>eamrp/eamrp_packet.h\<close>. A packet is a record: the fields of
  \<^verbatim>\<open>hdr_cmn\<close>, the accessors of ns-2's \<^verbatim>\<open>hdr_ip\<close> the sources use, and the EAMRP
  header union as a datatype with one constructor per header the program lays over it.
\<close>

section \<open>Packet types\<close>

type_synonym packet_t = u32

definition PT_TCP :: packet_t where [simp]: "PT_TCP = 0"
definition PT_UDP :: packet_t where [simp]: "PT_UDP = 1"
definition PT_CBR :: packet_t where [simp]: "PT_CBR = 2"
definition PT_AUDIO :: packet_t where [simp]: "PT_AUDIO = 3"
definition PT_VIDEO :: packet_t where [simp]: "PT_VIDEO = 4"
definition PT_ACK :: packet_t where [simp]: "PT_ACK = 5"
definition PT_START :: packet_t where [simp]: "PT_START = 6"
definition PT_STOP :: packet_t where [simp]: "PT_STOP = 7"
definition PT_PRUNE :: packet_t where [simp]: "PT_PRUNE = 8"
definition PT_GRAFT :: packet_t where [simp]: "PT_GRAFT = 9"
definition PT_GRAFTACK :: packet_t where [simp]: "PT_GRAFTACK = 10"
definition PT_JOIN :: packet_t where [simp]: "PT_JOIN = 11"
definition PT_ASSERT :: packet_t where [simp]: "PT_ASSERT = 12"
definition PT_MESSAGE :: packet_t where [simp]: "PT_MESSAGE = 13"
definition PT_RTCP :: packet_t where [simp]: "PT_RTCP = 14"
definition PT_RTP :: packet_t where [simp]: "PT_RTP = 15"
definition PT_RTPROTO_DV :: packet_t where [simp]: "PT_RTPROTO_DV = 16"
definition PT_CtrMcast_Encap :: packet_t where [simp]: "PT_CtrMcast_Encap = 17"
definition PT_CtrMcast_Decap :: packet_t where [simp]: "PT_CtrMcast_Decap = 18"
definition PT_SRM :: packet_t where [simp]: "PT_SRM = 19"
definition PT_REQUEST :: packet_t where [simp]: "PT_REQUEST = 20"
definition PT_ACCEPT :: packet_t where [simp]: "PT_ACCEPT = 21"
definition PT_CONFIRM :: packet_t where [simp]: "PT_CONFIRM = 22"
definition PT_TEARDOWN :: packet_t where [simp]: "PT_TEARDOWN = 23"
definition PT_LIVE :: packet_t where [simp]: "PT_LIVE = 24"
definition PT_REJECT :: packet_t where [simp]: "PT_REJECT = 25"
definition PT_TELNET :: packet_t where [simp]: "PT_TELNET = 26"
definition PT_FTP :: packet_t where [simp]: "PT_FTP = 27"
definition PT_PARETO :: packet_t where [simp]: "PT_PARETO = 28"
definition PT_EXP :: packet_t where [simp]: "PT_EXP = 29"
definition PT_INVAL :: packet_t where [simp]: "PT_INVAL = 30"
definition PT_HTTP :: packet_t where [simp]: "PT_HTTP = 31"
definition PT_ENCAPSULATED :: packet_t where [simp]: "PT_ENCAPSULATED = 32"
definition PT_MFTP :: packet_t where [simp]: "PT_MFTP = 33"
definition PT_ARP :: packet_t where [simp]: "PT_ARP = 34"
definition PT_MAC :: packet_t where [simp]: "PT_MAC = 35"
definition PT_TORA :: packet_t where [simp]: "PT_TORA = 36"
definition PT_DSR :: packet_t where [simp]: "PT_DSR = 37"
definition PT_AODV :: packet_t where [simp]: "PT_AODV = 38"
definition PT_IMEP :: packet_t where [simp]: "PT_IMEP = 39"
definition PT_RAP_DATA :: packet_t where [simp]: "PT_RAP_DATA = 40"
definition PT_RAP_ACK :: packet_t where [simp]: "PT_RAP_ACK = 41"
definition PT_TFRC :: packet_t where [simp]: "PT_TFRC = 42"
definition PT_TFRC_ACK :: packet_t where [simp]: "PT_TFRC_ACK = 43"
definition PT_PING :: packet_t where [simp]: "PT_PING = 44"
definition PT_PBC :: packet_t where [simp]: "PT_PBC = 45"
definition PT_DIFF :: packet_t where [simp]: "PT_DIFF = 46"
definition PT_RTPROTO_LS :: packet_t where [simp]: "PT_RTPROTO_LS = 47"
definition PT_LDP :: packet_t where [simp]: "PT_LDP = 48"
definition PT_GAF :: packet_t where [simp]: "PT_GAF = 49"
definition PT_REALAUDIO :: packet_t where [simp]: "PT_REALAUDIO = 50"
definition PT_PUSHBACK :: packet_t where [simp]: "PT_PUSHBACK = 51"
definition PT_PGM :: packet_t where [simp]: "PT_PGM = 52"
definition PT_LMS :: packet_t where [simp]: "PT_LMS = 53"
definition PT_LMS_SETUP :: packet_t where [simp]: "PT_LMS_SETUP = 54"
definition PT_SCTP :: packet_t where [simp]: "PT_SCTP = 55"
definition PT_SCTP_APP1 :: packet_t where [simp]: "PT_SCTP_APP1 = 56"
definition PT_SMAC :: packet_t where [simp]: "PT_SMAC = 57"
definition PT_XCP :: packet_t where [simp]: "PT_XCP = 58"
definition PT_HDLC :: packet_t where [simp]: "PT_HDLC = 59"
definition PT_BLTRACE :: packet_t where [simp]: "PT_BLTRACE = 60"
definition PT_AOMDV :: packet_t where [simp]: "PT_AOMDV = 61"
definition PT_PUMA :: packet_t where [simp]: "PT_PUMA = 62"
definition PT_DCCP :: packet_t where [simp]: "PT_DCCP = 63"
definition PT_DCCP_REQ :: packet_t where [simp]: "PT_DCCP_REQ = 64"
definition PT_DCCP_RESP :: packet_t where [simp]: "PT_DCCP_RESP = 65"
definition PT_DCCP_ACK :: packet_t where [simp]: "PT_DCCP_ACK = 66"
definition PT_DCCP_DATA :: packet_t where [simp]: "PT_DCCP_DATA = 67"
definition PT_DCCP_DATAACK :: packet_t where [simp]: "PT_DCCP_DATAACK = 68"
definition PT_DCCP_CLOSE :: packet_t where [simp]: "PT_DCCP_CLOSE = 69"
definition PT_DCCP_CLOSEREQ :: packet_t where [simp]: "PT_DCCP_CLOSEREQ = 70"
definition PT_DCCP_RESET :: packet_t where [simp]: "PT_DCCP_RESET = 71"
definition PT_MDART :: packet_t where [simp]: "PT_MDART = 72"
definition PT_EAMRP :: packet_t where [simp]: "PT_EAMRP = 73"
definition PT_NTYPE :: packet_t where [simp]: "PT_NTYPE = 74"

definition DATA_PACKET :: "packet_t \<Rightarrow> bool" where
  "DATA_PACKET t \<longleftrightarrow> t = PT_TCP \<or> t = PT_TELNET \<or> t = PT_CBR \<or> t = PT_AUDIO \<or> t = PT_VIDEO
     \<or> t = PT_ACK \<or> t = PT_SCTP \<or> t = PT_SCTP_APP1"

text \<open>The inline function \<^verbatim>\<open>p_info::data_packet\<close> lists one type more than the macro.\<close>

definition data_packet :: "packet_t \<Rightarrow> bool" where
  "data_packet t \<longleftrightarrow> t = PT_TCP \<or> t = PT_TELNET \<or> t = PT_CBR \<or> t = PT_AUDIO \<or> t = PT_VIDEO
     \<or> t = PT_ACK \<or> t = PT_SCTP \<or> t = PT_SCTP_APP1 \<or> t = PT_HDLC"

datatype packetClass = UNCLASSIFIED | ROUTING | DATApkt

text \<open>
  A \<^verbatim>\<open>PacketClassifier\<close> is its virtual \<^verbatim>\<open>getClass\<close>; the chain through \<^verbatim>\<open>next_\<close> is the
  list of the classifiers, newest first.
\<close>

type_synonym classifier = "packet_t \<Rightarrow> packetClass"

fun pc_classify :: "classifier \<Rightarrow> classifier list \<Rightarrow> packet_t \<Rightarrow> packetClass" where
  "pc_classify c next t =
     (let r = c t in
      if r = UNCLASSIFIED then (case next of [] \<Rightarrow> r | d # ds \<Rightarrow> pc_classify d ds t) else r)"

definition classify :: "classifier list \<Rightarrow> packet_t \<Rightarrow> packetClass" where
  "classify pc t =
     (if t = PT_DSR \<or> t = PT_MESSAGE \<or> t = PT_TORA \<or> t = PT_PUMA \<or> t = PT_AODV \<or> t = PT_MDART
      then ROUTING
      else if t = PT_TCP \<or> t = PT_TELNET \<or> t = PT_CBR \<or> t = PT_AUDIO \<or> t = PT_VIDEO
        \<or> t = PT_ACK \<or> t = PT_SCTP \<or> t = PT_SCTP_APP1 \<or> t = PT_HDLC
      then DATApkt
      else (case pc of [] \<Rightarrow> UNCLASSIFIED | c # cs \<Rightarrow> pc_classify c cs t))"

definition addPacketClassifier :: "classifier option \<Rightarrow> classifier list \<Rightarrow> classifier list" where
  "addPacketClassifier pc chain = (case pc of None \<Rightarrow> chain | Some c \<Rightarrow> c # chain)"

text \<open>
  The name table \<^verbatim>\<open>name_\<close> after \<^verbatim>\<open>initName\<close>, with \<open>None\<close> for a slot no assignment
  reaches: type 52 is only named when \<^verbatim>\<open>HAVE_STL\<close> is defined.
\<close>

definition initName_rows :: "(packet_t \<times> string) list" where
  "initName_rows =
    [(PT_TCP, ''tcp''), (PT_UDP, ''udp''), (PT_CBR, ''cbr''), (PT_AUDIO, ''audio''),
     (PT_VIDEO, ''video''), (PT_ACK, ''ack''), (PT_START, ''start''), (PT_STOP, ''stop''),
     (PT_PRUNE, ''prune''), (PT_GRAFT, ''graft''), (PT_GRAFTACK, ''graftAck''),
     (PT_JOIN, ''join''), (PT_ASSERT, ''assert''), (PT_MESSAGE, ''message''),
     (PT_RTCP, ''rtcp''), (PT_RTP, ''rtp''), (PT_RTPROTO_DV, ''rtProtoDV''),
     (PT_CtrMcast_Encap, ''CtrMcast_Encap''), (PT_CtrMcast_Decap, ''CtrMcast_Decap''),
     (PT_SRM, ''SRM''), (PT_REQUEST, ''sa_req''), (PT_ACCEPT, ''sa_accept''),
     (PT_CONFIRM, ''sa_conf''), (PT_TEARDOWN, ''sa_teardown''), (PT_LIVE, ''live''),
     (PT_REJECT, ''sa_reject''), (PT_TELNET, ''telnet''), (PT_FTP, ''ftp''),
     (PT_PARETO, ''pareto''), (PT_EXP, ''exp''), (PT_INVAL, ''httpInval''), (PT_HTTP, ''http''),
     (PT_ENCAPSULATED, ''encap''), (PT_MFTP, ''mftp''), (PT_ARP, ''ARP''), (PT_MAC, ''MAC''),
     (PT_TORA, ''TORA''), (PT_DSR, ''DSR''), (PT_AODV, ''AODV''), (PT_MDART, ''MDART''),
     (PT_IMEP, ''IMEP''), (PT_RAP_DATA, ''rap_data''), (PT_RAP_ACK, ''rap_ack''),
     (PT_TFRC, ''tcpFriend''), (PT_TFRC_ACK, ''tcpFriendCtl''), (PT_PING, ''ping''),
     (PT_PBC, ''PBC''), (PT_DIFF, ''diffusion''), (PT_RTPROTO_LS, ''rtProtoLS''),
     (PT_LDP, ''LDP''), (PT_GAF, ''gaf''), (PT_REALAUDIO, ''ra''), (PT_PUSHBACK, ''pushback''),
     (PT_LMS, ''LMS''), (PT_LMS_SETUP, ''LMS_SETUP''), (PT_SCTP, ''sctp''),
     (PT_SCTP_APP1, ''sctp_app1''), (PT_SMAC, ''smac''), (PT_HDLC, ''HDLC''), (PT_XCP, ''xcp''),
     (PT_BLTRACE, ''BellLabsTrace''), (PT_AOMDV, ''AOMDV''), (PT_EAMRP, ''EAMRP''),
     (PT_PUMA, ''PUMA''), (PT_DCCP, ''DCCP''), (PT_DCCP_REQ, ''DCCP_Request''),
     (PT_DCCP_RESP, ''DCCP_Response''), (PT_DCCP_ACK, ''DCCP_Ack''),
     (PT_DCCP_DATA, ''DCCP_Data''), (PT_DCCP_DATAACK, ''DCCP_DataAck''),
     (PT_DCCP_CLOSE, ''DCCP_Close''), (PT_DCCP_CLOSEREQ, ''DCCP_CloseReq''),
     (PT_DCCP_RESET, ''DCCP_Reset''), (PT_NTYPE, ''undefined'')]"

definition name_slot :: "bool \<Rightarrow> packet_t \<Rightarrow> string option" where
  "name_slot have_stl t =
     (if have_stl \<and> t = PT_PGM then Some ''PGM'' else map_of initName_rows t)"

definition nPkt :: packet_t where
  "nPkt = PT_NTYPE + 1"

text \<open>
  \<^verbatim>\<open>initName\<close> itself: every call of \<^verbatim>\<open>name\<close> makes it, and it replaces a table that is too short.
  The slots it neither assigns nor copies from the old table stay uninitialised.
\<close>

record name_table =
  names :: "packet_t \<Rightarrow> string option"
  n_names :: packet_t

definition initName :: "bool \<Rightarrow> name_table \<Rightarrow> name_table" where
  "initName have_stl tb =
     (if n_names tb \<ge> PT_NTYPE + 1 then tb
      else \<lparr>names = (\<lambda>t. if t \<ge> PT_NTYPE + 1 then None
                  else case name_slot have_stl t of
                         Some nm \<Rightarrow> Some nm
                       | None \<Rightarrow> if PT_SMAC + 1 \<le> t \<and> t < n_names tb then names tb t else None),
            n_names = PT_NTYPE + 1\<rparr>)"

lemma initName_once: "initName have_stl (initName have_stl tb) = initName have_stl tb"
  by (simp add: initName_def)

lemma all_named_above_smac: "PT_SMAC + 1 \<le> t \<Longrightarrow> t < PT_NTYPE + 1 \<Longrightarrow> name_slot have_stl t \<noteq> None"
proof -
  assume "PT_SMAC + 1 \<le> t" "t < PT_NTYPE + 1"
  then have "unat t \<in> {58..<75}" by (auto simp: word_le_nat_alt word_less_nat_alt)
  moreover have "list_all (\<lambda>i. map_of initName_rows (of_nat i) \<noteq> None) [58..<75]" by code_simp
  ultimately have "map_of initName_rows (of_nat (unat t)) \<noteq> None" unfolding list_all_iff set_upt by blast
  then show "name_slot have_stl t \<noteq> None" by (simp add: name_slot_def)
qed

text \<open>The first call makes the table that \<open>p_info_name\<close> reads, whatever the old one held.\<close>

lemma initName_first:
  "n_names tb < nPkt \<Longrightarrow> n_names (initName have_stl tb) = nPkt
     \<and> (t < nPkt \<longrightarrow> names (initName have_stl tb) t = name_slot have_stl t)"
  using all_named_above_smac [of t have_stl]
  by (auto simp: initName_def nPkt_def not_le split: option.split)

text \<open>
  \<^verbatim>\<open>p_info::name\<close> guards the index with \<open>\<le>\<close> against the number of slots; reading the
  slot past the end is \<open>Array_overflow\<close>, an unassigned slot is an unusable pointer.
\<close>

definition p_info_name :: "bool \<Rightarrow> packet_t \<Rightarrow> fault + string option" where
  "p_info_name have_stl p =
     (if p \<le> nPkt then
        (if p < nPkt then
           (case name_slot have_stl p of None \<Rightarrow> Inl Null_deref | Some n \<Rightarrow> Inr (Some n))
         else Inl Array_overflow)
      else Inr None)"

fun getType_from :: "bool \<Rightarrow> string \<Rightarrow> nat list \<Rightarrow> fault + packet_t" where
  "getType_from have_stl nm [] = Inr PT_NTYPE"
| "getType_from have_stl nm (i # is) =
     (case name_slot have_stl (of_nat i) of
        None \<Rightarrow> Inl Null_deref
      | Some n \<Rightarrow> if nm = n then Inr (of_nat i) else getType_from have_stl nm is)"

definition getType :: "bool \<Rightarrow> string \<Rightarrow> fault + packet_t" where
  "getType have_stl nm = getType_from have_stl nm [0..<unat nPkt]"

section \<open>Headers\<close>

datatype dir_t = DOWN | NODIR | UP

definition NS_AF_NONE :: int where "NS_AF_NONE = 0"
definition NS_AF_ILINK :: int where "NS_AF_ILINK = 1"
definition NS_AF_INET :: int where "NS_AF_INET = 2"

text \<open>
  Address \<open>-1\<close> is reserved for \<^verbatim>\<open>IP_BROADCAST\<close> (see \<^verbatim>\<open>Packet::alloc\<close>); routing messages
  use port 255.
\<close>

definition IP_BROADCAST :: nsaddr where "IP_BROADCAST = - 1"
definition RT_PORT :: int where "RT_PORT = 255"

text \<open>The only transmit failure callback of these sources is \<^verbatim>\<open>eamrp_rt_failed_callback\<close>.\<close>

datatype failure_callback = Eamrp_rt_failed_callback

record hdr_cmn =
  ch_ptype :: packet_t
  ch_size :: int
  ch_uid :: int
  ch_error :: int
  ch_ts :: time
  ch_iface :: int
  ch_direction :: dir_t
  ch_prev_hop :: nsaddr
  ch_next_hop :: nsaddr
  ch_addr_type :: int
  ch_last_hop :: nsaddr
  ch_eamrp_salvage_count :: int
  ch_xmit_failure :: "failure_callback option"
  ch_num_forwards :: int

section \<open>EAMRP headers\<close>

definition EAMRP_MAX_ERRORS :: nat where "EAMRP_MAX_ERRORS = 100"

definition EAMRPTYPE_HELLO :: u8 where [simp]: "EAMRPTYPE_HELLO = 0x01"
definition EAMRPTYPE_RREQ :: u8 where [simp]: "EAMRPTYPE_RREQ = 0x02"
definition EAMRPTYPE_RREP :: u8 where [simp]: "EAMRPTYPE_RREP = 0x04"
definition EAMRPTYPE_RERR :: u8 where [simp]: "EAMRPTYPE_RERR = 0x08"

record hdr_eamrp_request =
  rq_hop_count :: u8
  rq_bcast_id :: u32
  rq_dst :: nsaddr
  rq_dst_seqno :: u32
  rq_src :: nsaddr
  rq_src_seqno :: u32
  rq_timestamp :: time
  rq_first_hop :: nsaddr

text \<open>Replies and hello messages share a header; its type byte is the constructor below.\<close>

record hdr_eamrp_reply =
  rp_hop_count :: u8
  rp_dst :: nsaddr
  rp_dst_seqno :: u32
  rp_src :: nsaddr
  rp_lifetime :: time
  rp_timestamp :: time
  rp_bcast_id :: u32
  rp_first_hop :: nsaddr

record hdr_eamrp_error =
  DestCount :: u8
  unreachable_dst :: "nsaddr list"
  unreachable_dst_seqno :: "u32 list"

text \<open>
  The header union. \<open>Raw t\<close> is a header whose type byte \<open>t\<close> is none of the four message
  types, as the zeroed header of a fresh packet.
\<close>

datatype hdr_all_eamrp =
    Rreq hdr_eamrp_request
  | Rrep hdr_eamrp_reply
  | Hello hdr_eamrp_reply
  | Rerr hdr_eamrp_error
  | Raw u8

fun ah_type :: "hdr_all_eamrp \<Rightarrow> u8" where
  "ah_type (Rreq rq) = EAMRPTYPE_RREQ"
| "ah_type (Rrep rp) = EAMRPTYPE_RREP"
| "ah_type (Hello rp) = EAMRPTYPE_HELLO"
| "ah_type (Rerr re) = EAMRPTYPE_RERR"
| "ah_type (Raw t) = t"

definition rq_size :: "hdr_eamrp_request \<Rightarrow> int" where
  "rq_size rq = 7 * 4 + 4"

definition rp_size :: "u8 \<Rightarrow> int" where
  "rp_size rp_type = 6 * 4 + (if rp_type = EAMRPTYPE_RREP then 4 + 4 else 0)"

definition re_size :: "hdr_eamrp_error \<Rightarrow> int" where
  "re_size re = (uint (DestCount re) * 2 + 1) * 4"

text \<open>
  The list of unreachable destinations lives in two arrays of 100 slots, indexed by the
  8-bit \<^verbatim>\<open>DestCount\<close> without a bound check: the write past the end is a fault.
\<close>

definition re_push :: "nsaddr \<Rightarrow> u32 \<Rightarrow> hdr_eamrp_error \<Rightarrow> fault + hdr_eamrp_error" where
  "re_push d sq re =
     (let i = unat (DestCount re) in
      if i < EAMRP_MAX_ERRORS
      then Inr (re\<lparr>unreachable_dst := (unreachable_dst re)[i := d],
                  unreachable_dst_seqno := (unreachable_dst_seqno re)[i := sq],
                  DestCount := DestCount re + 1\<rparr>)
      else Inl Array_overflow)"

definition re_get :: "hdr_eamrp_error \<Rightarrow> nat \<Rightarrow> fault + nsaddr \<times> u32" where
  "re_get re i =
     (if i < EAMRP_MAX_ERRORS then Inr (unreachable_dst re ! i, unreachable_dst_seqno re ! i)
      else Inl Array_overflow)"

definition re_empty :: hdr_eamrp_error where
  "re_empty = \<lparr>DestCount = 0, unreachable_dst = replicate EAMRP_MAX_ERRORS 0,
     unreachable_dst_seqno = replicate EAMRP_MAX_ERRORS 0\<rparr>"

section \<open>Packets\<close>

record packet = hdr_cmn +
  ih_saddr :: nsaddr
  ih_daddr :: nsaddr
  ih_sport :: int
  ih_dport :: int
  ih_ttl :: int
  hdr :: hdr_all_eamrp

text \<open>\<^verbatim>\<open>Packet::init\<close> zeroes the header bits, \<^verbatim>\<open>Packet::alloc\<close> then sets three fields.\<close>

definition packet_init :: packet where
  "packet_init = \<lparr>ch_ptype = 0, ch_size = 0, ch_uid = 0, ch_error = 0, ch_ts = 0, ch_iface = 0,
     ch_direction = NODIR, ch_prev_hop = 0, ch_next_hop = 0, ch_addr_type = 0, ch_last_hop = 0,
     ch_eamrp_salvage_count = 0, ch_xmit_failure = None, ch_num_forwards = 0,
     ih_saddr = 0, ih_daddr = 0, ih_sport = 0, ih_dport = 0, ih_ttl = 0, hdr = Raw 0\<rparr>"

definition packet_alloc :: packet where
  "packet_alloc = packet_init\<lparr>ch_next_hop := - 2, ch_last_hop := - 2, ch_direction := DOWN\<rparr>"

end
