(* ===== verification/RTable.thy ===== *)
theory RTable
  imports NsPacket
begin

text \<open>
  The routing table of \<^verbatim>\<open>eamrp/eamrp_rtable.h\<close> and \<^verbatim>\<open>eamrp/eamrp_rtable.cc\<close>: neighbours,
  paths, precursors, route entries and the table. A BSD list is a HOL list in link order;
  a pointer into a list is the key of the entry, and writing through it replaces the first
  entry with that key (\<open>rt_put\<close>, \<open>path_put\<close>).
\<close>

section \<open>Data\<close>

definition INFINITY2 :: "'a::len word" where "INFINITY2 = 0xff"
definition RTF_DOWN :: u8 where "RTF_DOWN = 0"
definition RTF_UP :: u8 where "RTF_UP = 1"
definition RTF_IN_REPAIR :: u8 where "RTF_IN_REPAIR = 2"
definition MAX_HISTORY :: nat where "MAX_HISTORY = 3"

lemma rtf_distinct [simp]:
  "RTF_DOWN \<noteq> RTF_UP" "RTF_UP \<noteq> RTF_DOWN"
  "RTF_IN_REPAIR \<noteq> RTF_UP" "RTF_IN_REPAIR \<noteq> RTF_DOWN"
  "RTF_UP \<noteq> RTF_IN_REPAIR" "RTF_DOWN \<noteq> RTF_IN_REPAIR"
  by (simp_all add: RTF_DOWN_def RTF_UP_def RTF_IN_REPAIR_def)

record EAMRP_Neighbor =
  nb_addr :: nsaddr
  nb_expire :: time

record EAMRP_Path =
  nexthop :: nsaddr
  hopcount :: u16
  path_expire :: time
  path_ts :: time
  lasthop :: nsaddr
  path_error :: bool

record EAMRP_Precursor =
  pc_addr :: nsaddr

record eamrp_rt_entry =
  rt_req_timeout :: time
  rt_req_cnt :: u8
  rt_flags :: u8
  rt_dst :: nsaddr
  rt_seqno :: u32
  rt_hops :: u16
  rt_advertised_hops :: u16
  rt_last_hop_count :: int
  rt_path_list :: "EAMRP_Path list"
  rt_highest_seqno_heard :: u32
  rt_num_paths :: int
  rt_error :: bool
  rt_pclist :: "EAMRP_Precursor list"
  rt_expire :: time
  rt_disc_latency :: "time list"
  hist_indx :: u8
  rt_req_last_ttl :: int
  rt_nblist :: "EAMRP_Neighbor list"

text \<open>
  The constructor assigns every member but \<^verbatim>\<open>rt_hops\<close>, which keeps whatever the allocated
  memory held: the argument \<open>g\<close>.
\<close>

definition new_rt_entry :: "u16 \<Rightarrow> eamrp_rt_entry" where
  "new_rt_entry g = \<lparr>rt_req_timeout = 0, rt_req_cnt = 0, rt_flags = RTF_DOWN, rt_dst = 0,
     rt_seqno = 0, rt_hops = g, rt_advertised_hops = INFINITY2,
     rt_last_hop_count = uint (INFINITY2 :: u8), rt_path_list = [],
     rt_highest_seqno_heard = 0, rt_num_paths = 0, rt_error = False, rt_pclist = [],
     rt_expire = 0, rt_disc_latency = replicate MAX_HISTORY 0, hist_indx = 0,
     rt_req_last_ttl = 0, rt_nblist = []\<rparr>"

section \<open>Neighbours and precursors of an entry\<close>

definition rt_nb_insert :: "nsaddr \<Rightarrow> eamrp_rt_entry \<Rightarrow> eamrp_rt_entry" where
  "rt_nb_insert a rt = rt\<lparr>rt_nblist := \<lparr>nb_addr = a, nb_expire = 0\<rparr> # rt_nblist rt\<rparr>"

fun nb_find :: "nsaddr \<Rightarrow> EAMRP_Neighbor list \<Rightarrow> EAMRP_Neighbor option" where
  "nb_find a [] = None"
| "nb_find a (nb # nbs) = (if nb_addr nb = a then Some nb else nb_find a nbs)"

definition rt_nb_lookup :: "nsaddr \<Rightarrow> eamrp_rt_entry \<Rightarrow> EAMRP_Neighbor option" where
  "rt_nb_lookup a rt = nb_find a (rt_nblist rt)"

fun pc_find :: "nsaddr \<Rightarrow> EAMRP_Precursor list \<Rightarrow> EAMRP_Precursor option" where
  "pc_find a [] = None"
| "pc_find a (pc # pcs) = (if pc_addr pc = a then Some pc else pc_find a pcs)"

definition pc_lookup :: "nsaddr \<Rightarrow> eamrp_rt_entry \<Rightarrow> EAMRP_Precursor option" where
  "pc_lookup a rt = pc_find a (rt_pclist rt)"

definition pc_insert :: "nsaddr \<Rightarrow> eamrp_rt_entry \<Rightarrow> eamrp_rt_entry" where
  "pc_insert a rt =
     (if pc_lookup a rt = None then rt\<lparr>rt_pclist := \<lparr>pc_addr = a\<rparr> # rt_pclist rt\<rparr> else rt)"

definition pc_delete :: "nsaddr \<Rightarrow> eamrp_rt_entry \<Rightarrow> eamrp_rt_entry" where
  "pc_delete a rt = rt\<lparr>rt_pclist := remove_first (\<lambda>pc. pc_addr pc = a) (rt_pclist rt)\<rparr>"

definition pc_delete_all :: "eamrp_rt_entry \<Rightarrow> eamrp_rt_entry" where
  "pc_delete_all rt = rt\<lparr>rt_pclist := []\<rparr>"

definition pc_empty :: "eamrp_rt_entry \<Rightarrow> bool" where
  "pc_empty rt \<longleftrightarrow> rt_pclist rt = []"

section \<open>Paths of an entry\<close>

definition new_path :: "nsaddr \<Rightarrow> u16 \<Rightarrow> time \<Rightarrow> nsaddr \<Rightarrow> time \<Rightarrow> EAMRP_Path" where
  "new_path nh h expire_time lh clock =
     \<lparr>nexthop = nh, hopcount = h, path_expire = expire_time, path_ts = clock,
      lasthop = lh, path_error = False\<rparr>"

text \<open>A new path goes to the end of the list.\<close>

definition path_insert ::
  "nsaddr \<Rightarrow> u16 \<Rightarrow> time \<Rightarrow> nsaddr \<Rightarrow> time \<Rightarrow> eamrp_rt_entry \<Rightarrow> eamrp_rt_entry" where
  "path_insert nh h expire_time lh clock rt =
     rt\<lparr>rt_path_list := rt_path_list rt @ [new_path nh h expire_time lh clock],
        rt_num_paths := rt_num_paths rt + 1\<rparr>"

fun path_by_nexthop :: "nsaddr \<Rightarrow> EAMRP_Path list \<Rightarrow> EAMRP_Path option" where
  "path_by_nexthop a [] = None"
| "path_by_nexthop a (p # ps) = (if nexthop p = a then Some p else path_by_nexthop a ps)"

definition path_lookup :: "nsaddr \<Rightarrow> eamrp_rt_entry \<Rightarrow> EAMRP_Path option" where
  "path_lookup a rt = path_by_nexthop a (rt_path_list rt)"

fun path_by_ends :: "nsaddr \<times> nsaddr \<Rightarrow> EAMRP_Path list \<Rightarrow> EAMRP_Path option" where
  "path_by_ends e [] = None"
| "path_by_ends e (p # ps) = (if (nexthop p, lasthop p) = e then Some p else path_by_ends e ps)"

definition disjoint_path_lookup :: "nsaddr \<Rightarrow> nsaddr \<Rightarrow> eamrp_rt_entry \<Rightarrow> EAMRP_Path option" where
  "disjoint_path_lookup nh lh rt = path_by_ends (nh, lh) (rt_path_list rt)"

fun path_put_list :: "EAMRP_Path \<Rightarrow> EAMRP_Path list \<Rightarrow> EAMRP_Path list" where
  "path_put_list p [] = []"
| "path_put_list p (q # qs) =
     (if (nexthop q, lasthop q) = (nexthop p, lasthop p) then p # qs else q # path_put_list p qs)"

definition path_put :: "EAMRP_Path \<Rightarrow> eamrp_rt_entry \<Rightarrow> eamrp_rt_entry" where
  "path_put p rt = rt\<lparr>rt_path_list := path_put_list p (rt_path_list rt)\<rparr>"

fun no_shared_hop :: "nsaddr \<Rightarrow> nsaddr \<Rightarrow> EAMRP_Path list \<Rightarrow> bool" where
  "no_shared_hop nh lh [] = True"
| "no_shared_hop nh lh (p # ps) =
     (if nexthop p = nh \<or> lasthop p = lh then False else no_shared_hop nh lh ps)"

definition new_disjoint_path :: "nsaddr \<Rightarrow> nsaddr \<Rightarrow> eamrp_rt_entry \<Rightarrow> bool" where
  "new_disjoint_path nh lh rt = no_shared_hop nh lh (rt_path_list rt)"

fun path_by_lasthop :: "nsaddr \<Rightarrow> EAMRP_Path list \<Rightarrow> EAMRP_Path option" where
  "path_by_lasthop a [] = None"
| "path_by_lasthop a (p # ps) = (if lasthop p = a then Some p else path_by_lasthop a ps)"

definition path_lookup_lasthop :: "nsaddr \<Rightarrow> eamrp_rt_entry \<Rightarrow> EAMRP_Path option" where
  "path_lookup_lasthop a rt = path_by_lasthop a (rt_path_list rt)"

definition path_delete :: "nsaddr \<Rightarrow> eamrp_rt_entry \<Rightarrow> eamrp_rt_entry" where
  "path_delete a rt =
     (case path_lookup a rt of
        None \<Rightarrow> rt
      | Some _ \<Rightarrow> rt\<lparr>rt_path_list := remove_first (\<lambda>p. nexthop p = a) (rt_path_list rt),
                     rt_num_paths := rt_num_paths rt - 1\<rparr>)"

definition path_delete_all :: "eamrp_rt_entry \<Rightarrow> eamrp_rt_entry" where
  "path_delete_all rt = rt\<lparr>rt_path_list := [], rt_num_paths := 0\<rparr>"

text \<open>
  The scan for the longest path returns the suffix that starts at it, so that the removal
  below unlinks that very element.
\<close>

fun longest_scan ::
  "EAMRP_Path list \<Rightarrow> nat \<Rightarrow> nat option \<Rightarrow> u16 \<Rightarrow> fault + nat option" where
  "longest_scan [] i best mx = Inr best"
| "longest_scan (p # ps) i best mx =
     (if hopcount p > mx then
        bindE (assertE Hopcount_finite (hopcount p \<noteq> INFINITY2))
          (\<lambda>_. longest_scan ps (Suc i) (Some i) (hopcount p))
      else longest_scan ps (Suc i) best mx)"

definition path_delete_longest :: "eamrp_rt_entry \<Rightarrow> fault + eamrp_rt_entry" where
  "path_delete_longest rt =
     bindE (longest_scan (rt_path_list rt) 0 None 0) (\<lambda>best. Inr
       (case best of
          None \<Rightarrow> rt
        | Some i \<Rightarrow> rt\<lparr>rt_path_list := take i (rt_path_list rt) @ drop (Suc i) (rt_path_list rt),
                       rt_num_paths := rt_num_paths rt - 1\<rparr>))"

definition path_empty :: "eamrp_rt_entry \<Rightarrow> fault + bool" where
  "path_empty rt =
     (case rt_path_list rt of
        p # _ \<Rightarrow> bindE (assertE Num_paths (rt_num_paths rt > 0)) (\<lambda>_. Inr False)
      | [] \<Rightarrow> bindE (assertE Num_paths (rt_num_paths rt = 0)) (\<lambda>_. Inr True))"

fun minhop_scan :: "EAMRP_Path list \<Rightarrow> EAMRP_Path option \<Rightarrow> u16 \<Rightarrow> EAMRP_Path option" where
  "minhop_scan [] best mn = best"
| "minhop_scan (p # ps) best mn =
     (if hopcount p < mn then minhop_scan ps (Some p) (hopcount p) else minhop_scan ps best mn)"

definition path_findMinHop :: "eamrp_rt_entry \<Rightarrow> EAMRP_Path option" where
  "path_findMinHop rt = minhop_scan (rt_path_list rt) None 0xffff"

definition path_find :: "eamrp_rt_entry \<Rightarrow> EAMRP_Path option" where
  "path_find rt = (case rt_path_list rt of [] \<Rightarrow> None | p # _ \<Rightarrow> Some p)"

fun max_hop_scan :: "EAMRP_Path list \<Rightarrow> u16 \<Rightarrow> u16" where
  "max_hop_scan [] mx = mx"
| "max_hop_scan (p # ps) mx = max_hop_scan ps (if hopcount p > mx then hopcount p else mx)"

definition path_get_max_hopcount :: "eamrp_rt_entry \<Rightarrow> u16" where
  "path_get_max_hopcount rt =
     (let mx = max_hop_scan (rt_path_list rt) 0 in if mx = 0 then INFINITY2 else mx)"

fun min_hop_scan :: "EAMRP_Path list \<Rightarrow> u16 \<Rightarrow> u16" where
  "min_hop_scan [] mn = mn"
| "min_hop_scan (p # ps) mn = min_hop_scan ps (if hopcount p < mn then hopcount p else mn)"

definition path_get_min_hopcount :: "eamrp_rt_entry \<Rightarrow> u16" where
  "path_get_min_hopcount rt = min_hop_scan (rt_path_list rt) INFINITY2"

fun max_expire_scan :: "EAMRP_Path list \<Rightarrow> time \<Rightarrow> time" where
  "max_expire_scan [] mx = mx"
| "max_expire_scan (p # ps) mx =
     max_expire_scan ps (if path_expire p > mx then path_expire p else mx)"

definition path_get_max_expiration_time :: "eamrp_rt_entry \<Rightarrow> time" where
  "path_get_max_expiration_time rt = max_expire_scan (rt_path_list rt) 0"

text \<open>
  \<^verbatim>\<open>path_purge\<close> restarts its walk from the head after each removal, and counts it.
\<close>

function path_purge :: "time \<Rightarrow> eamrp_rt_entry \<Rightarrow> eamrp_rt_entry" where
  "path_purge clock rt =
     (if \<exists>p\<in>set (rt_path_list rt). path_expire p < clock
      then path_purge clock
        (rt\<lparr>rt_path_list := remove_first (\<lambda>p. path_expire p < clock) (rt_path_list rt),
            rt_num_paths := rt_num_paths rt - 1\<rparr>)
      else rt)"
  by pat_completeness auto
termination
  by (relation "measure (\<lambda>(clock, rt). length (rt_path_list rt))")
    (auto simp: length_remove_first_less)

declare path_purge.simps [simp del]

section \<open>The table\<close>

fun rt_lookup :: "nsaddr \<Rightarrow> eamrp_rt_entry list \<Rightarrow> eamrp_rt_entry option" where
  "rt_lookup d [] = None"
| "rt_lookup d (rt # rts) = (if rt_dst rt = d then Some rt else rt_lookup d rts)"

definition rt_delete :: "nsaddr \<Rightarrow> eamrp_rt_entry list \<Rightarrow> eamrp_rt_entry list" where
  "rt_delete d t = (case rt_lookup d t of None \<Rightarrow> t | Some _ \<Rightarrow> remove_first (\<lambda>rt. rt_dst rt = d) t)"

definition rt_add :: "u16 \<Rightarrow> nsaddr \<Rightarrow> eamrp_rt_entry list \<Rightarrow> fault + eamrp_rt_entry list" where
  "rt_add g d t =
     bindE (assertE Rt_fresh (rt_lookup d t = None))
       (\<lambda>_. Inr ((new_rt_entry g)\<lparr>rt_dst := d\<rparr> # t))"

fun rt_put :: "eamrp_rt_entry \<Rightarrow> eamrp_rt_entry list \<Rightarrow> eamrp_rt_entry list" where
  "rt_put rt [] = []"
| "rt_put rt (e # es) = (if rt_dst e = rt_dst rt then rt # es else e # rt_put rt es)"

fun rt_has_active_route :: "eamrp_rt_entry list \<Rightarrow> bool" where
  "rt_has_active_route [] = False"
| "rt_has_active_route (rt # rts) = (if rt_flags rt = RTF_UP then True else rt_has_active_route rts)"

section \<open>The caches are keyed lists\<close>

interpretation nbl: keyed_list nb_addr nb_find
  by unfold_locales auto

interpretation pcl: keyed_list pc_addr pc_find
  by unfold_locales auto

interpretation pnh: keyed_list nexthop path_by_nexthop
  by unfold_locales auto

interpretation plh: keyed_list lasthop path_by_lasthop
  by unfold_locales auto

interpretation pends: keyed_store "\<lambda>p. (nexthop p, lasthop p)" path_by_ends path_put_list
  by unfold_locales auto

interpretation rtl: keyed_store rt_dst rt_lookup rt_put
  by unfold_locales auto

section \<open>What the path operations do\<close>

text \<open>
  The invariant of an entry's path list: the counter is the length, and the paths are
  node-disjoint at both ends (no two share the next hop or the last hop).
\<close>

definition paths_ok :: "eamrp_rt_entry \<Rightarrow> bool" where
  "paths_ok rt \<longleftrightarrow> rt_num_paths rt = int (length (rt_path_list rt))
     \<and> distinct (map nexthop (rt_path_list rt)) \<and> distinct (map lasthop (rt_path_list rt))"

named_theorems path_defs \<open>definitions of the path operations\<close>

declare path_insert_def [path_defs] path_lookup_def [path_defs]
  disjoint_path_lookup_def [path_defs] path_put_def [path_defs] path_delete_all_def [path_defs]
  new_path_def [path_defs]

lemma no_shared_hop_iff [simp]:
  "no_shared_hop nh lh ps \<longleftrightarrow> (\<forall>p\<in>set ps. nexthop p \<noteq> nh \<and> lasthop p \<noteq> lh)"
  by (induction ps) auto

lemma path_by_lasthop_None_iff:
  "path_by_lasthop a ps = None \<longleftrightarrow> (\<forall>p\<in>set ps. lasthop p \<noteq> a)"
  by (auto simp: plh.lookup_None)

lemma path_lookup_None_iff: "path_lookup a rt = None \<longleftrightarrow> (\<forall>p\<in>set (rt_path_list rt). nexthop p \<noteq> a)"
  by (auto simp: path_lookup_def pnh.lookup_None)

lemma disjoint_lookup_SomeD:
  "disjoint_path_lookup nh lh rt = Some p \<Longrightarrow>
     p \<in> set (rt_path_list rt) \<and> nexthop p = nh \<and> lasthop p = lh"
  by (auto simp: disjoint_path_lookup_def dest: pends.lookup_in pends.lookup_key)

text \<open>Only the paths and their counter change under the path operations.\<close>

lemma path_insert_paths [simp]:
  "rt_path_list (path_insert nh h e lh t rt) = rt_path_list rt @ [new_path nh h e lh t]"
  "rt_num_paths (path_insert nh h e lh t rt) = rt_num_paths rt + 1"
  by (simp_all add: path_insert_def)

lemma path_put_paths [simp]:
  "rt_path_list (path_put p rt) = path_put_list p (rt_path_list rt)"
  "rt_num_paths (path_put p rt) = rt_num_paths rt"
  by (simp_all add: path_put_def)

lemma new_path_sel [simp]:
  "nexthop (new_path nh h e lh t) = nh" "lasthop (new_path nh h e lh t) = lh"
  "hopcount (new_path nh h e lh t) = h" "path_expire (new_path nh h e lh t) = e"
  by (simp_all add: new_path_def)

lemma path_put_list_Nil_iff [simp]: "path_put_list p ps = [] \<longleftrightarrow> ps = []"
  by (cases ps) auto

lemma path_put_list_keys [simp]:
  "map nexthop (path_put_list p ps) = map nexthop ps"
  "map lasthop (path_put_list p ps) = map lasthop ps"
  by (induction ps) auto

lemma path_put_list_hopcounts:
  assumes "path_by_ends (nexthop p, lasthop p) ps = Some q" and "hopcount p = hopcount q"
  shows "map hopcount (path_put_list p ps) = map hopcount ps"
  using assms by (induction ps) (auto split: if_splits)

lemma paths_ok_insert:
  "paths_ok rt \<Longrightarrow> new_disjoint_path nh lh rt \<Longrightarrow> paths_ok (path_insert nh h e lh t rt)"
  by (auto simp: paths_ok_def new_disjoint_path_def)

lemma paths_ok_single: "paths_ok (path_insert nh h e lh t (path_delete_all rt))"
  by (simp add: paths_ok_def path_delete_all_def path_insert_def)

lemma paths_ok_put: "paths_ok rt \<Longrightarrow> paths_ok (path_put p rt)"
  using pends.put_length [of p "rt_path_list rt"] by (simp add: paths_ok_def)

lemma paths_ok_delete_all: "paths_ok (path_delete_all rt)"
  by (simp add: paths_ok_def path_delete_all_def)

lemma path_delete_paths:
  "rt_path_list (path_delete a rt) = remove_first (\<lambda>p. nexthop p = a) (rt_path_list rt)"
  by (auto simp: path_delete_def path_lookup_def pnh.lookup_find remove_first_find_None
      split: option.splits)

lemma paths_ok_delete: "paths_ok rt \<Longrightarrow> paths_ok (path_delete a rt)"
  by (auto simp: paths_ok_def path_delete_def path_lookup_def pnh.lookup_find
      distinct_map_remove_first dest: length_remove_first_find split: option.splits)

lemma path_delete_frame [simp]:
  "rt_dst (path_delete a rt) = rt_dst rt" "rt_flags (path_delete a rt) = rt_flags rt"
  "rt_seqno (path_delete a rt) = rt_seqno rt" "rt_expire (path_delete a rt) = rt_expire rt"
  "rt_highest_seqno_heard (path_delete a rt) = rt_highest_seqno_heard rt"
  "rt_hops (path_delete a rt) = rt_hops rt" "rt_error (path_delete a rt) = rt_error rt"
  "rt_advertised_hops (path_delete a rt) = rt_advertised_hops rt"
  "rt_last_hop_count (path_delete a rt) = rt_last_hop_count rt"
  "rt_disc_latency (path_delete a rt) = rt_disc_latency rt"
  "rt_req_last_ttl (path_delete a rt) = rt_req_last_ttl rt"
  by (auto simp: path_delete_def split: option.splits)

lemma in_path_delete: "p \<in> set (rt_path_list (path_delete a rt)) \<Longrightarrow> p \<in> set (rt_path_list rt)"
  by (auto simp: path_delete_paths dest: in_remove_firstD)

lemma path_empty_ok: "paths_ok rt \<Longrightarrow> path_empty rt = Inr (rt_path_list rt = [])"
  by (auto simp: paths_ok_def path_empty_def assertE_def split: list.splits)

lemma path_find_None [simp]: "path_find rt = None \<longleftrightarrow> rt_path_list rt = []"
  by (auto simp: path_find_def split: list.splits)

lemma path_find_SomeD: "path_find rt = Some p \<Longrightarrow> p \<in> set (rt_path_list rt)"
  by (auto simp: path_find_def split: list.splits)

text \<open>The purge is a filter that keeps the counter in step.\<close>

lemma path_purge_filter:
  "path_purge clock rt =
     rt\<lparr>rt_path_list := filter (\<lambda>p. \<not> path_expire p < clock) (rt_path_list rt),
        rt_num_paths := rt_num_paths rt
          - int (length (filter (\<lambda>p. path_expire p < clock) (rt_path_list rt)))\<rparr>"
proof (induction clock rt rule: path_purge.induct)
  case (1 clock rt)
  let ?P = "\<lambda>p. path_expire p < clock" and ?ps = "rt_path_list rt"
  show ?case
  proof (cases "\<exists>p\<in>set ?ps. ?P p")
    case True
    let ?rt = "rt\<lparr>rt_path_list := remove_first ?P ?ps, rt_num_paths := rt_num_paths rt - 1\<rparr>"
    have "path_purge clock rt = path_purge clock ?rt"
      using True by (subst path_purge.simps) simp
    also have "\<dots> = ?rt\<lparr>rt_path_list := filter (\<lambda>p. \<not> ?P p) (rt_path_list ?rt),
        rt_num_paths := rt_num_paths ?rt - int (length (filter ?P (rt_path_list ?rt)))\<rparr>"
      using "1.IH" [OF True] .
    finally show ?thesis
      using length_filter_remove_first [OF True]
      by (simp only: filter_remove_first eamrp_rt_entry.simps eamrp_rt_entry.surjective) simp
  next
    case False
    then have "filter (\<lambda>p. \<not> ?P p) ?ps = ?ps" "filter ?P ?ps = []"
      by (auto simp: filter_id_conv filter_empty_conv)
    with False show ?thesis by (simp add: path_purge.simps [of clock rt])
  qed
qed

lemma paths_ok_purge: "paths_ok rt \<Longrightarrow> paths_ok (path_purge clock rt)"
proof -
  have len: "length ps = length (filter (\<lambda>p. \<not> P p) ps) + length (filter P ps)"
    for ps :: "EAMRP_Path list" and P
    using sum_length_filter_compl [of P ps] by simp
  assume "paths_ok rt"
  then show ?thesis
    using len [of "rt_path_list rt" "\<lambda>p. path_expire p < clock"]
    by (simp add: paths_ok_def path_purge_filter distinct_map_filter)
qed

section \<open>Shortest and longest paths\<close>

lemma max_hop_scan_fold: "max_hop_scan ps mx = fold max (map hopcount ps) mx"
  by (induction ps arbitrary: mx) (auto simp: max_def)

lemma max_hop_scan_ge: "mx \<le> max_hop_scan ps mx"
  by (induction ps arbitrary: mx) (auto intro: order_trans less_imp_le)

lemma max_hop_scan_upper: "p \<in> set ps \<Longrightarrow> hopcount p \<le> max_hop_scan ps mx"
proof (induction ps arbitrary: mx)
  case (Cons q ps)
  have "hopcount q \<le> max_hop_scan (q # ps) mx"
    using max_hop_scan_ge [of "if hopcount q > mx then hopcount q else mx" ps]
    by (auto split: if_splits)
  with Cons show ?case by auto
qed simp

lemma max_hop_scan_mem: "max_hop_scan ps mx = mx \<or> (\<exists>p\<in>set ps. max_hop_scan ps mx = hopcount p)"
proof (induction ps arbitrary: mx)
  case (Cons p ps)
  then show ?case using Cons.IH [of "if hopcount p > mx then hopcount p else mx"]
    by (auto split: if_splits)
qed simp

lemma path_get_max_hopcount_ge:
  "p \<in> set (rt_path_list rt) \<Longrightarrow> hopcount p \<le> path_get_max_hopcount rt"
  using max_hop_scan_upper [of p "rt_path_list rt" 0]
  by (auto simp: path_get_max_hopcount_def Let_def)

lemma path_get_max_hopcount_pos: "0 < path_get_max_hopcount rt"
  by (simp add: path_get_max_hopcount_def Let_def INFINITY2_def word_neq_0_conv)

lemma path_get_max_hopcount_uint: "1 \<le> uint (path_get_max_hopcount rt)"
  using path_get_max_hopcount_pos [of rt] by (simp add: word_less_def)

lemma path_get_max_hopcount_mem:
  "path_get_max_hopcount rt = INFINITY2 \<or>
     (\<exists>p\<in>set (rt_path_list rt). path_get_max_hopcount rt = hopcount p)"
  using max_hop_scan_mem [of "rt_path_list rt" 0]
  by (auto simp: path_get_max_hopcount_def Let_def)

lemma min_hop_scan_le: "min_hop_scan ps mn \<le> mn"
  by (induction ps arbitrary: mn) (auto intro: order_trans less_imp_le)

lemma min_hop_scan_lower: "p \<in> set ps \<Longrightarrow> min_hop_scan ps mn \<le> hopcount p"
proof (induction ps arbitrary: mn)
  case (Cons q ps)
  have "min_hop_scan (q # ps) mn \<le> hopcount q"
    using min_hop_scan_le [of ps "if hopcount q < mn then hopcount q else mn"]
    by (auto split: if_splits)
  with Cons show ?case by auto
qed simp

lemma min_hop_scan_mem: "min_hop_scan ps mn = mn \<or> (\<exists>p\<in>set ps. min_hop_scan ps mn = hopcount p)"
proof (induction ps arbitrary: mn)
  case (Cons p ps)
  then show ?case using Cons.IH [of "if hopcount p < mn then hopcount p else mn"]
    by (auto split: if_splits)
qed simp

end
