(* ===== verification/Caches.thy ===== *)
theory Caches
  imports RTable
begin

text \<open>
  The broadcast ID cache of \<^verbatim>\<open>eamrp/eamrp.h\<close> (which route requests were seen, with the
  reverse and forward paths already used) and the list walks of the agent over this cache
  and over its neighbour cache. \<^theory_text>\<open>Agent\<close> keeps one list of each.
\<close>

section \<open>Broadcast IDs\<close>

record EAMRP_Route =
  nh_addr :: nsaddr
  lh_addr :: nsaddr

record EAMRPBroadcastID =
  bi_src :: nsaddr
  bi_id :: u32
  bi_expire :: time
  bi_count :: int
  reverse_path_list :: "EAMRP_Route list"
  forward_path_list :: "EAMRP_Route list"

definition BCAST_ID_SAVE :: time where "BCAST_ID_SAVE = 6"

text \<open>The constructor does not set \<^verbatim>\<open>expire\<close>; \<^verbatim>\<open>id_insert\<close> sets it at once.\<close>

definition id_insert ::
  "time \<Rightarrow> nsaddr \<Rightarrow> u32 \<Rightarrow> EAMRPBroadcastID list \<Rightarrow> EAMRPBroadcastID list" where
  "id_insert clock src b bs =
     \<lparr>bi_src = src, bi_id = b, bi_expire = clock + BCAST_ID_SAVE, bi_count = 0,
      reverse_path_list = [], forward_path_list = []\<rparr> # bs"

fun id_lookup :: "nsaddr \<times> u32 \<Rightarrow> EAMRPBroadcastID list \<Rightarrow> bool" where
  "id_lookup k [] = False"
| "id_lookup k (b # bs) = (if (bi_src b, bi_id b) = k then True else id_lookup k bs)"

fun id_get :: "nsaddr \<times> u32 \<Rightarrow> EAMRPBroadcastID list \<Rightarrow> EAMRPBroadcastID option" where
  "id_get k [] = None"
| "id_get k (b # bs) = (if (bi_src b, bi_id b) = k then Some b else id_get k bs)"

fun id_put :: "EAMRPBroadcastID \<Rightarrow> EAMRPBroadcastID list \<Rightarrow> EAMRPBroadcastID list" where
  "id_put b [] = []"
| "id_put b (c # cs) =
     (if (bi_src c, bi_id c) = (bi_src b, bi_id b) then b # cs else c # id_put b cs)"

fun id_purge :: "time \<Rightarrow> EAMRPBroadcastID list \<Rightarrow> EAMRPBroadcastID list" where
  "id_purge clock [] = []"
| "id_purge clock (b # bs) =
     (if bi_expire b \<le> clock then id_purge clock bs else b # id_purge clock bs)"

definition reverse_path_insert :: "nsaddr \<Rightarrow> nsaddr \<Rightarrow> EAMRPBroadcastID \<Rightarrow> EAMRPBroadcastID" where
  "reverse_path_insert nh lh b =
     b\<lparr>reverse_path_list := \<lparr>nh_addr = nh, lh_addr = lh\<rparr> # reverse_path_list b\<rparr>"

definition forward_path_insert :: "nsaddr \<Rightarrow> nsaddr \<Rightarrow> EAMRPBroadcastID \<Rightarrow> EAMRPBroadcastID" where
  "forward_path_insert nh lh b =
     b\<lparr>forward_path_list := \<lparr>nh_addr = nh, lh_addr = lh\<rparr> # forward_path_list b\<rparr>"

fun route_find :: "nsaddr \<times> nsaddr \<Rightarrow> EAMRP_Route list \<Rightarrow> EAMRP_Route option" where
  "route_find k [] = None"
| "route_find k (r # rs) = (if (nh_addr r, lh_addr r) = k then Some r else route_find k rs)"

definition reverse_path_lookup :: "nsaddr \<Rightarrow> nsaddr \<Rightarrow> EAMRPBroadcastID \<Rightarrow> EAMRP_Route option" where
  "reverse_path_lookup nh lh b = route_find (nh, lh) (reverse_path_list b)"

definition forward_path_lookup :: "nsaddr \<Rightarrow> nsaddr \<Rightarrow> EAMRPBroadcastID \<Rightarrow> EAMRP_Route option" where
  "forward_path_lookup nh lh b = route_find (nh, lh) (forward_path_list b)"

section \<open>Neighbours of the agent\<close>

fun nb_put :: "EAMRP_Neighbor \<Rightarrow> EAMRP_Neighbor list \<Rightarrow> EAMRP_Neighbor list" where
  "nb_put nb [] = []"
| "nb_put nb (n # ns) = (if nb_addr n = nb_addr nb then nb # ns else n # nb_put nb ns)"

definition nb_upsert :: "time \<Rightarrow> nsaddr \<Rightarrow> EAMRP_Neighbor list \<Rightarrow> EAMRP_Neighbor list" where
  "nb_upsert until a nbs =
     (case nb_find a nbs of
        None \<Rightarrow> \<lparr>nb_addr = a, nb_expire = until\<rparr> # nbs
      | Some nb \<Rightarrow> nb_put (nb\<lparr>nb_expire := until\<rparr>) nbs)"

section \<open>Laws\<close>

interpretation ids: keyed_store "\<lambda>b. (bi_src b, bi_id b)" id_get id_put
  by unfold_locales auto

interpretation routes: keyed_list "\<lambda>r. (nh_addr r, lh_addr r)" route_find
  by unfold_locales auto

interpretation nbs: keyed_store nb_addr nb_find nb_put
  by unfold_locales auto

lemma id_lookup_get: "id_lookup k bs \<longleftrightarrow> id_get k bs \<noteq> None"
  by (induction bs) auto

lemma id_purge_filter: "id_purge clock bs = filter (\<lambda>b. \<not> bi_expire b \<le> clock) bs"
  by (induction bs) auto

lemma id_purge_distinct:
  "distinct (map (\<lambda>b. (bi_src b, bi_id b)) bs) \<Longrightarrow>
     distinct (map (\<lambda>b. (bi_src b, bi_id b)) (id_purge clock bs))"
  by (simp add: id_purge_filter distinct_map_filter)

lemma id_insert_distinct:
  "distinct (map (\<lambda>b. (bi_src b, bi_id b)) bs) \<Longrightarrow> id_get (src, b) bs = None \<Longrightarrow>
     distinct (map (\<lambda>b. (bi_src b, bi_id b)) (id_insert clock src b bs))"
  using ids.insert_distinct [of bs "hd (id_insert clock src b bs)"]
  by (simp add: id_insert_def)

lemma id_get_insert [simp]:
  "id_get k (id_insert clock src b bs) =
     (if k = (src, b) then Some (hd (id_insert clock src b bs)) else id_get k bs)"
  by (auto simp: id_insert_def)

lemma nb_upsert_find: "nb_find a (nb_upsert until a nbs) = Some \<lparr>nb_addr = a, nb_expire = until\<rparr>"
proof (cases "nb_find a nbs")
  case (Some nb)
  then have k: "nb_addr nb = a" by (rule nbl.lookup_key)
  with Some nbs.lookup_put_same [of "nb\<lparr>nb_expire := until\<rparr>" nbs nb]
  show ?thesis by (simp add: nb_upsert_def)
qed (simp add: nb_upsert_def)

lemma nb_upsert_distinct:
  "distinct (map nb_addr nbs) \<Longrightarrow> distinct (map nb_addr (nb_upsert until a nbs))"
  using nbl.insert_distinct [of nbs "\<lparr>nb_addr = a, nb_expire = until\<rparr>"]
  by (auto simp: nb_upsert_def split: option.splits)

end
