(* ===== verification/RQueue.thy ===== *)
theory RQueue
  imports NsPacket
begin

text \<open>
  The send buffer of \<^verbatim>\<open>eamrp/eamrp_rqueue.cc\<close> as the agent sees it: packets without a route,
  in arrival order, each stamped with the time it expires. The queue is a list here; the
  theory \<^theory_text>\<open>RQueuePtr\<close> models the linked cells and proves that they implement it.
\<close>

section \<open>Drop reasons\<close>

datatype drop_reason =
    DROP_RTR_NO_ROUTE | DROP_RTR_ROUTE_LOOP | DROP_RTR_TTL | DROP_RTR_QFULL
  | DROP_RTR_QTIMEOUT | DROP_RTR_MAC_CALLBACK | DROP_RTR_RTEXPIRE | DROP_RTR_HELLO
  | DROP_END_OF_SIMULATION | DROP_UNSPECIFIED

section \<open>The queue\<close>

record eamrp_rqueue =
  rq_pkts :: "packet list"
  rq_limit :: int
  rq_timeout :: time

definition EAMRP_RTQ_MAX_LEN :: int where "EAMRP_RTQ_MAX_LEN = 64"
definition EAMRP_RTQ_TIMEOUT :: time where "EAMRP_RTQ_TIMEOUT = 30"

definition rq_new :: eamrp_rqueue where
  "rq_new = \<lparr>rq_pkts = [], rq_limit = EAMRP_RTQ_MAX_LEN, rq_timeout = EAMRP_RTQ_TIMEOUT\<rparr>"

definition rq_len :: "eamrp_rqueue \<Rightarrow> int" where
  "rq_len q = int (length (rq_pkts q))"

definition rq_aged :: "time \<Rightarrow> packet \<Rightarrow> bool" where
  "rq_aged clock p \<longleftrightarrow> ch_ts p < clock"

text \<open>
  \<^verbatim>\<open>purge\<close>: while some packet has timed out, unlink the first one. The unlinked packets
  are neither dropped nor freed.
\<close>

definition rq_purge :: "time \<Rightarrow> eamrp_rqueue \<Rightarrow> eamrp_rqueue" where
  "rq_purge clock q = q\<lparr>rq_pkts := remove_all_loop (rq_aged clock) (rq_pkts q)\<rparr>"

definition rq_remove_head :: "eamrp_rqueue \<Rightarrow> packet option \<times> eamrp_rqueue" where
  "rq_remove_head q =
     (case rq_pkts q of [] \<Rightarrow> (None, q) | p # ps \<Rightarrow> (Some p, q\<lparr>rq_pkts := ps\<rparr>))"

text \<open>
  \<^verbatim>\<open>enque\<close> purges, stamps the packet, makes room by dropping the head when the buffer is
  full, and appends. The second component is what was passed to \<^verbatim>\<open>drop\<close>.
\<close>

definition rq_enque ::
  "time \<Rightarrow> packet \<Rightarrow> eamrp_rqueue \<Rightarrow> fault + eamrp_rqueue \<times> (packet \<times> drop_reason) list" where
  "rq_enque clock p q =
     (let q1 = rq_purge clock q; p1 = p\<lparr>ch_ts := clock + rq_timeout q1\<rparr> in
      bindE
        (if rq_len q1 = rq_limit q1 then
           (case rq_remove_head q1 of
              (None, _) \<Rightarrow> Inl (Assert_failed Queue_nonempty)
            | (Some p0, q2) \<Rightarrow>
                Inr (q2, [(p0, if ch_ts p0 > clock then DROP_RTR_QFULL else DROP_RTR_QTIMEOUT)]))
         else Inr (q1, []))
        (\<lambda>(q2, drops). Inr (q2\<lparr>rq_pkts := rq_pkts q2 @ [p1]\<rparr>, drops)))"

definition rq_deque :: "time \<Rightarrow> eamrp_rqueue \<Rightarrow> packet option \<times> eamrp_rqueue" where
  "rq_deque clock q = rq_remove_head (rq_purge clock q)"

definition rq_deque_dst :: "time \<Rightarrow> nsaddr \<Rightarrow> eamrp_rqueue \<Rightarrow> packet option \<times> eamrp_rqueue" where
  "rq_deque_dst clock d q =
     (let q1 = rq_purge clock q in
      case find (\<lambda>p. ih_daddr p = d) (rq_pkts q1) of
        None \<Rightarrow> (None, q1)
      | Some p \<Rightarrow> (Some p, q1\<lparr>rq_pkts := remove_first (\<lambda>p. ih_daddr p = d) (rq_pkts q1)\<rparr>))"

text \<open>\<^verbatim>\<open>find\<close> does not purge.\<close>

definition rq_find :: "nsaddr \<Rightarrow> eamrp_rqueue \<Rightarrow> bool" where
  "rq_find d q \<longleftrightarrow> find (\<lambda>p. ih_daddr p = d) (rq_pkts q) \<noteq> None"

section \<open>The buffer's contract\<close>

text \<open>
  What the routing agent relies on: taking a packet for a destination out of the buffer
  yields the oldest live one and leaves the others in order. The loops of the agent
  (\<^verbatim>\<open>while (p = rqueue.deque(dst))\<close>) are analysed once from these laws.
\<close>

locale send_buffer =
  fixes deq :: "time \<Rightarrow> nsaddr \<Rightarrow> 'q \<Rightarrow> packet option \<times> 'q"
    and pkts :: "'q \<Rightarrow> packet list"
    and live :: "time \<Rightarrow> packet \<Rightarrow> bool"
  assumes deq_None:
      "deq clock d q = (None, q') \<Longrightarrow>
         pkts q' = filter (live clock) (pkts q) \<and>
         (\<forall>p\<in>set (pkts q). live clock p \<longrightarrow> ih_daddr p \<noteq> d)"
    and deq_Some:
      "deq clock d q = (Some p, q') \<Longrightarrow>
         \<exists>as bs. filter (live clock) (pkts q) = as @ p # bs \<and> pkts q' = as @ bs \<and>
           ih_daddr p = d \<and> (\<forall>a\<in>set as. ih_daddr a \<noteq> d)"
begin

lemma deq_shrinks:
  assumes "deq clock d q = (Some p, q')"
  shows "length (pkts q') < length (pkts q)"
proof -
  obtain as bs where "filter (live clock) (pkts q) = as @ p # bs" "pkts q' = as @ bs"
    using deq_Some [OF assms] by blast
  then have "length (pkts q') < length (filter (live clock) (pkts q))" by simp
  also have "\<dots> \<le> length (pkts q)" by simp
  finally show ?thesis .
qed

lemma deq_live: "deq clock d q = (r, q') \<Longrightarrow> \<forall>p\<in>set (pkts q'). live clock p"
proof (cases r)
  case None
  moreover assume "deq clock d q = (r, q')"
  ultimately have "pkts q' = filter (live clock) (pkts q)" using deq_None by simp
  then show ?thesis by simp
next
  case (Some p)
  moreover assume "deq clock d q = (r, q')"
  ultimately obtain as bs where
    f: "filter (live clock) (pkts q) = as @ p # bs" "pkts q' = as @ bs"
    using deq_Some by blast
  have "\<forall>x\<in>set (as @ p # bs). live clock x"
    unfolding f(1) [symmetric] by simp
  with f(2) show ?thesis by auto
qed

lemma deq_Some_order:
  assumes "deq clock d q = (Some p, q')"
  shows "filter (\<lambda>x. ih_daddr x = d) (filter (live clock) (pkts q))
           = p # filter (\<lambda>x. ih_daddr x = d) (pkts q')"
    and "filter (\<lambda>x. ih_daddr x \<noteq> d) (filter (live clock) (pkts q))
           = filter (\<lambda>x. ih_daddr x \<noteq> d) (pkts q')"
proof -
  obtain as bs where f: "filter (live clock) (pkts q) = as @ p # bs" "pkts q' = as @ bs"
    and d: "ih_daddr p = d" "\<forall>a\<in>set as. ih_daddr a \<noteq> d"
    using deq_Some [OF assms] by blast
  have "filter (\<lambda>x. ih_daddr x = d) as = []" using d(2) by simp
  then show "filter (\<lambda>x. ih_daddr x = d) (filter (live clock) (pkts q))
           = p # filter (\<lambda>x. ih_daddr x = d) (pkts q')"
    by (simp add: f d(1))
  show "filter (\<lambda>x. ih_daddr x \<noteq> d) (filter (live clock) (pkts q))
           = filter (\<lambda>x. ih_daddr x \<noteq> d) (pkts q')"
    by (simp add: f d(1))
qed

end

section \<open>The list queue keeps the contract\<close>

lemma rq_purge_filter: "rq_pkts (rq_purge clock q) = filter (\<lambda>p. \<not> rq_aged clock p) (rq_pkts q)"
  by (simp add: rq_purge_def remove_all_loop_filter)

lemma rq_purge_frame [simp]:
  "rq_limit (rq_purge clock q) = rq_limit q" "rq_timeout (rq_purge clock q) = rq_timeout q"
  by (simp_all add: rq_purge_def)

interpretation sb: send_buffer rq_deque_dst rq_pkts "\<lambda>clock p. \<not> rq_aged clock p"
proof
  fix clock d q q'
  assume a: "rq_deque_dst clock d q = (None, q')"
  then have "find (\<lambda>p. ih_daddr p = d) (rq_pkts (rq_purge clock q)) = None" "q' = rq_purge clock q"
    by (auto simp: rq_deque_dst_def Let_def split: option.splits)
  then show "rq_pkts q' = filter (\<lambda>p. \<not> rq_aged clock p) (rq_pkts q) \<and>
      (\<forall>p\<in>set (rq_pkts q). \<not> rq_aged clock p \<longrightarrow> ih_daddr p \<noteq> d)"
    by (auto simp: rq_purge_filter find_None_ball)
next
  fix clock d q p q'
  assume a: "rq_deque_dst clock d q = (Some p, q')"
  then have f: "find (\<lambda>p. ih_daddr p = d) (rq_pkts (rq_purge clock q)) = Some p"
    and q': "rq_pkts q' = remove_first (\<lambda>p. ih_daddr p = d) (rq_pkts (rq_purge clock q))"
    by (auto simp: rq_deque_dst_def Let_def split: option.splits)
  show "\<exists>as bs. filter (\<lambda>p. \<not> rq_aged clock p) (rq_pkts q) = as @ p # bs \<and> rq_pkts q' = as @ bs \<and>
      ih_daddr p = d \<and> (\<forall>a\<in>set as. ih_daddr a \<noteq> d)"
    using remove_first_split [OF f] unfolding q' rq_purge_filter by blast
qed

lemma rq_deque_dst_frame:
  "rq_deque_dst clock d q = (r, q') \<Longrightarrow> rq_limit q' = rq_limit q \<and> rq_timeout q' = rq_timeout q"
  by (auto simp: rq_deque_dst_def Let_def split: option.splits)

lemma rq_deque_dst_len: "rq_deque_dst clock d q = (r, q') \<Longrightarrow> rq_len q' \<le> rq_len q"
proof (cases r)
  case None
  moreover assume "rq_deque_dst clock d q = (r, q')"
  ultimately have "rq_pkts q' = filter (\<lambda>p. \<not> rq_aged clock p) (rq_pkts q)"
    using sb.deq_None by blast
  then show ?thesis by (simp add: rq_len_def)
next
  case (Some p)
  moreover assume "rq_deque_dst clock d q = (r, q')"
  ultimately show ?thesis using sb.deq_shrinks by (fastforce simp: rq_len_def)
qed

lemma rq_find_iff: "rq_find d q \<longleftrightarrow> (\<exists>p\<in>set (rq_pkts q). ih_daddr p = d)"
  by (auto simp: rq_find_def find_None_ball)

end
