(* ===== verification/PriQueue.thy ===== *)
theory PriQueue
  imports RQueue
begin

text \<open>
  The interface queue of \<^verbatim>\<open>queue/priqueue.cc\<close>. \<^verbatim>\<open>PriQueue\<close> owns an ns-2 \<^verbatim>\<open>PacketQueue\<close>,
  whose packets it walks through \<^verbatim>\<open>next_\<close> and which it changes through \<^verbatim>\<open>enqueHead\<close>,
  \<^verbatim>\<open>remove\<close> and the inherited \<^verbatim>\<open>deque\<close> and \<^verbatim>\<open>recv\<close>. Those belong to ns-2: they are the
  operations of \<open>pq_ops\<close>, on the list of queued packets, and \<open>pq_lawful\<close> states
  what the ns-2 manual documents of them.
\<close>

section \<open>The ns-2 queue\<close>

record pq_ops =
  q_enqueHead :: "packet \<Rightarrow> packet list \<Rightarrow> packet list"
  q_remove :: "nat \<Rightarrow> packet list \<Rightarrow> packet list"
    \<comment> \<open>\<^verbatim>\<open>remove(p)\<close> and \<^verbatim>\<open>remove(p, pp)\<close> for the packet at a position of the chain\<close>
  q_deque :: "packet list \<Rightarrow> packet option \<times> packet list"
  q_recv :: "packet \<Rightarrow> packet list \<Rightarrow> packet list \<times> (packet \<times> drop_reason) list"
    \<comment> \<open>\<^verbatim>\<open>Queue::recv\<close> with the packets it hands to \<^verbatim>\<open>drop\<close>\<close>

definition pq_lawful :: "pq_ops \<Rightarrow> bool" where
  "pq_lawful Q \<longleftrightarrow>
     (\<forall>p ps. q_enqueHead Q p ps = p # ps) \<and>
     (\<forall>i ps. i < length ps \<longrightarrow> q_remove Q i ps = take i ps @ drop (Suc i) ps) \<and>
     q_deque Q [] = (None, []) \<and> (\<forall>p ps. q_deque Q (p # ps) = (Some p, ps))"

lemma pq_lawfulD:
  assumes "pq_lawful Q"
  shows "q_enqueHead Q p ps = p # ps"
    and "i < length ps \<Longrightarrow> q_remove Q i ps = take i ps @ drop (Suc i) ps"
    and "q_deque Q [] = (None, [])" and "q_deque Q (p # ps) = (Some p, ps)"
  using assms by (auto simp: pq_lawful_def)

section \<open>PriQueue\<close>

record pri_queue =
  q_packets :: "packet list"
  qlim :: int
  blocked :: bool
  Prefer_Routing_Protocols :: bool

datatype pq_event = Pq_drop packet drop_reason | Pq_send packet

text \<open>
  \<^verbatim>\<open>recvHighPriority\<close>: insert at the front, drop the last packet when the limit is reached,
  then send the next packet unless the link is busy.
\<close>

definition recvHighPriority :: "pq_ops \<Rightarrow> packet \<Rightarrow> pri_queue \<Rightarrow> pri_queue \<times> pq_event list" where
  "recvHighPriority Q p q =
     (let ps1 = q_enqueHead Q p (q_packets q);
          last_ix = length ps1 - 1;
          (ps2, drops) =
            (if int (length ps1) \<ge> qlim q
             then (q_remove Q last_ix ps1, [Pq_drop (ps1 ! last_ix) DROP_UNSPECIFIED])
             else (ps1, []))
      in if \<not> blocked q then
           (case q_deque Q ps2 of
              (None, ps3) \<Rightarrow> (q\<lparr>q_packets := ps3\<rparr>, drops)
            | (Some r, ps3) \<Rightarrow> (q\<lparr>q_packets := ps3, blocked := True\<rparr>, drops @ [Pq_send r]))
         else (q\<lparr>q_packets := ps2\<rparr>, drops))"

definition pq_recv :: "pq_ops \<Rightarrow> packet \<Rightarrow> pri_queue \<Rightarrow> pri_queue \<times> pq_event list" where
  "pq_recv Q p q =
     (if Prefer_Routing_Protocols q
         \<and> ch_ptype p \<in> {PT_DSR, PT_MESSAGE, PT_TORA, PT_AODV, PT_AOMDV, PT_EAMRP, PT_MDART}
      then recvHighPriority Q p q
      else (let (ps, drops) = q_recv Q p (q_packets q)
            in (q\<lparr>q_packets := ps\<rparr>, map (\<lambda>(r, why). Pq_drop r why) drops)))"

text \<open>
  \<^verbatim>\<open>filter(PacketFilter, void *)\<close>: the index only advances past packets that stay. The
  number of packets is the bound on the steps of the loop.
\<close>

fun pq_filter_loop ::
  "nat \<Rightarrow> pq_ops \<Rightarrow> (packet \<Rightarrow> bool) \<Rightarrow> nat \<Rightarrow> packet list \<Rightarrow> packet list option" where
  "pq_filter_loop fuel Q f i ps =
     (if i < length ps then
        (case fuel of
           0 \<Rightarrow> None
         | Suc n \<Rightarrow>
             if f (ps ! i) then pq_filter_loop n Q f i (q_remove Q i ps)
             else pq_filter_loop n Q f (Suc i) ps)
      else Some ps)"

declare pq_filter_loop.simps [simp del]

definition pq_filter :: "pq_ops \<Rightarrow> (packet \<Rightarrow> bool) \<Rightarrow> pri_queue \<Rightarrow> fault + pri_queue" where
  "pq_filter Q f q =
     (case pq_filter_loop (length (q_packets q)) Q f 0 (q_packets q) of
        None \<Rightarrow> Inl Diverges
      | Some ps \<Rightarrow> Inr (q\<lparr>q_packets := ps\<rparr>))"

text \<open>\<^verbatim>\<open>filter(nsaddr_t)\<close>: unlink and return the first packet for a next hop.\<close>

fun nexthop_index :: "nsaddr \<Rightarrow> packet list \<Rightarrow> nat option" where
  "nexthop_index a [] = None"
| "nexthop_index a (p # ps) =
     (if ch_next_hop p = a then Some 0 else map_option Suc (nexthop_index a ps))"

definition pq_filter_nexthop ::
  "pq_ops \<Rightarrow> nsaddr \<Rightarrow> packet list \<Rightarrow> packet option \<times> packet list" where
  "pq_filter_nexthop Q a ps =
     (case nexthop_index a ps of
        None \<Rightarrow> (None, ps)
      | Some i \<Rightarrow> (Some (ps ! i), q_remove Q i ps))"

fun pq_Terminate :: "nat \<Rightarrow> pq_ops \<Rightarrow> packet list \<Rightarrow> fault + packet list \<times> pq_event list" where
  "pq_Terminate fuel Q ps =
     (case q_deque Q ps of
        (None, ps1) \<Rightarrow> Inr (ps1, [])
      | (Some p, ps1) \<Rightarrow>
          (case fuel of
             0 \<Rightarrow> Inl Diverges
           | Suc n \<Rightarrow> bindE (pq_Terminate n Q ps1)
               (\<lambda>(ps2, evs). Inr (ps2, Pq_drop p DROP_END_OF_SIMULATION # evs))))"

declare pq_Terminate.simps [simp del]

text \<open>
  \<^verbatim>\<open>command\<close>: the reset empties the queue and then goes to the parent class, whose command is
  a parameter. The number of packets bounds the loop.
\<close>

definition strcasecmp_eq :: "string \<Rightarrow> string \<Rightarrow> bool" where
  "strcasecmp_eq a b \<longleftrightarrow> map to_lower a = map to_lower b"

definition pq_command ::
  "pq_ops \<Rightarrow> (string list \<Rightarrow> packet list \<Rightarrow> 'r \<times> packet list) \<Rightarrow> string list \<Rightarrow> packet list
     \<Rightarrow> fault + ('r \<times> packet list) \<times> pq_event list" where
  "pq_command Q parent argv ps =
     bindE (if length argv = 2 \<and> strcasecmp_eq (argv ! 1) ''reset'' then pq_Terminate (length ps) Q ps
            else Inr (ps, []))
       (\<lambda>(ps1, evs). Inr (parent argv ps1, evs))"

section \<open>What the queue operations do\<close>

lemma nexthop_index_bound: "nexthop_index a ps = Some i \<Longrightarrow> i < length ps \<and> ch_next_hop (ps ! i) = a"
  by (induction ps arbitrary: i) (auto split: if_splits)

lemma nexthop_index_find:
  "nexthop_index a ps = None \<longleftrightarrow> find (\<lambda>p. ch_next_hop p = a) ps = None"
  by (induction ps) auto

lemma nexthop_index_remove:
  "nexthop_index a ps = Some i \<Longrightarrow>
     find (\<lambda>p. ch_next_hop p = a) ps = Some (ps ! i) \<and>
     take i ps @ drop (Suc i) ps = remove_first (\<lambda>p. ch_next_hop p = a) ps"
  by (induction ps arbitrary: i) (auto split: if_splits)

lemma pq_filter_nexthop_lawful:
  assumes "pq_lawful Q"
  shows "pq_filter_nexthop Q a ps =
    (find (\<lambda>p. ch_next_hop p = a) ps, remove_first (\<lambda>p. ch_next_hop p = a) ps)"
proof (cases "nexthop_index a ps")
  case None
  then have "find (\<lambda>p. ch_next_hop p = a) ps = None" by (simp add: nexthop_index_find)
  with None show ?thesis
    by (simp add: pq_filter_nexthop_def remove_first_find_None)
next
  case (Some i)
  with nexthop_index_remove [OF Some] nexthop_index_bound [OF Some] pq_lawfulD(2) [OF assms]
  show ?thesis by (simp add: pq_filter_nexthop_def)
qed

lemma pq_filter_loop_lawful:
  assumes "pq_lawful Q"
  shows "i \<le> length ps \<Longrightarrow> length ps - i \<le> fuel \<Longrightarrow>
    pq_filter_loop fuel Q f i ps = Some (take i ps @ filter (\<lambda>p. \<not> f p) (drop i ps))"
proof (induction fuel arbitrary: i ps)
  case 0
  then show ?case by (subst pq_filter_loop.simps) simp
next
  case (Suc n)
  show ?case
  proof (cases "i < length ps")
    case False
    then show ?thesis by (subst pq_filter_loop.simps) simp
  next
    case True
    have d: "drop i ps = ps ! i # drop (Suc i) ps" using True by (rule Cons_nth_drop_Suc [symmetric])
    show ?thesis
    proof (cases "f (ps ! i)")
      case True
      let ?ps = "take i ps @ drop (Suc i) ps"
      have "pq_filter_loop (Suc n) Q f i ps = pq_filter_loop n Q f i ?ps"
        using \<open>i < length ps\<close> True pq_lawfulD(2) [OF assms]
        by (simp add: pq_filter_loop.simps [of "Suc n" Q f i ps])
      also have "\<dots> = Some (take i ?ps @ filter (\<lambda>p. \<not> f p) (drop i ?ps))"
        using Suc \<open>i < length ps\<close> by (intro Suc.IH) auto
      finally show ?thesis using \<open>i < length ps\<close> True d by simp
    next
      case False
      have "pq_filter_loop (Suc n) Q f i ps = pq_filter_loop n Q f (Suc i) ps"
        using \<open>i < length ps\<close> False by (simp add: pq_filter_loop.simps [of "Suc n" Q f i ps])
      also have "\<dots> = Some (take (Suc i) ps @ filter (\<lambda>p. \<not> f p) (drop (Suc i) ps))"
        using Suc \<open>i < length ps\<close> by (intro Suc.IH) auto
      finally show ?thesis using \<open>i < length ps\<close> False d by (simp add: take_Suc_conv_app_nth)
    qed
  qed
qed

lemma pq_Terminate_lawful:
  assumes "pq_lawful Q"
  shows "length ps \<le> fuel \<Longrightarrow>
    pq_Terminate fuel Q ps = Inr ([], map (\<lambda>p. Pq_drop p DROP_END_OF_SIMULATION) ps)"
proof (induction ps arbitrary: fuel)
  case Nil
  then show ?case by (simp add: pq_Terminate.simps [of fuel] pq_lawfulD(3) [OF assms])
next
  case (Cons p ps)
  then obtain n where "fuel = Suc n" "length ps \<le> n" by (cases fuel) auto
  with Cons.IH [of n] show ?case
    by (simp add: pq_Terminate.simps [of "Suc n"] pq_lawfulD(4) [OF assms])
qed

lemma pq_reset_empties:
  assumes "pq_lawful Q"
  shows "pq_command Q parent [c, ''reset''] ps =
    Inr (parent [c, ''reset''] [], map (\<lambda>p. Pq_drop p DROP_END_OF_SIMULATION) ps)"
  using pq_Terminate_lawful [OF assms, of ps "length ps"] by (simp add: pq_command_def strcasecmp_eq_def)

end
