(* ===== verification/Agent.thy ===== *)
theory Agent
  imports Caches PriQueue
begin

text \<open>
  The routing agent of \<^verbatim>\<open>eamrp/eamrp.h\<close> and \<^verbatim>\<open>eamrp/eamrp.cc\<close>: its state, its surroundings in
  ns-2, and the operations that send packets and manage routes and neighbours. Reception
  is in \<^theory_text>\<open>AgentRecv\<close>, timers and the Tcl command in \<^theory_text>\<open>AgentTimers\<close>.

  An operation takes the surroundings \<open>E\<close> and the state, and returns the state or a fault.
  Effects on the rest of the simulator are appended to \<open>out\<close>. A \<^verbatim>\<open>eamrp_rt_entry *\<close> is the
  destination of the entry; the code never deletes an entry.
\<close>

section \<open>Constants\<close>

definition MY_ROUTE_TIMEOUT :: time where "MY_ROUTE_TIMEOUT = 10"
definition ACTIVE_ROUTE_TIMEOUT :: time where "ACTIVE_ROUTE_TIMEOUT = 10"
definition REV_ROUTE_LIFE :: time where "REV_ROUTE_LIFE = 6"
definition RREQ_RETRIES :: u8 where "RREQ_RETRIES = 3"
definition MAX_RREQ_TIMEOUT :: time where "MAX_RREQ_TIMEOUT = 1"
definition TTL_START :: int where "TTL_START = 5"
definition TTL_INCREMENT :: int where "TTL_INCREMENT = 2"
definition TTL_THRESHOLD :: int where "TTL_THRESHOLD = 7"
definition NETWORK_DIAMETER :: int where "NETWORK_DIAMETER = 30"
definition EAMRP_MAX_SALVAGE_COUNT :: int where "EAMRP_MAX_SALVAGE_COUNT = 10"
definition EAMRP_DELAY :: time where "EAMRP_DELAY = 1"
definition NO_EAMRP_DELAY :: time where "NO_EAMRP_DELAY = - 1"
definition ARP_DELAY :: time where "ARP_DELAY = 1 / 100"
definition HELLO_INTERVAL :: time where "HELLO_INTERVAL = 1"
definition ALLOWED_HELLO_LOSS :: time where "ALLOWED_HELLO_LOSS = 3"
definition MaxHelloInterval :: time where "MaxHelloInterval = 125 / 100 * HELLO_INTERVAL"
definition MinHelloInterval :: time where "MinHelloInterval = 75 / 100 * HELLO_INTERVAL"
definition NODE_TRAVERSAL_TIME :: time where "NODE_TRAVERSAL_TIME = 3 / 100"

section \<open>Surroundings\<close>

text \<open>
  What the sources take from code that is not theirs: the clock, the random numbers, the
  headers' sizes and constants, the ns-2 packet queue. \<^verbatim>\<open>INFINITY\<close> is not defined in these
  sources (the definition in \<^verbatim>\<open>eamrp.h\<close> is commented out): \<open>inf16\<close> is what assigning it to
  a \<^verbatim>\<open>u_int16_t\<close> stores and \<open>eq_inf\<close> what comparing a \<^verbatim>\<open>u_int16_t\<close> with it yields.
  \<open>uninit16\<close> is the content of the uninitialised \<^verbatim>\<open>rt_hops\<close> of a new entry.
\<close>

record ns2 =
  now :: time
  rnd :: "nat \<Rightarrow> real"
  inf16 :: u16
  eq_inf :: "u16 \<Rightarrow> bool"
  uninit16 :: u16
  IP_HDR_LEN :: int
  AF_INET :: int
  pq :: pq_ops

datatype timer = Btimer | Htimer | Ntimer | Rtimer

datatype event =
    Scheduled packet time
  | Dropped packet drop_reason
  | Freed packet
  | To_dmux packet
  | Lr_timer packet time
  | Timer_set timer time
  | Tcl_result int
  | Table_printed

section \<open>State\<close>

record eamrp =
  index :: nsaddr
  seqno :: u32
  bid :: int
  nbhead :: "EAMRP_Neighbor list"
  bihead :: "EAMRPBroadcastID list"
  rtable :: "eamrp_rt_entry list"
  rqueue :: eamrp_rqueue
  ifqueue :: "pri_queue option"
  eamrp_max_paths :: int
  eamrp_prim_alt_path_len_diff :: int
  here_addr :: nsaddr
  dmux :: bool
  target :: bool
  logtarget :: bool
  draws :: nat
  out :: "event list"

text \<open>
  The constructor, with the values \<^verbatim>\<open>bind\<close> leaves in the two parameters and the address
  ns-2 gives the agent; \<^verbatim>\<open>target_\<close> and \<^verbatim>\<open>dmux_\<close> are connected later.
\<close>

definition EAMRP_new :: "nsaddr \<Rightarrow> int \<Rightarrow> int \<Rightarrow> nsaddr \<Rightarrow> eamrp" where
  "EAMRP_new ident max_paths len_diff here =
     \<lparr>index = ident, seqno = 2, bid = 1, nbhead = [], bihead = [], rtable = [],
      rqueue = rq_new, ifqueue = None, eamrp_max_paths = max_paths,
      eamrp_prim_alt_path_len_diff = len_diff, here_addr = here, dmux = False,
      target = False, logtarget = False, draws = 0, out = []\<rparr>"

definition emit :: "event \<Rightarrow> eamrp \<Rightarrow> eamrp" where
  "emit e s = s\<lparr>out := out s @ [e]\<rparr>"

definition uniform :: "ns2 \<Rightarrow> eamrp \<Rightarrow> real \<times> eamrp" where
  "uniform E s = (rnd E (draws s), s\<lparr>draws := Suc (draws s)\<rparr>)"

definition upd_rt ::
  "nsaddr \<Rightarrow> (eamrp_rt_entry \<Rightarrow> eamrp_rt_entry) \<Rightarrow> eamrp \<Rightarrow> fault + eamrp" where
  "upd_rt d f s =
     (case rt_lookup d (rtable s) of
        None \<Rightarrow> Inl Null_deref
      | Some rt \<Rightarrow> Inr (s\<lparr>rtable := rt_put (f rt) (rtable s)\<rparr>))"

text \<open>\<^verbatim>\<open>rt = rtable.rt_lookup(d); if (rt == 0) rt = rtable.rt_add(d);\<close>\<close>

definition ensure_rt :: "ns2 \<Rightarrow> nsaddr \<Rightarrow> eamrp \<Rightarrow> fault + eamrp" where
  "ensure_rt E d s =
     (case rt_lookup d (rtable s) of
        Some _ \<Rightarrow> Inr s
      | None \<Rightarrow> bindE (rt_add (uninit16 E) d (rtable s)) (\<lambda>t. Inr (s\<lparr>rtable := t\<rparr>)))"

definition set_head_expire :: "time \<Rightarrow> eamrp_rt_entry \<Rightarrow> eamrp_rt_entry" where
  "set_head_expire t rt =
     (case rt_path_list rt of
        [] \<Rightarrow> rt
      | p # ps \<Rightarrow> rt\<lparr>rt_path_list := p\<lparr>path_expire := t\<rparr> # ps\<rparr>)"

section \<open>The send buffer\<close>

definition buffer_packet :: "ns2 \<Rightarrow> packet \<Rightarrow> eamrp \<Rightarrow> fault + eamrp" where
  "buffer_packet E p s =
     bindE (rq_enque (now E) p (rqueue s)) (\<lambda>(q, drops).
       Inr (fold (\<lambda>(r, why). emit (Dropped r why)) drops (s\<lparr>rqueue := q\<rparr>)))"

text \<open>
  \<^verbatim>\<open>while ((p = rqueue.deque(d))) act(p)\<close>, with an accumulator for the body. The fuel is
  the number of buffered packets; \<open>Diverges\<close> is proved not to occur.
\<close>

fun drain ::
  "nat \<Rightarrow> time \<Rightarrow> nsaddr \<Rightarrow> (packet \<Rightarrow> 'a \<times> eamrp \<Rightarrow> fault + 'a \<times> eamrp) \<Rightarrow> 'a \<times> eamrp
     \<Rightarrow> fault + 'a \<times> eamrp" where
  "drain n clock d act (a, s) =
     (case rq_deque_dst clock d (rqueue s) of
        (None, q) \<Rightarrow> Inr (a, s\<lparr>rqueue := q\<rparr>)
      | (Some p, q) \<Rightarrow>
          (case n of
             0 \<Rightarrow> Inl Diverges
           | Suc m \<Rightarrow> bindE (act p (a, s\<lparr>rqueue := q\<rparr>)) (drain m clock d act)))"

declare drain.simps [simp del]

definition drain_all ::
  "ns2 \<Rightarrow> nsaddr \<Rightarrow> (packet \<Rightarrow> 'a \<times> eamrp \<Rightarrow> fault + 'a \<times> eamrp) \<Rightarrow> 'a \<Rightarrow> eamrp
     \<Rightarrow> fault + 'a \<times> eamrp" where
  "drain_all E d act a s = drain (length (rq_pkts (rqueue s))) (now E) d act (a, s)"

definition drain_drop :: "ns2 \<Rightarrow> nsaddr \<Rightarrow> drop_reason \<Rightarrow> eamrp \<Rightarrow> fault + eamrp" where
  "drain_drop E d why s =
     bindE (drain_all E d (\<lambda>p (u, t). Inr (u, emit (Dropped p why) t)) () s) (\<lambda>(_, t). Inr t)"

section \<open>Transmission\<close>

text \<open>
  \<^verbatim>\<open>forward\<close>: drop at TTL zero, hand up what is addressed to this node, else send along the
  first path of the entry (refreshing its lifetime) or broadcast.
\<close>

definition forward ::
  "ns2 \<Rightarrow> nsaddr option \<Rightarrow> packet \<Rightarrow> time \<Rightarrow> eamrp \<Rightarrow> fault + eamrp" where
  "forward E rt_ptr p delay s =
     (if ih_ttl p = 0 then Inr (emit (Dropped p DROP_RTR_TTL) s)
      else if (ch_ptype p \<noteq> PT_EAMRP \<and> ch_direction p = UP \<and> ih_daddr p = IP_BROADCAST)
          \<or> ih_daddr p = here_addr s
      then (if dmux s then Inr (emit (To_dmux p) s) else Inl Null_deref)
      else
        bindE
          (case rt_ptr of
             Some d \<Rightarrow>
               (case rt_lookup d (rtable s) of
                  None \<Rightarrow> Inl Null_deref
                | Some rt \<Rightarrow>
                    bindE (assertE Route_up (rt_flags rt = RTF_UP)) (\<lambda>_.
                    case path_find rt of
                      None \<Rightarrow> Inl Null_deref
                    | Some path \<Rightarrow>
                        let rt1 = set_head_expire (now E + ACTIVE_ROUTE_TIMEOUT) rt;
                            rt2 = (if ih_saddr p \<noteq> index s \<and> DATA_PACKET (ch_ptype p)
                                   then rt1\<lparr>rt_error := True\<rparr> else rt1)
                        in Inr (p\<lparr>ch_addr_type := NS_AF_INET, ch_next_hop := nexthop path,
                                  ch_direction := DOWN\<rparr>,
                                s\<lparr>rtable := rt_put rt2 (rtable s)\<rparr>)))
           | None \<Rightarrow>
               bindE (assertE Broadcast_dst (ih_daddr p = IP_BROADCAST)) (\<lambda>_.
                 Inr (p\<lparr>ch_addr_type := NS_AF_NONE, ch_direction := DOWN\<rparr>, s)))
          (\<lambda>(p1, s1).
             if ih_daddr p1 = IP_BROADCAST then
               bindE (assertE No_route_given (rt_ptr = None)) (\<lambda>_.
                 let (u, s2) = uniform E s1 in Inr (emit (Scheduled p1 (u * (1 / 100))) s2))
             else Inr (emit (Scheduled p1 (if delay > 0 then delay else 0)) s1)))"

text \<open>\<^verbatim>\<open>forwardReply\<close>: as \<^verbatim>\<open>forward\<close>, but it neither looks at the port classifier nor sets the next hop.\<close>

definition forwardReply ::
  "ns2 \<Rightarrow> nsaddr option \<Rightarrow> packet \<Rightarrow> time \<Rightarrow> eamrp \<Rightarrow> fault + eamrp" where
  "forwardReply E rt_ptr p delay s =
     (if ih_ttl p = 0 then Inr (emit (Dropped p DROP_RTR_TTL) s)
      else
        bindE
          (case rt_ptr of
             Some d \<Rightarrow>
               (case rt_lookup d (rtable s) of
                  None \<Rightarrow> Inl Null_deref
                | Some rt \<Rightarrow>
                    bindE (assertE Route_up (rt_flags rt = RTF_UP)) (\<lambda>_.
                      Inr (p\<lparr>ch_addr_type := NS_AF_INET, ch_direction := DOWN\<rparr>,
                           if ih_saddr p \<noteq> index s \<and> DATA_PACKET (ch_ptype p)
                           then s\<lparr>rtable := rt_put (rt\<lparr>rt_error := True\<rparr>) (rtable s)\<rparr> else s)))
           | None \<Rightarrow>
               bindE (assertE Broadcast_dst (ih_daddr p = IP_BROADCAST)) (\<lambda>_.
                 Inr (p\<lparr>ch_addr_type := NS_AF_NONE, ch_direction := DOWN\<rparr>, s)))
          (\<lambda>(p1, s1).
             if ih_daddr p1 = IP_BROADCAST then
               bindE (assertE No_route_given (rt_ptr = None)) (\<lambda>_.
                 let (u, s2) = uniform E s1 in Inr (emit (Scheduled p1 (u * (1 / 100))) s2))
             else Inr (emit (Scheduled p1 (if delay > 0 then delay else 0)) s1)))"

definition PerHopTime :: "eamrp_rt_entry option \<Rightarrow> time" where
  "PerHopTime rt_ptr =
     (case rt_ptr of
        None \<Rightarrow> NODE_TRAVERSAL_TIME
      | Some rt \<Rightarrow>
          let nz = filter (\<lambda>x. x > 0) (take MAX_HISTORY (rt_disc_latency rt)) in
          if length nz > 0 then sum_list nz / real (length nz) else NODE_TRAVERSAL_TIME)"

text \<open>The TTL of the next request and the entry's counters (\<^verbatim>\<open>sendRequest\<close>, the ring search).\<close>

definition ring_ttl :: "eamrp_rt_entry \<Rightarrow> int \<times> eamrp_rt_entry" where
  "ring_ttl rt =
     (let last_ttl = max (rt_req_last_ttl rt) (rt_last_hop_count rt);
          (ttl, rt1) =
            (if last_ttl = 0 then (TTL_START, rt)
             else if last_ttl < TTL_THRESHOLD then (last_ttl + TTL_INCREMENT, rt)
             else (NETWORK_DIAMETER, rt\<lparr>rt_req_cnt := rt_req_cnt rt + 1\<rparr>))
      in (ttl, rt1\<lparr>rt_req_last_ttl := ttl\<rparr>))"

definition req_timeout :: "ns2 \<Rightarrow> int \<Rightarrow> eamrp_rt_entry \<Rightarrow> time" where
  "req_timeout E ttl rt =
     (let t0 = 2 * real_of_int ttl * PerHopTime (Some rt);
          t1 = (if rt_req_cnt rt > 0 then t0 * real (unat (rt_req_cnt rt)) else t0);
          t2 = t1 + now E
      in if t2 > now E + MAX_RREQ_TIMEOUT then now E + MAX_RREQ_TIMEOUT else t2)"

definition rreq_packet :: "ns2 \<Rightarrow> nsaddr \<Rightarrow> eamrp_rt_entry \<Rightarrow> int \<Rightarrow> eamrp \<Rightarrow> packet" where
  "rreq_packet E dst rt ttl s =
     (let rq = \<lparr>rq_hop_count = 0, rq_bcast_id = of_int (bid s), rq_dst = dst,
                rq_dst_seqno = rt_seqno rt, rq_src = index s, rq_src_seqno = seqno s + 2,
                rq_timestamp = now E, rq_first_hop = 0\<rparr>
      in packet_alloc\<lparr>ih_ttl := ttl, ch_ptype := PT_EAMRP,
           ch_size := IP_HDR_LEN E + rq_size rq, ch_iface := - 2, ch_error := 0,
           ch_addr_type := NS_AF_NONE, ch_prev_hop := index s,
           ih_saddr := index s, ih_daddr := IP_BROADCAST,
           ih_sport := RT_PORT, ih_dport := RT_PORT, hdr := Rreq rq\<rparr>)"

definition sendRequest :: "ns2 \<Rightarrow> nsaddr \<Rightarrow> eamrp \<Rightarrow> fault + eamrp" where
  "sendRequest E dst s =
     (case rt_lookup dst (rtable s) of
        None \<Rightarrow> Inl (Assert_failed Rt_found)
      | Some rt \<Rightarrow>
          if rt_flags rt = RTF_UP then
            bindE (assertE Rt_hops_valid (rt_hops rt \<noteq> INFINITY2))
              (\<lambda>_. Inr (emit (Freed packet_alloc) s))
          else if rt_req_timeout rt > now E then Inr (emit (Freed packet_alloc) s)
          else if rt_req_cnt rt > RREQ_RETRIES then
            let rt1 = rt\<lparr>rt_req_timeout := now E + MAX_RREQ_TIMEOUT, rt_req_cnt := 0\<rparr> in
            bindE (drain_drop E (rt_dst rt) DROP_RTR_NO_ROUTE
                     (s\<lparr>rtable := rt_put rt1 (rtable s)\<rparr>))
              (\<lambda>s1. Inr (emit (Freed packet_alloc) s1))
          else
            let (ttl, rt1) = ring_ttl rt;
                rt2 = rt1\<lparr>rt_req_timeout := req_timeout E ttl rt1, rt_expire := 0\<rparr>;
                p = rreq_packet E dst rt2 ttl s
            in bindE (assertE Seqno_even (even (seqno s + 2))) (\<lambda>_.
                 Inr (emit (Scheduled p 0)
                   (s\<lparr>rtable := rt_put rt2 (rtable s), bid := bid s + 1, seqno := seqno s + 2\<rparr>))))"

definition sendReply ::
  "ns2 \<Rightarrow> nsaddr \<Rightarrow> u32 \<Rightarrow> nsaddr \<Rightarrow> u32 \<Rightarrow> time \<Rightarrow> time \<Rightarrow> nsaddr \<Rightarrow> u32 \<Rightarrow> nsaddr \<Rightarrow> eamrp \<Rightarrow> eamrp" where
  "sendReply E ipdst hop_count rpdst rpseq lifetime timestamp next bcast_id first_hop s =
     (let rp = \<lparr>rp_hop_count = ucast hop_count, rp_dst = rpdst, rp_dst_seqno = rpseq,
                rp_src = index s, rp_lifetime = lifetime, rp_timestamp = timestamp,
                rp_bcast_id = bcast_id, rp_first_hop = first_hop\<rparr>;
          p = packet_alloc\<lparr>ch_ptype := PT_EAMRP,
                ch_size := IP_HDR_LEN E + rp_size EAMRPTYPE_RREP, ch_iface := - 2, ch_error := 0,
                ch_addr_type := NS_AF_INET, ch_next_hop := next,
                ch_xmit_failure := Some Eamrp_rt_failed_callback,
                ih_saddr := index s, ih_daddr := ipdst, ih_sport := RT_PORT, ih_dport := RT_PORT,
                ih_ttl := NETWORK_DIAMETER, hdr := Rrep rp\<rparr>
      in emit (Scheduled p 0) s)"

definition sendError :: "ns2 \<Rightarrow> hdr_eamrp_error \<Rightarrow> bool \<Rightarrow> eamrp \<Rightarrow> eamrp" where
  "sendError E re jitter s =
     (let p = packet_alloc\<lparr>ch_ptype := PT_EAMRP, ch_size := IP_HDR_LEN E + re_size re,
                ch_iface := - 2, ch_error := 0, ch_addr_type := NS_AF_NONE, ch_next_hop := 0,
                ch_prev_hop := index s, ch_direction := DOWN,
                ih_saddr := index s, ih_daddr := IP_BROADCAST, ih_sport := RT_PORT,
                ih_dport := RT_PORT, ih_ttl := 1, hdr := Rerr re\<rparr>
      in if jitter then (let (u, s1) = uniform E s in emit (Scheduled p (1 / 100 * u)) s1)
         else emit (Scheduled p 0) s)"

text \<open>\<^verbatim>\<open>sendHello\<close> leaves the fields of the zeroed header it does not set.\<close>

definition sendHello :: "ns2 \<Rightarrow> eamrp \<Rightarrow> eamrp" where
  "sendHello E s =
     (let rh = \<lparr>rp_hop_count = 0, rp_dst = index s, rp_dst_seqno = seqno s, rp_src = 0,
                rp_lifetime = (1 + ALLOWED_HELLO_LOSS) * HELLO_INTERVAL, rp_timestamp = 0,
                rp_bcast_id = 0, rp_first_hop = 0\<rparr>;
          p = packet_alloc\<lparr>ch_ptype := PT_EAMRP,
                ch_size := IP_HDR_LEN E + rp_size EAMRPTYPE_HELLO, ch_iface := - 2, ch_error := 0,
                ch_addr_type := NS_AF_NONE, ch_prev_hop := index s,
                ih_saddr := index s, ih_daddr := IP_BROADCAST, ih_sport := RT_PORT,
                ih_dport := RT_PORT, ih_ttl := 1, hdr := Hello rh\<rparr>
      in emit (Scheduled p 0) s)"

section \<open>Routes\<close>

definition rt_down :: "ns2 \<Rightarrow> eamrp_rt_entry \<Rightarrow> eamrp_rt_entry" where
  "rt_down E rt =
     (if rt_flags rt = RTF_DOWN then rt
      else (path_delete_all (rt\<lparr>rt_flags := RTF_DOWN, rt_advertised_hops := inf16 E\<rparr>))
             \<lparr>rt_expire := 0\<rparr>)"

text \<open>One entry of the loop of \<^verbatim>\<open>handle_link_failure\<close>, then the walk over the table.\<close>

definition link_failure_entry ::
  "ns2 \<Rightarrow> nsaddr \<Rightarrow> hdr_eamrp_error \<Rightarrow> eamrp_rt_entry
     \<Rightarrow> fault + hdr_eamrp_error \<times> eamrp_rt_entry" where
  "link_failure_entry E nb re rt =
     (if rt_flags rt = RTF_UP \<and> path_lookup nb rt \<noteq> None then
        bindE (assertE Seqno_even (even (rt_seqno rt))) (\<lambda>_.
        let rt1 = path_delete nb rt in
        bindE (path_empty rt1) (\<lambda>e.
        if e then
          let rt2 = rt1\<lparr>rt_seqno := max (rt_seqno rt1 + 1) (rt_highest_seqno_heard rt1)\<rparr> in
          bindE (if rt_error rt2
                 then bindE (re_push (rt_dst rt2) (rt_seqno rt2) re)
                        (\<lambda>re1. Inr (re1, rt2\<lparr>rt_error := False\<rparr>))
                 else Inr (re, rt2))
            (\<lambda>(re1, rt3). Inr (re1, rt_down E rt3))
        else Inr (re, rt1)))
      else Inr (re, rt))"

fun link_failure_walk ::
  "ns2 \<Rightarrow> nsaddr \<Rightarrow> hdr_eamrp_error \<Rightarrow> eamrp_rt_entry list
     \<Rightarrow> fault + hdr_eamrp_error \<times> eamrp_rt_entry list" where
  "link_failure_walk E nb re [] = Inr (re, [])"
| "link_failure_walk E nb re (rt # rts) =
     bindE (link_failure_entry E nb re rt) (\<lambda>(re1, rt1).
     bindE (link_failure_walk E nb re1 rts) (\<lambda>(re2, rts1). Inr (re2, rt1 # rts1)))"

definition handle_link_failure :: "ns2 \<Rightarrow> nsaddr \<Rightarrow> eamrp \<Rightarrow> fault + eamrp" where
  "handle_link_failure E nb s =
     bindE (link_failure_walk E nb re_empty (rtable s)) (\<lambda>(re, t).
       let s1 = s\<lparr>rtable := t\<rparr> in
       Inr (if DestCount re > 0 then sendError E re False s1
            else emit (Freed (packet_alloc\<lparr>hdr := Rerr re\<rparr>)) s1))"

text \<open>Built without \<^verbatim>\<open>EAMRP_LINK_LAYER_DETECTION\<close>, \<^verbatim>\<open>rt_ll_failed\<close> only drops the packet.\<close>

definition rt_ll_failed :: "packet \<Rightarrow> eamrp \<Rightarrow> eamrp" where
  "rt_ll_failed p s = emit (Dropped p DROP_RTR_MAC_CALLBACK) s"

definition local_rt_repair :: "ns2 \<Rightarrow> nsaddr \<Rightarrow> packet \<Rightarrow> eamrp \<Rightarrow> fault + eamrp" where
  "local_rt_repair E d p s =
     bindE (buffer_packet E p s) (\<lambda>s1.
     bindE (upd_rt d (\<lambda>rt. rt\<lparr>rt_flags := RTF_IN_REPAIR\<rparr>) s1) (\<lambda>s2.
     bindE (sendRequest E d s2) (\<lambda>s3.
     case rt_lookup d (rtable s3) of
       None \<Rightarrow> Inl Null_deref
     | Some rt \<Rightarrow>
         Inr (emit (Lr_timer (p\<lparr>ch_ts := now E + rq_timeout (rqueue s)\<rparr>) (rt_req_timeout rt)) s3))))"

text \<open>The cases of \<^verbatim>\<open>rt_resolve\<close> on the entry of the destination, then the whole function.\<close>

definition resolve_with :: "ns2 \<Rightarrow> packet \<Rightarrow> eamrp_rt_entry \<Rightarrow> eamrp \<Rightarrow> fault + eamrp" where
  "resolve_with E p rt s =
     (if rt_flags rt = RTF_UP then
        bindE (assertE Rt_hops_valid (rt_hops rt \<noteq> INFINITY2))
          (\<lambda>_. forward E (Some (rt_dst rt)) p NO_EAMRP_DELAY s)
      else if ih_saddr p = index s then
        bindE (buffer_packet E p s) (sendRequest E (rt_dst rt))
      else if rt_flags rt = RTF_IN_REPAIR then buffer_packet E p s
      else
        bindE (assertE Route_down (rt_flags rt = RTF_DOWN)) (\<lambda>_.
        bindE (re_push (rt_dst rt) (rt_seqno rt) re_empty) (\<lambda>re.
          Inr (emit (Dropped p DROP_RTR_NO_ROUTE) (sendError E re False s)))))"

definition rt_resolve :: "ns2 \<Rightarrow> packet \<Rightarrow> eamrp \<Rightarrow> fault + eamrp" where
  "rt_resolve E p s =
     (let p1 = p\<lparr>ch_xmit_failure := Some Eamrp_rt_failed_callback\<rparr> in
      bindE (ensure_rt E (ih_daddr p1) s) (\<lambda>s1.
      case rt_lookup (ih_daddr p1) (rtable s1) of
        None \<Rightarrow> Inl Null_deref
      | Some rt \<Rightarrow> resolve_with E p1 rt s1))"

section \<open>Neighbours\<close>

definition nb_insert :: "ns2 \<Rightarrow> nsaddr \<Rightarrow> eamrp \<Rightarrow> eamrp" where
  "nb_insert E a s = s\<lparr>nbhead := nb_upsert (now E + HELLO_INTERVAL * ALLOWED_HELLO_LOSS) a (nbhead s)\<rparr>"

definition nb_lookup :: "nsaddr \<Rightarrow> eamrp \<Rightarrow> EAMRP_Neighbor option" where
  "nb_lookup a s = nb_find a (nbhead s)"

text \<open>The treatment of one packet taken back from the interface queue.\<close>

definition salvage :: "drop_reason \<Rightarrow> ns2 \<Rightarrow> packet \<Rightarrow> eamrp \<Rightarrow> fault + eamrp" where
  "salvage why E p s =
     (if \<not> DATA_PACKET (ch_ptype p) then Inr (emit (Dropped p why) s)
      else (case rt_lookup (ih_daddr p) (rtable s) of
              None \<Rightarrow> Inr (emit (Dropped p why) s)
            | Some rt \<Rightarrow>
                if rt_flags rt = RTF_UP \<and> ch_eamrp_salvage_count p < EAMRP_MAX_SALVAGE_COUNT
                then forward E (Some (ih_daddr p))
                       (p\<lparr>ch_eamrp_salvage_count := ch_eamrp_salvage_count p + 1\<rparr>) NO_EAMRP_DELAY s
                else Inr (emit (Dropped p why) s)))"

fun salvage_loop :: "nat \<Rightarrow> drop_reason \<Rightarrow> ns2 \<Rightarrow> nsaddr \<Rightarrow> eamrp \<Rightarrow> fault + eamrp" where
  "salvage_loop n why E nb s =
     (case ifqueue s of
        None \<Rightarrow> Inl Null_deref
      | Some q \<Rightarrow>
          (case pq_filter_nexthop (pq E) nb (q_packets q) of
             (None, ps) \<Rightarrow> Inr (s\<lparr>ifqueue := Some (q\<lparr>q_packets := ps\<rparr>)\<rparr>)
           | (Some p, ps) \<Rightarrow>
               (case n of
                  0 \<Rightarrow> Inl Diverges
                | Suc m \<Rightarrow>
                    bindE (salvage why E p (s\<lparr>ifqueue := Some (q\<lparr>q_packets := ps\<rparr>)\<rparr>))
                      (salvage_loop m why E nb))))"

declare salvage_loop.simps [simp del]

definition nb_delete :: "ns2 \<Rightarrow> nsaddr \<Rightarrow> eamrp \<Rightarrow> fault + eamrp" where
  "nb_delete E a s =
     (let s1 = s\<lparr>seqno := seqno s + 2\<rparr> in
      bindE (assertE Seqno_even (even (seqno s1))) (\<lambda>_.
      bindE (handle_link_failure E a
               (s1\<lparr>nbhead := remove_first (\<lambda>nb. nb_addr nb = a) (nbhead s1)\<rparr>)) (\<lambda>s2.
        salvage_loop (case ifqueue s2 of None \<Rightarrow> 0 | Some q \<Rightarrow> length (q_packets q)) DROP_RTR_HELLO E a s2)))"

text \<open>
  \<^verbatim>\<open>nb_purge\<close> reads the successor before it deletes a neighbour, so it visits the
  neighbours there were at the start.
\<close>

definition nb_purge :: "ns2 \<Rightarrow> eamrp \<Rightarrow> fault + eamrp" where
  "nb_purge E s =
     foldE (\<lambda>nb t. if nb_expire nb \<le> now E then nb_delete E (nb_addr nb) t else Inr t) (nbhead s) s"

end
