(* ===== verification/AgentRecv.thy ===== *)
theory AgentRecv
  imports Agent
begin

text \<open>
  Packet reception of \<^verbatim>\<open>eamrp/eamrp.cc\<close>: \<^verbatim>\<open>recv\<close>, \<^verbatim>\<open>recvEAMRP\<close> and the handlers of requests,
  replies, errors and hellos. The two long handlers are split where the source has its
  section comments; the build has \<^verbatim>\<open>EAMRP_NODE_DISJOINT_PATHS\<close> and not
  \<^verbatim>\<open>EAMRP_LINK_DISJOINT_PATHS\<close>.
\<close>

section \<open>Shared steps\<close>

definition hops_plus1 :: "u8 \<Rightarrow> int" where
  "hops_plus1 h = uint h + 1"

text \<open>A newer sequence number replaces all paths by the one the message came along.\<close>

definition fresh_path ::
  "ns2 \<Rightarrow> u32 \<Rightarrow> nsaddr \<Rightarrow> u8 \<Rightarrow> time \<Rightarrow> nsaddr \<Rightarrow> eamrp_rt_entry \<Rightarrow> eamrp_rt_entry" where
  "fresh_path E sq nh h lifetime lh rt =
     (let rt1 = (path_delete_all (rt\<lparr>rt_seqno := sq, rt_advertised_hops := inf16 E\<rparr>))
                  \<lparr>rt_flags := RTF_UP\<rparr>;
          rt2 = path_insert nh (of_int (hops_plus1 h)) (now E + lifetime) lh (now E) rt1
      in rt2\<lparr>rt_last_hop_count := uint (path_get_max_hopcount rt2)\<rparr>)"

definition alternate_path ::
  "ns2 \<Rightarrow> nsaddr \<Rightarrow> u8 \<Rightarrow> time \<Rightarrow> nsaddr \<Rightarrow> eamrp_rt_entry \<Rightarrow> eamrp_rt_entry" where
  "alternate_path E nh h lifetime lh rt =
     (let rt1 = path_insert nh (of_int (hops_plus1 h)) (now E + lifetime) lh (now E) rt
      in rt1\<lparr>rt_last_hop_count := uint (path_get_max_hopcount rt1)\<rparr>)"

definition extend_path ::
  "ns2 \<Rightarrow> time \<Rightarrow> EAMRP_Path \<Rightarrow> eamrp_rt_entry \<Rightarrow> eamrp_rt_entry" where
  "extend_path E lifetime path rt =
     path_put (path\<lparr>path_expire := max (path_expire path) (now E + lifetime)\<rparr>) rt"

definition reset_soft_state :: "eamrp_rt_entry \<Rightarrow> eamrp_rt_entry" where
  "reset_soft_state rt = rt\<lparr>rt_req_timeout := 0, rt_req_last_ttl := 0, rt_req_cnt := 0\<rparr>"

definition advertise :: "ns2 \<Rightarrow> eamrp_rt_entry \<Rightarrow> eamrp_rt_entry" where
  "advertise E rt =
     (if eq_inf E (rt_advertised_hops rt)
      then rt\<lparr>rt_advertised_hops := path_get_max_hopcount rt\<rparr> else rt)"

text \<open>
  If the route is up: reset the soft state and forward the buffered packets. The guard
  inside the loop reads the flag of the entry again.
\<close>

definition flush_buffer :: "ns2 \<Rightarrow> nsaddr \<Rightarrow> eamrp \<Rightarrow> fault + eamrp" where
  "flush_buffer E d s =
     (case rt_lookup d (rtable s) of
        None \<Rightarrow> Inl Null_deref
      | Some rt \<Rightarrow>
          if rt_flags rt = RTF_UP then
            bindE (drain_all E d
              (\<lambda>p (u, t).
                 case rt_lookup d (rtable t) of
                   None \<Rightarrow> Inl Null_deref
                 | Some rt1 \<Rightarrow>
                     if rt_flags rt1 = RTF_UP
                     then bindE (forward E (Some d) p NO_EAMRP_DELAY t) (\<lambda>t1. Inr (u, t1))
                     else Inr (u, t))
              () (s\<lparr>rtable := rt_put (reset_soft_state rt) (rtable s)\<rparr>))
              (\<lambda>(_, t). Inr t)
          else Inr s)"

section \<open>Route requests\<close>

text \<open>
  Create or update the reverse path. The result says whether the request is dropped here
  and otherwise whether \<^verbatim>\<open>reverse_path\<close> is non-null.
\<close>

datatype rev_outcome = Rev_drop | Rev_path bool

definition rreq_reverse ::
  "ns2 \<Rightarrow> int \<Rightarrow> int \<Rightarrow> nsaddr \<Rightarrow> nsaddr \<Rightarrow> hdr_eamrp_request \<Rightarrow> eamrp_rt_entry
     \<Rightarrow> fault + eamrp_rt_entry \<times> rev_outcome" where
  "rreq_reverse E max_paths len_diff me from rq rt0 =
     (if rt_seqno rt0 < rq_src_seqno rq then
        Inr (fresh_path E (rq_src_seqno rq) from (rq_hop_count rq) REV_ROUTE_LIFE (rq_first_hop rq) rt0,
             Rev_path True)
      else if rt_seqno rt0 = rq_src_seqno rq
           \<and> uint (rt_advertised_hops rt0) > uint (rq_hop_count rq) then
        bindE (assertE Route_up (rt_flags rt0 = RTF_UP)) (\<lambda>_.
        case disjoint_path_lookup from (rq_first_hop rq) rt0 of
          Some path \<Rightarrow>
            bindE (assertE Hopcount_match (uint (hopcount path) = hops_plus1 (rq_hop_count rq))) (\<lambda>_.
              Inr (extend_path E REV_ROUTE_LIFE path rt0, Rev_path True))
        | None \<Rightarrow>
            if new_disjoint_path from (rq_first_hop rq) rt0 then
              let ins = rt_num_paths rt0 < max_paths
                    \<and> hops_plus1 (rq_hop_count rq) - uint (path_get_min_hopcount rt0) \<le> len_diff;
                  rt1 = (if ins then alternate_path E from (rq_hop_count rq) REV_ROUTE_LIFE (rq_first_hop rq) rt0
                         else rt0)
              in if hops_plus1 (rq_hop_count rq) - uint (path_get_min_hopcount rt1) > len_diff
                 then Inr (rt1, Rev_drop) else Inr (rt1, Rev_path ins)
            else if rq_dst rq = me
                 \<and> (case path_lookup_lasthop (rq_first_hop rq) rt0 of
                      None \<Rightarrow> True
                    | Some erp \<Rightarrow> hops_plus1 (rq_hop_count rq) > uint (hopcount erp))
            then Inr (rt0, Rev_drop)
            else Inr (rt0, Rev_path False))
      else Inr (rt0, Rev_drop))"

text \<open>The destination's own sequence number before it replies.\<close>

definition reply_seqno :: "u32 \<Rightarrow> u32 \<Rightarrow> u32" where
  "reply_seqno own wanted =
     (let n = (if own < wanted then wanted + 1 else own) in if odd n then n + 1 else n)"

definition rreq_at_destination :: "ns2 \<Rightarrow> packet \<Rightarrow> hdr_eamrp_request \<Rightarrow> eamrp \<Rightarrow> eamrp" where
  "rreq_at_destination E p rq s =
     (let s1 = s\<lparr>seqno := reply_seqno (seqno s) (rq_dst_seqno rq)\<rparr>
      in emit (Freed p)
           (sendReply E (rq_src rq) 0 (index s1) (seqno s1) MY_ROUTE_TIMEOUT (rq_timestamp rq)
              (ih_saddr p) (rq_bcast_id rq) (ih_saddr p) s1))"

text \<open>A fresh route for the destination: answer once per request, if there is a reverse path.\<close>

definition rreq_fresh_route ::
  "ns2 \<Rightarrow> packet \<Rightarrow> hdr_eamrp_request \<Rightarrow> bool \<Rightarrow> eamrp_rt_entry \<Rightarrow> eamrp \<Rightarrow> fault + eamrp" where
  "rreq_fresh_route E p rq have_reverse rt s =
     bindE (assertE Seqno_even (even (rt_seqno rt))) (\<lambda>_.
     bindE
       (if have_reverse then
          (case id_get (rq_src rq, rq_bcast_id rq) (bihead s) of
             None \<Rightarrow> Inl Null_deref
           | Some b \<Rightarrow>
               if bi_count b = 0 then
                 let rt1 = advertise E rt in
                 (case path_find rt1 of
                    None \<Rightarrow> Inl Null_deref
                  | Some fp \<Rightarrow>
                      let rt2 = rt1\<lparr>rt_error := True\<rparr> in
                      Inr (sendReply E (rq_src rq) (ucast (rt_advertised_hops rt2)) (rq_dst rq)
                             (rt_seqno rt2) (path_expire fp - now E) (rq_timestamp rq)
                             (ih_saddr p) (rq_bcast_id rq) (lasthop fp)
                             (s\<lparr>bihead := id_put (b\<lparr>bi_count := 1\<rparr>) (bihead s),
                                rtable := rt_put rt2 (rtable s)\<rparr>)))
               else Inr s)
        else Inr s)
       (\<lambda>s1. Inr (emit (Freed p) s1)))"

text \<open>Rebroadcast, with the reverse route's advertised hop count.\<close>

definition rreq_propagate ::
  "ns2 \<Rightarrow> packet \<Rightarrow> hdr_eamrp_request \<Rightarrow> eamrp \<Rightarrow> fault + eamrp" where
  "rreq_propagate E p rq s =
     (let dst_seqno = (case rt_lookup (rq_dst rq) (rtable s) of
                         None \<Rightarrow> rq_dst_seqno rq
                       | Some rt \<Rightarrow> max (rt_seqno rt) (rq_dst_seqno rq)) in
      case rt_lookup (rq_src rq) (rtable s) of
        None \<Rightarrow> Inl Null_deref
      | Some rt0 \<Rightarrow>
          let rt1 = advertise E rt0 in
          (case path_find rt1 of
             None \<Rightarrow> Inl Null_deref
           | Some path \<Rightarrow>
               forward E None
                 (p\<lparr>ih_saddr := index s,
                    hdr := Rreq (rq\<lparr>rq_dst_seqno := dst_seqno,
                                    rq_hop_count := ucast (rt_advertised_hops rt1),
                                    rq_first_hop := lasthop path\<rparr>)\<rparr>)
                 EAMRP_DELAY (s\<lparr>rtable := rt_put rt1 (rtable s)\<rparr>)))"

definition rreq_answer ::
  "ns2 \<Rightarrow> packet \<Rightarrow> hdr_eamrp_request \<Rightarrow> bool \<Rightarrow> bool \<Rightarrow> eamrp \<Rightarrow> fault + eamrp" where
  "rreq_answer E p rq kill have_reverse s =
     (if rq_dst rq = index s then Inr (rreq_at_destination E p rq s)
      else case rt_lookup (rq_dst rq) (rtable s) of
        None \<Rightarrow> if kill then Inr (emit (Freed p) s) else rreq_propagate E p rq s
      | Some rt \<Rightarrow>
          if rt_flags rt = RTF_UP \<and> rt_seqno rt \<ge> rq_dst_seqno rq
          then rreq_fresh_route E p rq have_reverse rt s
          else if kill then Inr (emit (Freed p) s)
          else rreq_propagate E p rq s)"

text \<open>After the reverse path update: drop, or forward what was buffered and answer.\<close>

definition rreq_continue ::
  "ns2 \<Rightarrow> packet \<Rightarrow> hdr_eamrp_request \<Rightarrow> bool \<Rightarrow> eamrp_rt_entry \<times> rev_outcome \<Rightarrow> eamrp \<Rightarrow> fault + eamrp" where
  "rreq_continue E p rq kill res s =
     (let s1 = s\<lparr>rtable := rt_put (fst res) (rtable s)\<rparr> in
      case snd res of
        Rev_drop \<Rightarrow> Inr (emit (Freed p) s1)
      | Rev_path have_reverse \<Rightarrow>
          bindE (flush_buffer E (rq_src rq) s1) (rreq_answer E p rq kill have_reverse))"

definition rreq_process ::
  "ns2 \<Rightarrow> packet \<Rightarrow> hdr_eamrp_request \<Rightarrow> bool \<Rightarrow> eamrp \<Rightarrow> fault + eamrp" where
  "rreq_process E p rq kill s =
     (case rt_lookup (rq_src rq) (rtable s) of
        None \<Rightarrow> Inl Null_deref
      | Some rt0 \<Rightarrow>
          bindE (rreq_reverse E (eamrp_max_paths s) (eamrp_prim_alt_path_len_diff s)
                   (index s) (ih_saddr p) rq rt0)
            (\<lambda>res. rreq_continue E p rq kill res s))"

definition recvRequest :: "ns2 \<Rightarrow> packet \<Rightarrow> hdr_eamrp_request \<Rightarrow> eamrp \<Rightarrow> fault + eamrp" where
  "recvRequest E p rq0 s =
     (if rq_src rq0 = index s then Inr (emit (Freed p) s)
      else
        let kill = id_get (rq_src rq0, rq_bcast_id rq0) (bihead s) \<noteq> None;
            s1 = (if kill then s
                  else s\<lparr>bihead := id_insert (now E) (rq_src rq0) (rq_bcast_id rq0) (bihead s)\<rparr>);
            rq = (if rq_hop_count rq0 = 0 then rq0\<lparr>rq_first_hop := index s\<rparr> else rq0)
        in bindE (ensure_rt E (rq_src rq) s1) (rreq_process E (p\<lparr>hdr := Rreq rq\<rparr>) rq kill))"

section \<open>Route replies\<close>

text \<open>Create or update the forward path; \<open>False\<close> means the reply is dropped.\<close>

definition rrep_forward_path ::
  "ns2 \<Rightarrow> int \<Rightarrow> int \<Rightarrow> hdr_eamrp_reply \<Rightarrow> eamrp_rt_entry \<Rightarrow> fault + eamrp_rt_entry \<times> bool" where
  "rrep_forward_path E max_paths len_diff rp rt =
     (if rt_seqno rt < rp_dst_seqno rp then
        Inr (fresh_path E (rp_dst_seqno rp) (rp_src rp) (rp_hop_count rp) (rp_lifetime rp) (rp_first_hop rp) rt,
             True)
      else if rt_seqno rt = rp_dst_seqno rp
           \<and> uint (rt_advertised_hops rt) > uint (rp_hop_count rp) then
        bindE (assertE Route_up (rt_flags rt = RTF_UP)) (\<lambda>_.
        case disjoint_path_lookup (rp_src rp) (rp_first_hop rp) rt of
          Some path \<Rightarrow>
            bindE (assertE Hopcount_match (uint (hopcount path) = hops_plus1 (rp_hop_count rp))) (\<lambda>_.
              Inr (extend_path E (rp_lifetime rp) path rt, True))
        | None \<Rightarrow>
            if new_disjoint_path (rp_src rp) (rp_first_hop rp) rt
               \<and> rt_num_paths rt < max_paths
               \<and> hops_plus1 (rp_hop_count rp) - uint (path_get_min_hopcount rt) \<le> len_diff
            then Inr (alternate_path E (rp_src rp) (rp_hop_count rp) (rp_lifetime rp) (rp_first_hop rp) rt,
                      True)
            else Inr (rt, False))
      else Inr (rt, False))"

definition put_reply :: "hdr_eamrp_reply \<Rightarrow> packet \<Rightarrow> packet" where
  "put_reply rp p = p\<lparr>hdr := (case hdr p of Hello _ \<Rightarrow> Hello rp | _ \<Rightarrow> Rrep rp)\<rparr>"

text \<open>
  Pass the reply on towards the source of the request, once per request: first the rewritten
  message with the refreshed entries, then the guards.
\<close>

definition rrep_send ::
  "ns2 \<Rightarrow> packet \<Rightarrow> hdr_eamrp_reply \<Rightarrow> EAMRP_Path \<Rightarrow> eamrp_rt_entry \<Rightarrow> eamrp \<Rightarrow> fault + eamrp" where
  "rrep_send E p rp reverse_path rt s =
     (case path_find rt of
        None \<Rightarrow> Inl Null_deref
      | Some fp \<Rightarrow>
          let rp1 = rp\<lparr>rp_src := index s, rp_hop_count := ucast (rt_advertised_hops rt),
                       rp_first_hop := lasthop fp\<rparr>;
              p1 = put_reply rp1 (p\<lparr>ch_addr_type := AF_INET E, ch_next_hop := nexthop reverse_path,
                     ch_xmit_failure := Some Eamrp_rt_failed_callback\<rparr>)
          in bindE (upd_rt (ih_daddr p) (set_head_expire (now E + ACTIVE_ROUTE_TIMEOUT)) s) (\<lambda>s1.
             bindE (upd_rt (rp_dst rp) (\<lambda>r. r\<lparr>rt_error := True\<rparr>) s1)
               (forward E (Some (ih_daddr p)) p1 NO_EAMRP_DELAY)))"

definition rrep_relay :: "ns2 \<Rightarrow> packet \<Rightarrow> hdr_eamrp_reply \<Rightarrow> eamrp \<Rightarrow> fault + eamrp" where
  "rrep_relay E p rp s =
     (let d = ih_daddr p in
      case (rt_lookup d (rtable s), id_get (d, rp_bcast_id rp) (bihead s)) of
        (Some rt0, Some b) \<Rightarrow>
          if rt_flags rt0 \<noteq> RTF_UP \<or> bi_count b \<noteq> 0 then Inr (emit (Freed p) s)
          else
            (case path_find rt0 of
               None \<Rightarrow> Inl Null_deref
             | Some reverse_path \<Rightarrow>
                 bindE (upd_rt (rp_dst rp) (advertise E)
                          (s\<lparr>bihead := id_put (b\<lparr>bi_count := 1\<rparr>) (bihead s)\<rparr>)) (\<lambda>s1.
                 case rt_lookup (rp_dst rp) (rtable s1) of
                   None \<Rightarrow> Inl Null_deref
                 | Some rt \<Rightarrow> rrep_send E p rp reverse_path rt s1))
      | _ \<Rightarrow> Inr (emit (Freed p) s))"

definition rrep_continue ::
  "ns2 \<Rightarrow> packet \<Rightarrow> hdr_eamrp_reply \<Rightarrow> eamrp_rt_entry \<times> bool \<Rightarrow> eamrp \<Rightarrow> fault + eamrp" where
  "rrep_continue E p rp res s =
     (let s1 = s\<lparr>rtable := rt_put (fst res) (rtable s)\<rparr> in
      if \<not> snd res then Inr (emit (Freed p) s1)
      else
        bindE (flush_buffer E (rp_dst rp) s1) (\<lambda>s2.
          if ih_daddr p = index s then Inr (emit (Freed p) s2)
          else rrep_relay E p rp s2))"

definition rrep_process :: "ns2 \<Rightarrow> packet \<Rightarrow> hdr_eamrp_reply \<Rightarrow> eamrp \<Rightarrow> fault + eamrp" where
  "rrep_process E p rp s =
     (case rt_lookup (rp_dst rp) (rtable s) of
        None \<Rightarrow> Inl Null_deref
      | Some rt \<Rightarrow>
          bindE (rrep_forward_path E (eamrp_max_paths s) (eamrp_prim_alt_path_len_diff s) rp rt)
            (\<lambda>res. rrep_continue E p rp res s))"

definition recvReply :: "ns2 \<Rightarrow> packet \<Rightarrow> hdr_eamrp_reply \<Rightarrow> eamrp \<Rightarrow> fault + eamrp" where
  "recvReply E p rp s =
     (if rp_dst rp = index s then Inr (emit (Freed p) s)
      else bindE (ensure_rt E (rp_dst rp) s) (rrep_process E p rp))"

section \<open>Route errors\<close>

definition rerr_entry ::
  "ns2 \<Rightarrow> nsaddr \<Rightarrow> u32 \<Rightarrow> hdr_eamrp_error \<Rightarrow> eamrp_rt_entry
     \<Rightarrow> fault + hdr_eamrp_error \<times> eamrp_rt_entry" where
  "rerr_entry E from sq nre rt =
     (if rt_flags rt = RTF_UP \<and> path_lookup from rt \<noteq> None \<and> rt_seqno rt \<le> sq then
        bindE (assertE Seqno_even (even (rt_seqno rt))) (\<lambda>_.
        let rt1 = path_delete from rt;
            rt2 = rt1\<lparr>rt_highest_seqno_heard := max (rt_highest_seqno_heard rt1) sq\<rparr>
        in bindE (path_empty rt2) (\<lambda>e.
           if e then
             let rt3 = rt_down E (rt2\<lparr>rt_seqno := rt_highest_seqno_heard rt2\<rparr>) in
             (if rt_error rt3
              then bindE (re_push (rt_dst rt3) (rt_seqno rt3) nre)
                     (\<lambda>nre1. Inr (nre1, rt3\<lparr>rt_error := False\<rparr>))
              else Inr (nre, rt3))
           else Inr (nre, rt2)))
      else Inr (nre, rt))"

definition rerr_step ::
  "ns2 \<Rightarrow> nsaddr \<Rightarrow> hdr_eamrp_error \<Rightarrow> nat \<Rightarrow> hdr_eamrp_error \<times> eamrp
     \<Rightarrow> fault + hdr_eamrp_error \<times> eamrp" where
  "rerr_step E from re i = (\<lambda>(nre, s).
     bindE (re_get re i) (\<lambda>(d, sq).
     case rt_lookup d (rtable s) of
       None \<Rightarrow> Inr (nre, s)
     | Some rt \<Rightarrow>
         bindE (rerr_entry E from sq nre rt) (\<lambda>(nre1, rt1).
           Inr (nre1, s\<lparr>rtable := rt_put rt1 (rtable s)\<rparr>))))"

definition recvError :: "ns2 \<Rightarrow> packet \<Rightarrow> hdr_eamrp_error \<Rightarrow> eamrp \<Rightarrow> fault + eamrp" where
  "recvError E p re s =
     bindE (foldE (rerr_step E (ih_saddr p) re) [0..<unat (DestCount re)] (re_empty, s))
       (\<lambda>(nre, s1).
          Inr (emit (Freed p)
            (if DestCount nre > 0 then sendError E nre True s1
             else emit (Freed (packet_alloc\<lparr>hdr := Rerr nre\<rparr>)) s1)))"

section \<open>Hellos\<close>

definition recvHello :: "ns2 \<Rightarrow> packet \<Rightarrow> hdr_eamrp_reply \<Rightarrow> eamrp \<Rightarrow> fault + eamrp" where
  "recvHello E p rp s =
     (let s1 = (case nb_lookup (rp_dst rp) s of
                  None \<Rightarrow> nb_insert E (rp_dst rp) s
                | Some nb \<Rightarrow>
                    s\<lparr>nbhead := nb_put (nb\<lparr>nb_expire :=
                        now E + 15 / 10 * ALLOWED_HELLO_LOSS * HELLO_INTERVAL\<rparr>) (nbhead s)\<rparr>);
          rp1 = rp\<lparr>rp_src := ih_saddr p, rp_first_hop := index s\<rparr>
      in recvReply E (put_reply rp1 (p\<lparr>ih_daddr := index s\<rparr>)) rp1 s1)"

section \<open>Dispatch\<close>

definition recvEAMRP :: "ns2 \<Rightarrow> packet \<Rightarrow> eamrp \<Rightarrow> fault + eamrp" where
  "recvEAMRP E p s =
     bindE (assertE Rt_port (ih_sport p = RT_PORT)) (\<lambda>_.
     bindE (assertE Rt_port (ih_dport p = RT_PORT)) (\<lambda>_.
     case hdr p of
       Rreq rq \<Rightarrow> recvRequest E p rq s
     | Rrep rp \<Rightarrow> recvReply E p rp s
     | Rerr re \<Rightarrow> recvError E p re s
     | Hello rp \<Rightarrow> recvHello E p rp s
     | Raw t \<Rightarrow> Inl (Exit_bad_type t)))"

definition recv_deliver :: "ns2 \<Rightarrow> packet \<Rightarrow> eamrp \<Rightarrow> fault + eamrp" where
  "recv_deliver E p s =
     (if ih_daddr p \<noteq> IP_BROADCAST then rt_resolve E p s
      else forward E None p NO_EAMRP_DELAY s)"

definition recv :: "ns2 \<Rightarrow> packet \<Rightarrow> eamrp \<Rightarrow> fault + eamrp" where
  "recv E p s =
     bindE (assertE Initialized (target s)) (\<lambda>_.
     if ch_ptype p = PT_EAMRP then recvEAMRP E (p\<lparr>ih_ttl := ih_ttl p - 1\<rparr>) s
     else if ih_saddr p = index s \<and> ch_num_forwards p = 0 then
       recv_deliver E
         (let p1 = p\<lparr>ch_size := ch_size p + IP_HDR_LEN E, ch_eamrp_salvage_count := 0\<rparr>
          in if ih_daddr p1 \<noteq> IP_BROADCAST then p1\<lparr>ih_ttl := NETWORK_DIAMETER\<rparr> else p1) s
     else if ih_saddr p = index s then Inr (emit (Dropped p DROP_RTR_ROUTE_LOOP) s)
     else
       let p1 = p\<lparr>ih_ttl := ih_ttl p - 1\<rparr> in
       if ih_ttl p1 = 0 then Inr (emit (Dropped p1 DROP_RTR_TTL) s)
       else recv_deliver E p1 s)"

end
