(* ===== verification/AgentTimers.thy ===== *)
theory AgentTimers
  imports AgentRecv
begin

text \<open>
  The timers of \<^verbatim>\<open>eamrp/eamrp.cc\<close> with the routing table purge, and the Tcl \<^verbatim>\<open>command\<close>.
\<close>

section \<open>Purging the routing table\<close>

definition rt_purge_step :: "ns2 \<Rightarrow> nsaddr \<Rightarrow> time \<times> eamrp \<Rightarrow> fault + time \<times> eamrp" where
  "rt_purge_step E d = (\<lambda>(delay, s).
     case rt_lookup d (rtable s) of
       None \<Rightarrow> Inl Null_deref
     | Some rt \<Rightarrow>
         if rt_flags rt = RTF_UP \<and> rt_expire rt < now E then
           let rt1 = path_purge (now E) rt; s1 = s\<lparr>rtable := rt_put rt1 (rtable s)\<rparr> in
           bindE (path_empty rt1) (\<lambda>e.
           if e then
             bindE (drain_drop E d DROP_RTR_RTEXPIRE s1) (\<lambda>s2.
             bindE (upd_rt d (\<lambda>r.
                 let n = max (rt_seqno r + 1) (rt_highest_seqno_heard r) in
                 rt_down E (r\<lparr>rt_seqno := if even n then n + 1 else n\<rparr>)) s2) (\<lambda>s3.
               Inr (delay, s3)))
           else Inr (delay, s1))
         else if rt_flags rt = RTF_UP then
           bindE (assertE Rt_hops_valid (rt_hops rt \<noteq> INFINITY2)) (\<lambda>_.
             drain_all E d
               (\<lambda>p (dl, t). bindE (forward E (Some d) p dl t) (\<lambda>t1. Inr (dl + ARP_DELAY, t1)))
               delay s)
         else if rq_find d (rqueue s) then
           bindE (sendRequest E d s) (\<lambda>s1. Inr (delay, s1))
         else Inr (delay, s))"

definition rt_purge :: "ns2 \<Rightarrow> eamrp \<Rightarrow> fault + eamrp" where
  "rt_purge E s =
     bindE (foldE (rt_purge_step E) (map rt_dst (rtable s)) (0, s)) (\<lambda>(_, s1). Inr s1)"

section \<open>Timers\<close>

definition FREQUENCY :: time where "FREQUENCY = 1 / 2"

definition broadcast_timer :: "ns2 \<Rightarrow> eamrp \<Rightarrow> eamrp" where
  "broadcast_timer E s =
     emit (Timer_set Btimer BCAST_ID_SAVE) (s\<lparr>bihead := id_purge (now E) (bihead s)\<rparr>)"

definition hello_timer :: "ns2 \<Rightarrow> eamrp \<Rightarrow> fault + eamrp" where
  "hello_timer E s =
     (let s1 = (if rt_has_active_route (rtable s) then sendHello E s else s);
          (u, s2) = uniform E s1;
          interval = MinHelloInterval + (MaxHelloInterval - MinHelloInterval) * u
      in bindE (assertE Interval_nonneg (interval \<ge> 0))
           (\<lambda>_. Inr (emit (Timer_set Htimer interval) s2)))"

definition neighbor_timer :: "ns2 \<Rightarrow> eamrp \<Rightarrow> fault + eamrp" where
  "neighbor_timer E s =
     bindE (nb_purge E s) (\<lambda>s1. Inr (emit (Timer_set Ntimer HELLO_INTERVAL) s1))"

definition route_cache_timer :: "ns2 \<Rightarrow> eamrp \<Rightarrow> fault + eamrp" where
  "route_cache_timer E s =
     bindE (rt_purge E s) (\<lambda>s1. Inr (emit (Timer_set Rtimer FREQUENCY) s1))"

definition local_repair_timer :: "ns2 \<Rightarrow> packet \<Rightarrow> eamrp \<Rightarrow> eamrp" where
  "local_repair_timer E p s =
     emit (Freed p)
       (case rt_lookup (ih_daddr p) (rtable s) of
          None \<Rightarrow> s
        | Some rt \<Rightarrow>
            if rt_flags rt \<noteq> RTF_UP then s\<lparr>rtable := rt_put (rt_down E rt) (rtable s)\<rparr> else s)"

section \<open>The Tcl command\<close>

datatype tcl_result = TCL_OK | TCL_ERROR

text \<open>The Tcl library and the base classes, as the command uses them.\<close>

record tcl =
  atoi :: "string \<Rightarrow> int"
  lookup_object :: "string \<Rightarrow> bool"
  lookup_queue :: "string \<Rightarrow> pri_queue option"
  agent_command :: "string list \<Rightarrow> tcl_result"
  connector_command :: "string list \<Rightarrow> tcl_result"

definition strncasecmp_eq :: "string \<Rightarrow> string \<Rightarrow> nat \<Rightarrow> bool" where
  "strncasecmp_eq a b n \<longleftrightarrow> map to_lower (take n a) = map to_lower (take n b)"

definition command_start :: "ns2 \<Rightarrow> eamrp \<Rightarrow> fault + eamrp" where
  "command_start E s =
     bindE (hello_timer E (broadcast_timer E s)) (\<lambda>s1.
     bindE (neighbor_timer E s1) (route_cache_timer E))"

definition command ::
  "ns2 \<Rightarrow> tcl \<Rightarrow> string list \<Rightarrow> eamrp \<Rightarrow> fault + eamrp \<times> tcl_result" where
  "command E T argv s =
     (case argv of
        [_, a] \<Rightarrow>
          if strncasecmp_eq a ''id'' 2 then Inr (emit (Tcl_result (sint (index s))) s, TCL_OK)
          else if strncasecmp_eq a ''dump-table'' 10 then Inr (emit Table_printed s, TCL_OK)
          else if strncasecmp_eq a ''start'' 2
          then bindE (command_start E s) (\<lambda>s1. Inr (s1, TCL_OK))
          else Inr (s, agent_command T argv)
      | [_, a, b] \<Rightarrow>
          if a = ''index'' then Inr (s\<lparr>index := of_int (atoi T b)\<rparr>, TCL_OK)
          else if a = ''log-target'' \<or> a = ''tracetarget'' then
            Inr (s\<lparr>logtarget := lookup_object T b\<rparr>, if lookup_object T b then TCL_OK else TCL_ERROR)
          else if a = ''drop-target'' then
            (if connector_command T argv \<noteq> TCL_OK then Inr (s, connector_command T argv)
             else Inr (s, agent_command T argv))
          else if a = ''if-queue'' then
            Inr (s\<lparr>ifqueue := lookup_queue T b\<rparr>,
                 if lookup_queue T b = None then TCL_ERROR else TCL_OK)
          else if a = ''port-dmux'' then
            Inr (s\<lparr>dmux := lookup_object T b\<rparr>, if lookup_object T b then TCL_OK else TCL_ERROR)
          else Inr (s, agent_command T argv)
      | _ \<Rightarrow> Inr (s, agent_command T argv))"

end
