(* ===== verification/EntryInv.thy ===== *)
theory EntryInv
  imports AgentTimers
begin

text \<open>
  The invariant of a routing table entry and its preservation by every operation the agent
  applies to entries. It ties the flag, the path list, the sequence numbers' parity and the
  advertised hop count together.
\<close>

section \<open>Assumptions on the surroundings\<close>

text \<open>
  Documented behaviour of ns-2 and of the build: the packet queue is lawful, random numbers
  are not negative, and the value \<^verbatim>\<open>INFINITY\<close> leaves in a \<^verbatim>\<open>u_int16_t\<close> exceeds every hop
  count plus one. The last conjunct excludes one value of an uninitialised member.
\<close>

definition env_ok :: "ns2 \<Rightarrow> bool" where
  "env_ok E \<longleftrightarrow> pq_lawful (pq E) \<and> (\<forall>n. 0 \<le> rnd E n) \<and> 256 \<le> uint (inf16 E)
     \<and> uninit16 E \<noteq> INFINITY2"

section \<open>The invariant of an entry\<close>

definition odd_or_zero :: "u32 \<Rightarrow> bool" where
  "odd_or_zero n \<longleftrightarrow> odd n \<or> n = 0"

text \<open>Sequence number and flag: valid routes are even and not zero, broken ones odd.\<close>

definition seqno_ok :: "eamrp_rt_entry \<Rightarrow> bool" where
  "seqno_ok rt \<longleftrightarrow>
     (if rt_flags rt = RTF_UP then even (rt_seqno rt) \<and> rt_seqno rt \<noteq> 0
      else rt_flags rt = RTF_DOWN \<and> odd_or_zero (rt_seqno rt))
     \<and> odd_or_zero (rt_highest_seqno_heard rt)"

text \<open>Paths: node-disjoint, present exactly when the route is up, within the advertised count.\<close>

definition hops_ok :: "eamrp_rt_entry \<Rightarrow> bool" where
  "hops_ok rt \<longleftrightarrow> (\<forall>p\<in>set (rt_path_list rt).
     1 \<le> uint (hopcount p) \<and> uint (hopcount p) \<le> 256 \<and> hopcount p \<le> rt_advertised_hops rt)"

definition entry_ok :: "int \<Rightarrow> eamrp_rt_entry \<Rightarrow> bool" where
  "entry_ok max_paths rt \<longleftrightarrow>
     paths_ok rt \<and> seqno_ok rt \<and> hops_ok rt
     \<and> (rt_flags rt = RTF_UP \<longleftrightarrow> rt_path_list rt \<noteq> [])
     \<and> int (length (rt_path_list rt)) \<le> max 1 max_paths
     \<and> rt_hops rt \<noteq> INFINITY2 \<and> rt_expire rt = 0 \<and> 1 \<le> rt_last_hop_count rt
     \<and> 0 \<le> rt_req_last_ttl rt \<and> rt_disc_latency rt = replicate MAX_HISTORY 0"

named_theorems entry_defs \<open>the parts of the entry invariant\<close>
declare entry_ok_def [entry_defs] seqno_ok_def [entry_defs] hops_ok_def [entry_defs]

lemma entry_okD:
  assumes "entry_ok m rt"
  shows "paths_ok rt" "rt_hops rt \<noteq> INFINITY2" "rt_expire rt = 0" "1 \<le> rt_last_hop_count rt"
    and "rt_flags rt = RTF_UP \<or> rt_flags rt = RTF_DOWN"
    and "rt_flags rt = RTF_UP \<longleftrightarrow> rt_path_list rt \<noteq> []"
    and "rt_flags rt = RTF_UP \<Longrightarrow> even (rt_seqno rt)"
    and "rt_flags rt = RTF_UP \<Longrightarrow> rt_seqno rt \<noteq> 0"
    and "rt_flags rt \<noteq> RTF_UP \<Longrightarrow> odd_or_zero (rt_seqno rt)"
    and "odd_or_zero (rt_highest_seqno_heard rt)"
    and "rt_disc_latency rt = replicate MAX_HISTORY 0"
  using assms by (auto simp: entry_defs split: if_splits)

lemma odd_or_zero_max: "odd n \<Longrightarrow> odd_or_zero m \<Longrightarrow> odd (max n m)"
  unfolding odd_or_zero_def by (rule max_odd_or_zero)

section \<open>Operations that keep it\<close>

lemma new_entry_ok:
  "g \<noteq> INFINITY2 \<Longrightarrow> entry_ok m ((new_rt_entry g)\<lparr>rt_dst := d\<rparr>)"
  by (simp add: entry_defs new_rt_entry_def paths_ok_def odd_or_zero_def INFINITY2_def)

text \<open>The fields the invariant does not read may change freely.\<close>

lemma entry_ok_frame [simp]:
  "entry_ok m (rt\<lparr>rt_error := e\<rparr>) = entry_ok m rt"
  "entry_ok m (rt\<lparr>rt_req_timeout := t\<rparr>) = entry_ok m rt"
  "entry_ok m (rt\<lparr>rt_req_cnt := c\<rparr>) = entry_ok m rt"
  by (simp_all add: entry_defs paths_ok_def)

lemma entry_ok_ttl:
  "entry_ok m rt \<Longrightarrow> 0 \<le> t \<Longrightarrow> entry_ok m (rt\<lparr>rt_req_last_ttl := t\<rparr>)"
  "entry_ok m rt \<Longrightarrow> entry_ok m (rt\<lparr>rt_expire := 0\<rparr>)"
  by (simp_all add: entry_defs paths_ok_def)

lemma set_head_expire_paths:
  "map nexthop (rt_path_list (set_head_expire t rt)) = map nexthop (rt_path_list rt)"
  "map lasthop (rt_path_list (set_head_expire t rt)) = map lasthop (rt_path_list rt)"
  "map hopcount (rt_path_list (set_head_expire t rt)) = map hopcount (rt_path_list rt)"
  by (simp_all add: set_head_expire_def split: list.splits)

lemma set_head_expire_frame [simp]:
  "rt_flags (set_head_expire t rt) = rt_flags rt" "rt_dst (set_head_expire t rt) = rt_dst rt"
  "rt_seqno (set_head_expire t rt) = rt_seqno rt" "rt_error (set_head_expire t rt) = rt_error rt"
  "rt_path_list (set_head_expire t rt) = [] \<longleftrightarrow> rt_path_list rt = []"
  by (simp_all add: set_head_expire_def split: list.splits)

lemma entry_ok_head_expire [simp]: "entry_ok m (set_head_expire t rt) = entry_ok m rt"
  by (simp add: set_head_expire_def entry_defs paths_ok_def split: list.splits)

lemma reset_soft_state_ok [simp]: "entry_ok m rt \<Longrightarrow> entry_ok m (reset_soft_state rt)"
  by (simp add: reset_soft_state_def entry_defs paths_ok_def)

lemma reset_soft_state_frame [simp]:
  "rt_flags (reset_soft_state rt) = rt_flags rt" "rt_dst (reset_soft_state rt) = rt_dst rt"
  "rt_path_list (reset_soft_state rt) = rt_path_list rt" "rt_seqno (reset_soft_state rt) = rt_seqno rt"
  by (simp_all add: reset_soft_state_def)

lemma advertise_frame [simp]:
  "rt_flags (advertise E rt) = rt_flags rt" "rt_dst (advertise E rt) = rt_dst rt"
  "rt_path_list (advertise E rt) = rt_path_list rt" "rt_seqno (advertise E rt) = rt_seqno rt"
  by (simp_all add: advertise_def)

lemma path_find_advertise [simp]: "path_find (advertise E rt) = path_find rt"
  by (simp add: path_find_def)

lemma advertise_ok [simp]: "entry_ok m rt \<Longrightarrow> entry_ok m (advertise E rt)"
  using path_get_max_hopcount_ge [of _ rt]
  by (auto simp: advertise_def entry_defs paths_ok_def)

lemma rt_down_frame [simp]:
  "rt_dst (rt_down E rt) = rt_dst rt" "rt_seqno (rt_down E rt) = rt_seqno rt"
  "rt_error (rt_down E rt) = rt_error rt" "rt_flags (rt_down E rt) = RTF_DOWN"
  by (simp_all add: rt_down_def path_delete_all_def)

lemma rt_down_ok:
  assumes "entry_ok m rt" and "odd_or_zero n"
  shows "entry_ok m (rt_down E (rt\<lparr>rt_seqno := n\<rparr>))"
  using assms by (auto simp: rt_down_def entry_defs paths_ok_def path_delete_all_def split: if_splits)

lemma path_delete_ok:
  assumes ok: "entry_ok m rt" and ne: "rt_path_list (path_delete a rt) \<noteq> []"
  shows "entry_ok m (path_delete a rt)"
proof -
  have "length (rt_path_list (path_delete a rt)) \<le> length (rt_path_list rt)"
    by (simp add: path_delete_paths length_remove_first)
  moreover have "rt_path_list rt \<noteq> []" using ne by (auto simp: path_delete_paths)
  ultimately show ?thesis using ok ne paths_ok_delete [of rt a]
    by (auto simp: entry_defs dest: in_path_delete)
qed

lemma entry_ok_heard: "entry_ok m rt \<Longrightarrow> odd_or_zero n \<Longrightarrow> entry_ok m (rt\<lparr>rt_highest_seqno_heard := n\<rparr>)"
  by (simp add: entry_defs paths_ok_def)

text \<open>An entry that just lost its last path is acceptable again once it is taken down.\<close>

lemma path_delete_all_down_ok:
  assumes ok: "entry_ok m rt" and up: "rt_flags rt = RTF_UP"
    and n: "odd_or_zero n" and h: "odd_or_zero h"
  shows "entry_ok m (rt_down E ((path_delete a rt)\<lparr>rt_highest_seqno_heard := h, rt_seqno := n, rt_error := e\<rparr>))"
  using assms by (auto simp: rt_down_def entry_defs paths_ok_def path_delete_all_def)

lemma path_delete_down_ok:
  assumes "entry_ok m rt" and "rt_flags rt = RTF_UP" and "odd_or_zero n"
  shows "entry_ok m (rt_down E ((path_delete a rt)\<lparr>rt_seqno := n\<rparr>))"
    and "entry_ok m (rt_down E ((path_delete a rt)\<lparr>rt_seqno := n, rt_error := e\<rparr>))"
  using assms by (auto simp: rt_down_def entry_defs paths_ok_def path_delete_all_def)

section \<open>Adding and refreshing paths\<close>

lemma hops_plus1_bounds: "1 \<le> hops_plus1 h" "hops_plus1 h \<le> 256"
  using uint_lt2p [of h] by (simp_all add: hops_plus1_def)

lemma uint_of_hops_plus1 [simp]: "uint (of_int (hops_plus1 h) :: u16) = hops_plus1 h"
  using hops_plus1_bounds [of h] by (simp add: uint_word_of_int take_bit_int_eq_self)

lemma fresh_path_ok:
  assumes "env_ok E" and "entry_ok m rt" and "even sq" and "sq \<noteq> 0"
  shows "entry_ok m (fresh_path E sq nh h lt lh rt)"
proof -
  have "hops_plus1 h \<le> uint (inf16 E)"
    using assms(1) hops_plus1_bounds [of h] by (simp add: env_ok_def)
  then show ?thesis
    using assms hops_plus1_bounds [of h] path_get_max_hopcount_uint
    by (auto simp: fresh_path_def Let_def entry_defs paths_ok_def path_delete_all_def path_insert_def
        word_le_def new_path_def)
qed

lemma fresh_path_frame [simp]:
  "rt_dst (fresh_path E sq nh h lt lh rt) = rt_dst rt"
  "rt_flags (fresh_path E sq nh h lt lh rt) = RTF_UP"
  by (simp_all add: fresh_path_def Let_def path_delete_all_def path_insert_def)

lemma alternate_path_ok:
  assumes ok: "entry_ok m rt" and up: "rt_flags rt = RTF_UP" and dis: "new_disjoint_path nh lh rt"
    and num: "rt_num_paths rt < m" and adv: "uint (rt_advertised_hops rt) > uint h"
  shows "entry_ok m (alternate_path E nh h lt lh rt)"
proof -
  let ?r = "path_insert nh (of_int (hops_plus1 h)) (now E + lt) lh (now E) rt"
  have "paths_ok ?r" using paths_ok_insert entry_okD(1) [OF ok] dis by blast
  moreover have "hops_plus1 h \<le> uint (rt_advertised_hops rt)" using adv by (simp add: hops_plus1_def)
  ultimately show ?thesis
    using ok up num hops_plus1_bounds [of h] entry_okD(1) [OF ok] path_get_max_hopcount_uint
    by (auto simp: alternate_path_def Let_def entry_defs paths_ok_def path_insert_def word_le_def
        new_path_def)
qed

lemma alternate_path_frame [simp]:
  "rt_dst (alternate_path E nh h lt lh rt) = rt_dst rt"
  "rt_flags (alternate_path E nh h lt lh rt) = rt_flags rt"
  by (simp_all add: alternate_path_def Let_def path_insert_def)

lemma in_path_put_hops:
  assumes "q \<in> set (path_put_list p ps)" and "p' \<in> set ps" and "hopcount p = hopcount p'"
  shows "\<exists>q'\<in>set ps. hopcount q = hopcount q'"
  using assms pends.in_put [of q p ps] by auto

lemma extend_path_ok:
  assumes ok: "entry_ok m rt" and p: "disjoint_path_lookup nh lh rt = Some path"
  shows "entry_ok m (extend_path E lt path rt)"
proof -
  let ?p = "path\<lparr>path_expire := max (path_expire path) (now E + lt)\<rparr>"
  have m: "path \<in> set (rt_path_list rt)" using disjoint_lookup_SomeD [OF p] by simp
  have "\<exists>q'\<in>set (rt_path_list rt). hopcount q = hopcount q'"
    if "q \<in> set (path_put_list ?p (rt_path_list rt))" for q
    using in_path_put_hops [OF that m] by simp
  then have "hops_ok (extend_path E lt path rt)"
    using ok unfolding extend_path_def path_put_def hops_ok_def entry_ok_def
    by (auto; metis)
  moreover have "paths_ok (extend_path E lt path rt)"
    using entry_okD(1) [OF ok] by (simp add: extend_path_def paths_ok_put)
  ultimately show ?thesis
    using ok pends.put_length [of ?p "rt_path_list rt"]
    by (simp add: entry_ok_def seqno_ok_def extend_path_def path_put_def)
qed

lemma extend_path_frame [simp]:
  "rt_dst (extend_path E lt path rt) = rt_dst rt"
  "rt_flags (extend_path E lt path rt) = rt_flags rt"
  by (simp_all add: extend_path_def path_put_def)

section \<open>The two path updates\<close>

text \<open>
  The only fault a request or reply with a valid sequence number can raise is the hop count
  comparison; an equal sequence number on a broken route is impossible by parity.
\<close>

lemma even_not_odd_or_zero: "even n \<Longrightarrow> n \<noteq> 0 \<Longrightarrow> odd_or_zero n \<Longrightarrow> False"
  by (simp add: odd_or_zero_def)

lemma equal_seqno_up:
  "entry_ok m rt \<Longrightarrow> even (rt_seqno rt) \<Longrightarrow> rt_seqno rt \<noteq> 0 \<Longrightarrow> rt_flags rt = RTF_UP"
  using entry_okD(9) even_not_odd_or_zero by blast

lemma rreq_reverse_ok:
  assumes E: "env_ok E" and ok: "entry_ok m rt0" and sq: "even (rq_src_seqno rq)" "rq_src_seqno rq \<noteq> 0"
  shows "safe {Assert_failed Hopcount_match}
    (\<lambda>(rt1, r). entry_ok m rt1 \<and> rt_dst rt1 = rt_dst rt0 \<and> (r \<noteq> Rev_drop \<longrightarrow> rt_flags rt1 = RTF_UP))
    (rreq_reverse E m df me from rq rt0)"
proof (cases "rt_seqno rt0 < rq_src_seqno rq")
  case True
  then show ?thesis using fresh_path_ok [OF E ok sq] by (simp add: rreq_reverse_def)
next
  case False
  show ?thesis
  proof (cases "rt_seqno rt0 = rq_src_seqno rq \<and> uint (rq_hop_count rq) < uint (rt_advertised_hops rt0)")
    case eq: True
    then have up: "rt_flags rt0 = RTF_UP" using equal_seqno_up [OF ok] sq by simp
    show ?thesis
    proof (cases "disjoint_path_lookup from (rq_first_hop rq) rt0")
      case (Some path)
      with False eq up extend_path_ok [OF ok Some] show ?thesis
        by (simp add: rreq_reverse_def)
    next
      case None
      with False eq up ok alternate_path_ok [OF ok up] show ?thesis
        by (auto simp: rreq_reverse_def Let_def safe_if split: option.splits)
    qed
  next
    case neq: False
    with False ok show ?thesis by (auto simp: rreq_reverse_def)
  qed
qed

lemma rrep_forward_path_ok:
  assumes E: "env_ok E" and ok: "entry_ok m rt" and sq: "even (rp_dst_seqno rp)" "rp_dst_seqno rp \<noteq> 0"
  shows "safe {Assert_failed Hopcount_match}
    (\<lambda>(rt1, a). entry_ok m rt1 \<and> rt_dst rt1 = rt_dst rt \<and> (a \<longrightarrow> rt_flags rt1 = RTF_UP))
    (rrep_forward_path E m df rp rt)"
proof (cases "rt_seqno rt < rp_dst_seqno rp")
  case True
  then show ?thesis using fresh_path_ok [OF E ok sq] by (simp add: rrep_forward_path_def)
next
  case False
  show ?thesis
  proof (cases "rt_seqno rt = rp_dst_seqno rp \<and> uint (rp_hop_count rp) < uint (rt_advertised_hops rt)")
    case eq: True
    then have up: "rt_flags rt = RTF_UP" using equal_seqno_up [OF ok] sq by simp
    show ?thesis
    proof (cases "disjoint_path_lookup (rp_src rp) (rp_first_hop rp) rt")
      case (Some path)
      with False eq up extend_path_ok [OF ok Some] show ?thesis
        by (simp add: rrep_forward_path_def)
    next
      case None
      with False eq up ok alternate_path_ok [OF ok up] show ?thesis
        by (auto simp: rrep_forward_path_def safe_if)
    qed
  next
    case neq: False
    with False ok show ?thesis by (auto simp: rrep_forward_path_def)
  qed
qed

text \<open>
  The hop count assertion fails only if a path through the sender, stored with the number of the
  message, has another length than the message says.
\<close>

definition wrong_length :: "nsaddr \<Rightarrow> u32 \<Rightarrow> u8 \<Rightarrow> eamrp_rt_entry \<Rightarrow> bool" where
  "wrong_length x n h rt \<longleftrightarrow> rt_seqno rt = n
     \<and> (\<exists>p\<in>set (rt_path_list rt). nexthop p = x \<and> uint (hopcount p) \<noteq> uint h + 1)"

lemma rreq_reverse_hop:
  "rreq_reverse E m df me x rq rt0 = Inl (Assert_failed Hopcount_match) \<Longrightarrow>
     wrong_length x (rq_src_seqno rq) (rq_hop_count rq) rt0"
  using disjoint_lookup_SomeD [of x "rq_first_hop rq" rt0]
  by (auto simp: rreq_reverse_def wrong_length_def hops_plus1_def assertE_def Let_def split: option.splits if_splits)

lemma rrep_forward_path_hop:
  "rrep_forward_path E m df rp rt = Inl (Assert_failed Hopcount_match) \<Longrightarrow>
     wrong_length (rp_src rp) (rp_dst_seqno rp) (rp_hop_count rp) rt"
  using disjoint_lookup_SomeD [of "rp_src rp" "rp_first_hop rp" rt]
  by (auto simp: rrep_forward_path_def wrong_length_def hops_plus1_def assertE_def split: option.splits if_splits)

end
