(* ===== verification/NodeInv.thy ===== *)
theory NodeInv
  imports EntryInv
begin

text \<open>
  The invariant of a node and its preservation by the operations of \<^theory_text>\<open>Agent\<close>: keys are
  unique, every route entry is well formed, the own sequence number is even, and every
  message the node has sent is well formed. Each lemma states at the same time that the
  operation ends without a fault, up to the faults named in it.
\<close>

section \<open>Well-formed messages\<close>

definition re_ok :: "hdr_eamrp_error \<Rightarrow> bool" where
  "re_ok re \<longleftrightarrow> unat (DestCount re) \<le> EAMRP_MAX_ERRORS
     \<and> length (unreachable_dst re) = EAMRP_MAX_ERRORS
     \<and> length (unreachable_dst_seqno re) = EAMRP_MAX_ERRORS
     \<and> (\<forall>i < unat (DestCount re). odd_or_zero (unreachable_dst_seqno re ! i))"

text \<open>
  Requests carry an even source sequence number, replies and hellos an even destination
  sequence number, errors odd ones (or zero); no message claims to come from the broadcast
  address.
\<close>

definition msg_wf :: "packet \<Rightarrow> bool" where
  "msg_wf p \<longleftrightarrow> (ch_ptype p = PT_EAMRP \<longrightarrow>
     ih_sport p = RT_PORT \<and> ih_dport p = RT_PORT \<and>
     (case hdr p of
        Rreq rq \<Rightarrow> even (rq_src_seqno rq) \<and> rq_src rq \<noteq> IP_BROADCAST \<and> rq_dst rq \<noteq> IP_BROADCAST
                   \<and> ih_daddr p = IP_BROADCAST
      | Rrep rp \<Rightarrow> even (rp_dst_seqno rp) \<and> rp_dst rp \<noteq> IP_BROADCAST \<and> ih_daddr p \<noteq> IP_BROADCAST
      | Hello rp \<Rightarrow> even (rp_dst_seqno rp) \<and> rp_dst rp \<noteq> IP_BROADCAST
      | Rerr re \<Rightarrow> re_ok re
      | Raw t \<Rightarrow> False))"

text \<open>The sequence number of a message is live: it is not the zero of a wrapped counter.\<close>

definition msg_live :: "packet \<Rightarrow> bool" where
  "msg_live p \<longleftrightarrow> (ch_ptype p = PT_EAMRP \<longrightarrow>
     (case hdr p of
        Rreq rq \<Rightarrow> rq_src_seqno rq \<noteq> 0
      | Rrep rp \<Rightarrow> rp_dst_seqno rp \<noteq> 0
      | Hello rp \<Rightarrow> rp_dst_seqno rp \<noteq> 0
      | _ \<Rightarrow> True))"

fun event_ok :: "event \<Rightarrow> bool" where
  "event_ok (Scheduled p t) = (msg_wf p \<and> 0 \<le> t)"
| "event_ok (Timer_set tm t) = (0 \<le> t)"
| "event_ok _ = True"

section \<open>The invariant of a node\<close>

definition table_ok :: "int \<Rightarrow> eamrp_rt_entry list \<Rightarrow> bool" where
  "table_ok m t \<longleftrightarrow> distinct (map rt_dst t) \<and> (\<forall>rt\<in>set t. entry_ok m rt \<and> rt_dst rt \<noteq> IP_BROADCAST)"

definition buffer_ok :: "eamrp_rqueue \<Rightarrow> bool" where
  "buffer_ok q \<longleftrightarrow> (\<forall>p\<in>set (rq_pkts q). ih_daddr p \<noteq> IP_BROADCAST \<and> ch_ptype p \<noteq> PT_EAMRP)
     \<and> rq_limit q = EAMRP_RTQ_MAX_LEN \<and> rq_timeout q = EAMRP_RTQ_TIMEOUT \<and> rq_len q \<le> rq_limit q"

definition node_inv :: "eamrp \<Rightarrow> bool" where
  "node_inv s \<longleftrightarrow>
     even (seqno s) \<and> index s \<noteq> IP_BROADCAST \<and> table_ok (eamrp_max_paths s) (rtable s)
     \<and> buffer_ok (rqueue s)
     \<and> distinct (map nb_addr (nbhead s)) \<and> distinct (map (\<lambda>b. (bi_src b, bi_id b)) (bihead s))
     \<and> dmux s \<and> target s \<and> ifqueue s \<noteq> None \<and> (\<forall>e\<in>set (out s). event_ok e)"

lemma node_invD:
  assumes "node_inv s"
  shows "even (seqno s)" "index s \<noteq> IP_BROADCAST" "table_ok (eamrp_max_paths s) (rtable s)"
    "buffer_ok (rqueue s)" "distinct (map nb_addr (nbhead s))"
    "distinct (map (\<lambda>b. (bi_src b, bi_id b)) (bihead s))" "dmux s" "target s"
    "ifqueue s \<noteq> None" "\<forall>e\<in>set (out s). event_ok e"
  using assms by (simp_all add: node_inv_def)

lemma table_entry:
  assumes "table_ok m t" and "rt_lookup d t = Some rt"
  shows "entry_ok m rt" "rt_dst rt = d" "d \<noteq> IP_BROADCAST"
  using assms rtl.lookup_in [OF assms(2)] rtl.lookup_key [OF assms(2)] by (auto simp: table_ok_def)

lemma table_put:
  assumes "table_ok m t" and "entry_ok m rt" and "rt_dst rt \<noteq> IP_BROADCAST"
  shows "table_ok m (rt_put rt t)"
  using assms rtl.put_all [of t "\<lambda>rt. entry_ok m rt \<and> rt_dst rt \<noteq> IP_BROADCAST" rt]
  by (auto simp: table_ok_def)

text \<open>Single-field updates.\<close>

lemma node_inv_emit [simp]: "node_inv (emit e s) \<longleftrightarrow> node_inv s \<and> event_ok e"
  by (auto simp: node_inv_def emit_def)

lemma node_inv_rtable:
  "node_inv s \<Longrightarrow> table_ok (eamrp_max_paths s) t \<Longrightarrow> node_inv (s\<lparr>rtable := t\<rparr>)"
  by (simp add: node_inv_def)

lemma node_inv_rqueue: "node_inv s \<Longrightarrow> buffer_ok q \<Longrightarrow> node_inv (s\<lparr>rqueue := q\<rparr>)"
  by (simp add: node_inv_def)

lemma node_inv_draws [simp]: "node_inv (s\<lparr>draws := n\<rparr>) = node_inv s"
  by (simp add: node_inv_def)

lemma node_inv_put:
  assumes "node_inv s" and "entry_ok (eamrp_max_paths s) rt" and "rt_lookup (rt_dst rt) (rtable s) \<noteq> None"
  shows "node_inv (s\<lparr>rtable := rt_put rt (rtable s)\<rparr>)"
proof -
  obtain r where r: "rt_lookup (rt_dst rt) (rtable s) = Some r" using assms(3) by blast
  note t = node_invD(3) [OF assms(1)]
  show ?thesis using assms table_entry(3) [OF t r] by (intro node_inv_rtable table_put t) auto
qed

section \<open>Frames\<close>

text \<open>
  \<open>stable s s'\<close>: the node's identity and parameters are the same, its buffer and caches
  are untouched, and every route that was up still is.
\<close>

definition same_config :: "eamrp \<Rightarrow> eamrp \<Rightarrow> bool" where
  "same_config s s' \<longleftrightarrow> index s' = index s \<and> eamrp_max_paths s' = eamrp_max_paths s
     \<and> eamrp_prim_alt_path_len_diff s' = eamrp_prim_alt_path_len_diff s
     \<and> here_addr s' = here_addr s"

definition same_routes :: "eamrp \<Rightarrow> eamrp \<Rightarrow> bool" where
  "same_routes s s' \<longleftrightarrow> map rt_dst (rtable s') = map rt_dst (rtable s)
     \<and> map rt_flags (rtable s') = map rt_flags (rtable s)"

definition stable :: "eamrp \<Rightarrow> eamrp \<Rightarrow> bool" where
  "stable s s' \<longleftrightarrow> same_config s s' \<and> same_routes s s' \<and> seqno s' = seqno s
     \<and> bihead s' = bihead s \<and> nbhead s' = nbhead s \<and> ifqueue s' = ifqueue s"

lemma stable_refl [simp]: "stable s s"
  by (simp add: stable_def same_config_def same_routes_def)

lemma stable_trans: "stable s t \<Longrightarrow> stable t u \<Longrightarrow> stable s u"
  by (simp add: stable_def same_config_def same_routes_def)

lemma stable_emit [simp]: "stable s (emit e t) = stable s t"
  by (simp add: stable_def same_config_def same_routes_def emit_def)

lemma emit_sel [simp]:
  "rtable (emit e s) = rtable s" "rqueue (emit e s) = rqueue s" "seqno (emit e s) = seqno s"
  "bihead (emit e s) = bihead s" "nbhead (emit e s) = nbhead s" "index (emit e s) = index s"
  "ifqueue (emit e s) = ifqueue s" "eamrp_max_paths (emit e s) = eamrp_max_paths s"
  "here_addr (emit e s) = here_addr s" "dmux (emit e s) = dmux s" "target (emit e s) = target s"
  "eamrp_prim_alt_path_len_diff (emit e s) = eamrp_prim_alt_path_len_diff s"
  "bid (emit e s) = bid s" "draws (emit e s) = draws s" "out (emit e s) = out s @ [e]"
  by (simp_all add: emit_def)

lemma uniform_simp [simp]: "uniform E s = (rnd E (draws s), s\<lparr>draws := Suc (draws s)\<rparr>)"
  by (simp add: uniform_def)

lemma rt_put_map:
  assumes "rt_lookup (rt_dst rt) t = Some r" and "f rt = f r"
  shows "map f (rt_put rt t) = map f t"
  using assms by (induction t) (auto split: if_splits)

lemma rt_put_dst [simp]: "map rt_dst (rt_put rt t) = map rt_dst t"
  by simp

lemma same_routes_lookup:
  assumes "map rt_dst t' = map rt_dst t" and "map rt_flags t' = map rt_flags t"
    and "rt_lookup d t = Some rt"
  shows "\<exists>rt'. rt_lookup d t' = Some rt' \<and> rt_flags rt' = rt_flags rt"
  using assms
proof (induction t arbitrary: t')
  case (Cons r t)
  then obtain r' u where "t' = r' # u" by (cases t') auto
  with Cons show ?case by (auto split: if_splits)
qed simp

lemma stable_lookup:
  "stable s s' \<Longrightarrow> rt_lookup d (rtable s) = Some rt \<Longrightarrow>
     \<exists>rt'. rt_lookup d (rtable s') = Some rt' \<and> rt_flags rt' = rt_flags rt"
  by (rule same_routes_lookup) (simp_all add: stable_def same_routes_def)

lemma same_config_frame [simp]:
  "same_config s s" "same_config s (emit e t) = same_config s t"
  "same_config s (t\<lparr>rtable := x\<rparr>) = same_config s t" "same_config s (t\<lparr>rqueue := q\<rparr>) = same_config s t"
  "same_config s (t\<lparr>seqno := n\<rparr>) = same_config s t" "same_config s (t\<lparr>bid := i\<rparr>) = same_config s t"
  "same_config s (t\<lparr>bihead := b\<rparr>) = same_config s t" "same_config s (t\<lparr>nbhead := h\<rparr>) = same_config s t"
  "same_config s (t\<lparr>ifqueue := f\<rparr>) = same_config s t" "same_config s (t\<lparr>draws := d\<rparr>) = same_config s t"
  by (simp_all add: same_config_def emit_def)

lemma same_config_frame_left [simp]:
  "same_config (s\<lparr>rtable := x\<rparr>) t = same_config s t" "same_config (s\<lparr>rqueue := q\<rparr>) t = same_config s t"
  "same_config (s\<lparr>seqno := n\<rparr>) t = same_config s t" "same_config (s\<lparr>bihead := b\<rparr>) t = same_config s t"
  "same_config (s\<lparr>nbhead := h\<rparr>) t = same_config s t" "same_config (s\<lparr>ifqueue := f\<rparr>) t = same_config s t"
  by (simp_all add: same_config_def)

lemma same_config_trans: "same_config s t \<Longrightarrow> same_config t u \<Longrightarrow> same_config s u"
  by (simp add: same_config_def)

lemma same_configD:
  assumes "same_config s s'"
  shows "index s' = index s" "eamrp_max_paths s' = eamrp_max_paths s" "here_addr s' = here_addr s"
    "eamrp_prim_alt_path_len_diff s' = eamrp_prim_alt_path_len_diff s"
  using assms by (simp_all add: same_config_def)

lemma stable_config: "stable s s' \<Longrightarrow> same_config s s'"
  by (simp add: stable_def)

lemma stable_put:
  "rt_lookup (rt_dst rt) (rtable s) = Some r \<Longrightarrow> rt_flags rt = rt_flags r \<Longrightarrow>
     stable s (s\<lparr>rtable := rt_put rt (rtable s)\<rparr>)"
  by (simp add: stable_def same_config_def same_routes_def rt_put_map)

lemma stable_rqueue [simp]: "stable s (t\<lparr>rqueue := q\<rparr>) = stable s t" "stable (t\<lparr>rqueue := q\<rparr>) s = stable t s"
  by (simp_all add: stable_def same_config_def same_routes_def)

lemma stable_draws [simp]: "stable s (t\<lparr>draws := n\<rparr>) = stable s t"
  by (simp add: stable_def same_config_def same_routes_def)

section \<open>Forwarding\<close>

lemma msg_wf_frame [simp]:
  "msg_wf (p\<lparr>ch_next_hop := a\<rparr>) = msg_wf p" "msg_wf (p\<lparr>ch_addr_type := i\<rparr>) = msg_wf p"
  "msg_wf (p\<lparr>ch_direction := dir\<rparr>) = msg_wf p" "msg_wf (p\<lparr>ch_xmit_failure := x\<rparr>) = msg_wf p"
  "msg_wf (p\<lparr>ch_eamrp_salvage_count := c\<rparr>) = msg_wf p" "msg_wf (p\<lparr>ih_ttl := t\<rparr>) = msg_wf p"
  by (simp_all add: msg_wf_def split: hdr_all_eamrp.splits)

lemma msg_wf_data: "ch_ptype p \<noteq> PT_EAMRP \<Longrightarrow> msg_wf p"
  by (simp add: msg_wf_def)

lemma forward_route_ok:
  assumes inv: "node_inv s" and rt: "rt_lookup d (rtable s) = Some rt" "rt_flags rt = RTF_UP"
    and p: "msg_wf p" "ih_daddr p \<noteq> IP_BROADCAST"
  shows "safe {} (\<lambda>s'. node_inv s' \<and> stable s s' \<and> rqueue s' = rqueue s) (forward E (Some d) p delay s)"
proof -
  note e = table_entry [OF node_invD(3) [OF inv] rt(1)]
  obtain path where path: "path_find rt = Some path"
    using entry_okD(6) [OF e(1)] rt(2) by (cases "path_find rt") auto
  let ?rt1 = "set_head_expire (now E + ACTIVE_ROUTE_TIMEOUT) rt"
  have "node_inv (s\<lparr>rtable := rt_put r (rtable s)\<rparr>) \<and> stable s (s\<lparr>rtable := rt_put r (rtable s)\<rparr>)"
    if "r = ?rt1 \<or> r = ?rt1\<lparr>rt_error := True\<rparr>" for r
    using that e inv rt by (auto intro!: node_inv_put stable_put [of _ _ rt])
  then show ?thesis
    using inv rt p path node_invD(7) [OF inv]
    by (auto simp: forward_def safe_if Let_def assertE_def)
qed

lemma forward_broadcast_ok:
  assumes "node_inv s" and "msg_wf p" and "ih_daddr p = IP_BROADCAST" and "env_ok E"
  shows "safe {} (\<lambda>s'. node_inv s' \<and> stable s s' \<and> rqueue s' = rqueue s) (forward E None p delay s)"
  using assms node_invD(7) [OF assms(1)]
  by (auto simp: forward_def safe_if assertE_def env_ok_def)

section \<open>The send buffer\<close>

lemma buffer_ok_deque:
  assumes ok: "buffer_ok q" and r: "rq_deque_dst clock d q = (r, q')"
  shows "buffer_ok q'" and "\<And>p. r = Some p \<Longrightarrow> p \<in> set (rq_pkts q) \<and> ih_daddr p = d"
proof -
  have sub: "set (rq_pkts q') \<subseteq> set (rq_pkts q) \<and> (\<forall>p. r = Some p \<longrightarrow> p \<in> set (rq_pkts q) \<and> ih_daddr p = d)"
  proof (cases r)
    case None
    with r sb.deq_None [of clock d q q'] show ?thesis by auto
  next
    case (Some p)
    with r obtain as bs where s: "filter (\<lambda>p. \<not> rq_aged clock p) (rq_pkts q) = as @ p # bs"
      "rq_pkts q' = as @ bs" "ih_daddr p = d" using sb.deq_Some [of clock d q p q'] by auto
    have "set (as @ p # bs) \<subseteq> set (rq_pkts q)" unfolding s(1) [symmetric] by auto
    with s Some show ?thesis by auto
  qed
  show "buffer_ok q'"
    using ok sub rq_deque_dst_frame [OF r] rq_deque_dst_len [OF r] by (auto simp: buffer_ok_def)
  show "\<And>p. r = Some p \<Longrightarrow> p \<in> set (rq_pkts q) \<and> ih_daddr p = d" using sub by blast
qed

text \<open>
  The loop rule: a body that keeps an invariant and the buffer, run over the packets for a
  destination, keeps the invariant; the fuel is never exhausted.
\<close>

lemma drain_ok:
  assumes buf: "\<And>a t. I (a, t) \<Longrightarrow> buffer_ok (rqueue t)"
    and set: "\<And>a t q. I (a, t) \<Longrightarrow> buffer_ok q \<Longrightarrow> I (a, t\<lparr>rqueue := q\<rparr>)"
    and act: "\<And>p a t. I (a, t) \<Longrightarrow> ih_daddr p = d \<Longrightarrow> ih_daddr p \<noteq> IP_BROADCAST \<Longrightarrow>
        ch_ptype p \<noteq> PT_EAMRP \<Longrightarrow> safe F (\<lambda>x. I x \<and> rqueue (snd x) = rqueue t) (act p (a, t))"
    and start: "I (a, s)" and fuel: "length (rq_pkts (rqueue s)) \<le> n"
  shows "safe F I (drain n clock d act (a, s))"
  using start fuel
proof (induction n arbitrary: a s)
  case 0
  obtain r q where r: "rq_deque_dst clock d (rqueue s) = (r, q)" by (cases "rq_deque_dst clock d (rqueue s)")
  have "r = None" using buffer_ok_deque(2) [OF buf [OF 0(1)] r] 0(2) by (cases r) auto
  with r 0(1) set buffer_ok_deque(1) [OF buf [OF 0(1)] r] show ?case
    by (subst drain.simps) simp
next
  case (Suc n)
  obtain r q where r: "rq_deque_dst clock d (rqueue s) = (r, q)" by (cases "rq_deque_dst clock d (rqueue s)")
  note q = buffer_ok_deque [OF buf [OF Suc.prems(1)] r]
  have I: "I (a, s\<lparr>rqueue := q\<rparr>)" using set [OF Suc.prems(1) q(1)] .
  show ?case
  proof (cases r)
    case None
    with r I show ?thesis by (subst drain.simps) simp
  next
    case (Some p)
    have p: "ih_daddr p = d" "ih_daddr p \<noteq> IP_BROADCAST" "ch_ptype p \<noteq> PT_EAMRP"
      using q(2) [OF Some] buf [OF Suc.prems(1)] by (auto simp: buffer_ok_def)
    have "length (rq_pkts q) \<le> n" using sb.deq_shrinks r Some Suc.prems(2) by fastforce
    then have "safe F (\<lambda>x. safe F I (drain n clock d act x)) (act p (a, s\<lparr>rqueue := q\<rparr>))"
      using act [OF I p] Suc.IH by (auto elim!: safe_mono)
    with r Some show ?thesis by (subst drain.simps) simp
  qed
qed

lemma drain_all_ok:
  assumes "\<And>a t. I (a, t) \<Longrightarrow> buffer_ok (rqueue t)"
    and "\<And>a t q. I (a, t) \<Longrightarrow> buffer_ok q \<Longrightarrow> I (a, t\<lparr>rqueue := q\<rparr>)"
    and "\<And>p a t. I (a, t) \<Longrightarrow> ih_daddr p = d \<Longrightarrow> ih_daddr p \<noteq> IP_BROADCAST \<Longrightarrow>
        ch_ptype p \<noteq> PT_EAMRP \<Longrightarrow> safe F (\<lambda>x. I x \<and> rqueue (snd x) = rqueue t) (act p (a, t))"
    and "I (a, s)"
  shows "safe F I (drain_all E d act a s)"
  unfolding drain_all_def using assms by (intro drain_ok) auto

lemma drain_drop_ok:
  assumes inv: "node_inv s"
  shows "safe {} (\<lambda>s'. node_inv s' \<and> stable s s' \<and> rtable s' = rtable s) (drain_drop E d why s)"
proof -
  have "safe {} (\<lambda>(u, t). node_inv t \<and> stable s t \<and> rtable t = rtable s)
    (drain_all E d (\<lambda>p (u, t). Inr (u, emit (Dropped p why) t)) () s)"
    using inv by (intro drain_all_ok) (auto dest: node_invD(4) intro: node_inv_rqueue)
  then show ?thesis unfolding drain_drop_def by (auto elim!: safe_mono)
qed

lemma buffer_ok_enque:
  assumes ok: "buffer_ok q" and p: "ih_daddr p \<noteq> IP_BROADCAST" "ch_ptype p \<noteq> PT_EAMRP"
  shows "safe {} (\<lambda>(q', drops). buffer_ok q') (rq_enque clock p q)"
proof -
  let ?q1 = "rq_purge clock q"
  have "rq_len ?q1 \<le> rq_len q" by (simp add: rq_purge_filter rq_len_def)
  also have "\<dots> \<le> rq_limit q" using ok by (simp add: buffer_ok_def)
  finally have len: "rq_len ?q1 \<le> rq_limit q" .
  have sub: "set (rq_pkts ?q1) \<subseteq> set (rq_pkts q)" by (auto simp: rq_purge_filter)
  show ?thesis
  proof (cases "rq_pkts ?q1")
    case Nil
    with ok p len show ?thesis
      by (auto simp: rq_enque_def Let_def rq_remove_head_def buffer_ok_def rq_len_def
          EAMRP_RTQ_MAX_LEN_def safe_if)
  next
    case (Cons r rs)
    with ok p len sub show ?thesis
      by (auto simp: rq_enque_def Let_def rq_remove_head_def buffer_ok_def rq_len_def safe_if)
  qed
qed

lemma fold_emit_ok:
  "node_inv s \<Longrightarrow> node_inv (fold (\<lambda>(r, why). emit (Dropped r why)) ds s)
     \<and> rtable (fold (\<lambda>(r, why). emit (Dropped r why)) ds s) = rtable s
     \<and> stable s (fold (\<lambda>(r, why). emit (Dropped r why)) ds s)
     \<and> rqueue (fold (\<lambda>(r, why). emit (Dropped r why)) ds s) = rqueue s"
proof (induction ds arbitrary: s)
  case (Cons x ds)
  obtain r w where "x = (r, w)" by (cases x)
  with Cons.IH [of "emit (Dropped r w) s"] Cons.prems show ?case
    by (auto intro: stable_trans [of s "emit (Dropped r w) s"])
qed simp

lemma buffer_packet_ok:
  assumes inv: "node_inv s" and p: "ih_daddr p \<noteq> IP_BROADCAST" "ch_ptype p \<noteq> PT_EAMRP"
  shows "safe {} (\<lambda>s'. node_inv s' \<and> stable s s' \<and> rtable s' = rtable s) (buffer_packet E p s)"
proof -
  have "safe {} (\<lambda>(q', drops). buffer_ok q') (rq_enque (now E) p (rqueue s))"
    by (rule buffer_ok_enque [OF node_invD(4) [OF inv] p])
  moreover have "node_inv (fold (\<lambda>(r, why). emit (Dropped r why)) ds (s\<lparr>rqueue := q\<rparr>))
      \<and> stable s (fold (\<lambda>(r, why). emit (Dropped r why)) ds (s\<lparr>rqueue := q\<rparr>))
      \<and> rtable (fold (\<lambda>(r, why). emit (Dropped r why)) ds (s\<lparr>rqueue := q\<rparr>)) = rtable s"
    if "buffer_ok q" for q ds
    using fold_emit_ok [OF node_inv_rqueue [OF inv that], of ds] by simp
  ultimately show ?thesis unfolding buffer_packet_def by (auto elim!: safe_mono)
qed

section \<open>Control messages\<close>

lemma ring_ttl_cases:
  assumes "ring_ttl rt = (ttl, rt1)" and "1 \<le> rt_last_hop_count rt"
  shows "rt1 = rt\<lparr>rt_req_last_ttl := ttl\<rparr> \<or>
      rt1 = (rt\<lparr>rt_req_cnt := rt_req_cnt rt + 1\<rparr>)\<lparr>rt_req_last_ttl := ttl\<rparr>"
    and "0 < ttl"
  using assms
  by (auto simp: ring_ttl_def Let_def TTL_INCREMENT_def NETWORK_DIAMETER_def split: if_splits)

lemma ring_ttl_entry:
  assumes ok: "entry_ok m rt" and r: "ring_ttl rt = (ttl, rt1)"
  shows "entry_ok m rt1" "rt_dst rt1 = rt_dst rt" "rt_flags rt1 = rt_flags rt"
    "rt_seqno rt1 = rt_seqno rt" "0 < ttl"
proof -
  note c = ring_ttl_cases [OF r entry_okD(4) [OF ok]]
  show "0 < ttl" by (rule c(2))
  have "entry_ok m (rt\<lparr>rt_req_last_ttl := ttl\<rparr>)"
    "entry_ok m ((rt\<lparr>rt_req_cnt := rt_req_cnt rt + 1\<rparr>)\<lparr>rt_req_last_ttl := ttl\<rparr>)"
    using ok c(2) by (auto intro!: entry_ok_ttl)
  with c(1) show "entry_ok m rt1" by auto
  show "rt_dst rt1 = rt_dst rt" "rt_flags rt1 = rt_flags rt" "rt_seqno rt1 = rt_seqno rt"
    using c(1) by auto
qed

lemma rreq_packet_wf:
  assumes "even (seqno s)" and "index s \<noteq> IP_BROADCAST" and "dst \<noteq> IP_BROADCAST"
  shows "msg_wf (rreq_packet E dst rt ttl s)"
  using assms by (simp add: msg_wf_def rreq_packet_def Let_def packet_alloc_def packet_init_def)

lemma sendRequest_ok:
  assumes inv: "node_inv s" and rt: "rt_lookup d (rtable s) = Some rt"
  shows "safe {} (\<lambda>s'. node_inv s' \<and> same_config s s' \<and> same_routes s s' \<and> bihead s' = bihead s
    \<and> nbhead s' = nbhead s) (sendRequest E d s)"
proof -
  note e = table_entry [OF node_invD(3) [OF inv] rt]
  have stab: "same_config s s' \<and> same_routes s s' \<and> bihead s' = bihead s \<and> nbhead s' = nbhead s"
    if "stable s s'" for s' using that by (simp add: stable_def)
  consider (up) "rt_flags rt = RTF_UP \<or> rt_req_timeout rt > now E"
    | (retry) "rt_flags rt \<noteq> RTF_UP" "\<not> rt_req_timeout rt > now E" "rt_req_cnt rt > RREQ_RETRIES"
    | (send) "rt_flags rt \<noteq> RTF_UP" "\<not> rt_req_timeout rt > now E" "\<not> rt_req_cnt rt > RREQ_RETRIES"
    by blast
  then show ?thesis
  proof cases
    case up
    then show ?thesis using inv rt entry_okD(2) [OF e(1)]
      by (auto simp: sendRequest_def safe_if assertE_def same_config_def same_routes_def)
  next
    case retry
    let ?rt1 = "rt\<lparr>rt_req_timeout := now E + MAX_RREQ_TIMEOUT, rt_req_cnt := 0\<rparr>"
    let ?s1 = "s\<lparr>rtable := rt_put ?rt1 (rtable s)\<rparr>"
    have "node_inv ?s1" "stable s ?s1"
      using inv e rt by (auto intro!: node_inv_put stable_put [of _ _ rt])
    have "node_inv s' \<and> same_config s s' \<and> same_routes s s' \<and> bihead s' = bihead s
        \<and> nbhead s' = nbhead s" if "node_inv s'" "stable ?s1 s'" for s'
      using that stab [OF stable_trans [OF \<open>stable s ?s1\<close> that(2)]] by blast
    moreover have "same_config s (emit e s') = same_config s s'"
      "same_routes s (emit e s') = same_routes s s'" for e s'
      by (simp_all add: same_config_def same_routes_def)
    ultimately show ?thesis
      using drain_drop_ok [OF \<open>node_inv ?s1\<close>, of E d DROP_RTR_NO_ROUTE] retry rt e(2)
      by (simp add: sendRequest_def Let_def) (erule safe_mono, auto)
  next
    case send
    obtain ttl rt1 where r: "ring_ttl rt = (ttl, rt1)" by (cases "ring_ttl rt")
    note r1 = ring_ttl_entry [OF e(1) r]
    let ?rt2 = "rt1\<lparr>rt_req_timeout := req_timeout E ttl rt1, rt_expire := 0\<rparr>"
    have "entry_ok (eamrp_max_paths s) ?rt2"
      using entry_ok_ttl(2) [of _ "rt1\<lparr>rt_req_timeout := req_timeout E ttl rt1\<rparr>"] r1(1) by simp
    then have "node_inv (s\<lparr>rtable := rt_put ?rt2 (rtable s)\<rparr>)"
      using inv r1 e rt by (auto intro!: node_inv_put)
    moreover have "msg_wf (rreq_packet E d ?rt2 ttl s)"
      using node_invD(1,2) [OF inv] e(3) by (rule rreq_packet_wf)
    moreover have "same_routes s (s\<lparr>rtable := rt_put ?rt2 (rtable s)\<rparr>)"
      using r1 e rt by (simp add: same_routes_def rt_put_map [of _ _ rt])
    ultimately show ?thesis using send rt r node_invD(1) [OF inv]
      by (simp add: sendRequest_def Let_def assertE_def node_inv_def same_config_def same_routes_def)
  qed
qed

lemma sendReply_ok:
  assumes "node_inv s" and "even sq" and "ipdst \<noteq> IP_BROADCAST" and "rpdst \<noteq> IP_BROADCAST"
  shows "node_inv (sendReply E ipdst hc rpdst sq lt ts nh b fh s)"
  using assms
  by (simp add: sendReply_def Let_def msg_wf_def packet_alloc_def packet_init_def)

lemma sendReply_sel [simp]:
  "rtable (sendReply E ipdst hc rpdst sq lt ts nh b fh s) = rtable s"
  "stable t (sendReply E ipdst hc rpdst sq lt ts nh b fh s) = stable t s"
  "same_config t (sendReply E ipdst hc rpdst sq lt ts nh b fh s) = same_config t s"
  by (simp_all add: sendReply_def Let_def same_config_def)

lemma sendHello_ok: "node_inv s \<Longrightarrow> node_inv (sendHello E s)"
  using node_invD(1,2) [of s]
  by (simp add: sendHello_def Let_def msg_wf_def packet_alloc_def packet_init_def)

lemma sendError_ok:
  assumes "node_inv s" and "re_ok re" and "env_ok E"
  shows "node_inv (sendError E re jitter s)"
  using assms
  by (simp add: sendError_def Let_def msg_wf_def packet_alloc_def packet_init_def env_ok_def)

lemma sendError_sel [simp]:
  "rtable (sendError E re j s) = rtable s" "rqueue (sendError E re j s) = rqueue s"
  "seqno (sendError E re j s) = seqno s" "same_config t (sendError E re j s) = same_config t s"
  "bihead (sendError E re j s) = bihead s" "nbhead (sendError E re j s) = nbhead s"
  "ifqueue (sendError E re j s) = ifqueue s"
  by (simp_all add: sendError_def Let_def same_config_def)

end
