(* ===== verification/HandlerInv.thy ===== *)
theory HandlerInv
  imports NodeInv
begin

text \<open>
  The node invariant is kept by link failures, route resolution, neighbours and every
  handler of \<^theory_text>\<open>AgentRecv\<close>. A fault set in a lemma lists what the handler may still
  fail with.
\<close>

section \<open>Error messages\<close>

lemma re_empty_ok [simp]: "re_ok re_empty"
  by (simp add: re_ok_def re_empty_def)

lemma re_empty_count [simp]: "DestCount re_empty = 0"
  by (simp add: re_empty_def)

lemma unat_u8_succ: "unat (n :: u8) < EAMRP_MAX_ERRORS \<Longrightarrow> unat (n + 1) = Suc (unat n)"
  by (simp add: EAMRP_MAX_ERRORS_def unat_word_ariths)

lemma re_push_ok:
  assumes "re_ok re" and "odd_or_zero sq"
    and "unat (DestCount re) < EAMRP_MAX_ERRORS \<or> Array_overflow \<in> F"
  shows "safe F (\<lambda>re'. re_ok re' \<and> unat (DestCount re') = Suc (unat (DestCount re))) (re_push d sq re)"
  using assms by (auto simp: re_push_def re_ok_def Let_def safe_if unat_u8_succ nth_list_update less_Suc_eq)

section \<open>Link failures\<close>

lemma path_lookup_delete [simp]:
  assumes "paths_ok rt" shows "path_lookup a (path_delete a rt) = None"
  using pnh.lookup_remove_same [of "rt_path_list rt" a] assms
  by (simp add: path_lookup_def path_delete_paths paths_ok_def)

lemma path_lookup_down [simp]: "rt_flags rt \<noteq> RTF_UP \<Longrightarrow> entry_ok m rt \<Longrightarrow> path_lookup a rt = None"
  using entry_okD(6) [of m rt] by (simp add: path_lookup_None_iff)

lemma broken_seqno:
  assumes "entry_ok m rt" and "even (rt_seqno rt)"
  shows "odd_or_zero (max (rt_seqno rt + 1) (rt_highest_seqno_heard rt))"
  using odd_or_zero_max [of "rt_seqno rt + 1"] entry_okD(10) [OF assms(1)] assms(2)
  by (simp add: odd_or_zero_def)

text \<open>The routes that are up, and a table in which none has come up.\<close>

definition up_count :: "eamrp_rt_entry list \<Rightarrow> nat" where
  "up_count t = length (filter (\<lambda>rt. rt_flags rt = RTF_UP) t)"

definition no_new_route :: "eamrp_rt_entry \<Rightarrow> eamrp_rt_entry \<Rightarrow> bool" where
  "no_new_route rt rt' \<longleftrightarrow> rt_dst rt' = rt_dst rt \<and> (rt_flags rt' = RTF_UP \<longrightarrow> rt_flags rt = RTF_UP)"

definition no_new_routes :: "eamrp_rt_entry list \<Rightarrow> eamrp_rt_entry list \<Rightarrow> bool" where
  "no_new_routes = list_all2 no_new_route"

lemma up_count_Cons [simp]: "up_count (rt # t) = of_bool (rt_flags rt = RTF_UP) + up_count t"
  by (simp add: up_count_def)

lemma no_new_routes_refl [simp]: "no_new_routes t t"
  by (simp add: no_new_routes_def no_new_route_def list_all2_refl)

lemma no_new_routes_trans: "no_new_routes t u \<Longrightarrow> no_new_routes u v \<Longrightarrow> no_new_routes t v"
  unfolding no_new_routes_def by (rule list_all2_trans [where ?P1.0 = no_new_route]) (auto simp: no_new_route_def)

lemma no_new_routes_dst: "no_new_routes t u \<Longrightarrow> map rt_dst u = map rt_dst t"
  unfolding no_new_routes_def by (induction rule: list_all2_induct) (auto simp: no_new_route_def)

lemma no_new_routes_count: "no_new_routes t u \<Longrightarrow> up_count u \<le> up_count t"
  unfolding no_new_routes_def by (induction rule: list_all2_induct) (auto simp: no_new_route_def up_count_def)

lemma same_routes_no_new: "same_routes s s' \<Longrightarrow> no_new_routes (rtable s) (rtable s')"
  unfolding same_routes_def no_new_routes_def no_new_route_def list_all2_conv_all_nth
  by (metis length_map nth_map)

lemma link_failure_entry_ok:
  assumes ok: "entry_ok m rt" and re: "re_ok re"
    and F: "rt_flags rt = RTF_UP \<longrightarrow> unat (DestCount re) < EAMRP_MAX_ERRORS \<or> Array_overflow \<in> F"
  shows "safe F (\<lambda>(re', rt'). re_ok re' \<and> unat (DestCount re') \<le> of_bool (rt_flags rt = RTF_UP) + unat (DestCount re)
      \<and> entry_ok m rt' \<and> no_new_route rt rt' \<and> path_lookup nb rt' = None)
    (link_failure_entry E nb re rt)"
proof (cases "rt_flags rt = RTF_UP \<and> path_lookup nb rt \<noteq> None")
  case False
  then show ?thesis using ok re by (auto simp: link_failure_entry_def no_new_route_def)
next
  case up: True
  note ev = entry_okD(7) [OF ok] and p = entry_okD(1) [OF ok]
  note e = path_empty_ok [OF paths_ok_delete [OF p], of nb]
  show ?thesis
  proof (cases "rt_path_list (path_delete nb rt) = []")
    case False
    with up ev e re path_delete_ok [OF ok, of nb] p show ?thesis
      by (simp add: link_failure_entry_def Let_def no_new_route_def)
  next
    case True
    let ?n = "max (rt_seqno rt + 1) (rt_highest_seqno_heard rt)"
    have n: "odd_or_zero ?n" using broken_seqno [OF ok] up ev by simp
    note down = path_delete_down_ok [OF ok conjunct1 [OF up] n, where E = E and a = nb]
    have none: "path_lookup nb (rt_down E r) = None" if "entry_ok m (rt_down E r)" for r
      by (rule path_lookup_down [OF _ that]) simp
    note none = none [OF down(1)] none [OF down(2) [of False]]
    show ?thesis
    proof (cases "rt_error rt")
      case False
      with down(1) none up ev True e re show ?thesis
        by (simp add: link_failure_entry_def Let_def no_new_route_def)
    next
      case err: True
      have "safe F (\<lambda>re'. re_ok re' \<and> unat (DestCount re') = Suc (unat (DestCount re)))
          (re_push (rt_dst rt) ?n re)" by (rule re_push_ok [OF re n mp [OF F conjunct1 [OF up]]])
      then have "safe F (\<lambda>re'. re_ok re' \<and> unat (DestCount re') \<le> Suc (unat (DestCount re)))
          (re_push (rt_dst rt) ?n re)" by (rule safe_mono) simp
      with down(2) [of False] none up ev True e err show ?thesis
        by (simp add: link_failure_entry_def Let_def no_new_route_def)
    qed
  qed
qed

lemma link_failure_walk_ok:
  assumes "\<forall>rt\<in>set t. entry_ok m rt" and "re_ok re"
    and "unat (DestCount re) + up_count t \<le> EAMRP_MAX_ERRORS \<or> Array_overflow \<in> F"
  shows "safe F (\<lambda>(re', t'). re_ok re' \<and> no_new_routes t t'
      \<and> (\<forall>rt\<in>set t'. entry_ok m rt \<and> path_lookup nb rt = None))
    (link_failure_walk E nb re t)"
  using assms
proof (induction t arbitrary: re)
  case (Cons rt t)
  have "safe F (\<lambda>(re', rt'). re_ok re' \<and> unat (DestCount re') \<le> of_bool (rt_flags rt = RTF_UP) + unat (DestCount re)
      \<and> entry_ok m rt' \<and> no_new_route rt rt' \<and> path_lookup nb rt' = None)
    (link_failure_entry E nb re rt)"
    using Cons.prems by (intro link_failure_entry_ok) auto
  then show ?case unfolding link_failure_walk.simps
  proof (rule safe_bindI2)
    fix re1 rt1
    assume r: "re_ok re1 \<and> unat (DestCount re1) \<le> of_bool (rt_flags rt = RTF_UP) + unat (DestCount re)
      \<and> entry_ok m rt1 \<and> no_new_route rt rt1 \<and> path_lookup nb rt1 = None"
    have "safe F (\<lambda>(re', t'). re_ok re' \<and> no_new_routes t t'
        \<and> (\<forall>rt\<in>set t'. entry_ok m rt \<and> path_lookup nb rt = None)) (link_failure_walk E nb re1 t)"
      using Cons.prems r by (intro Cons.IH) auto
    with r show "safe F (\<lambda>(re', t'). re_ok re' \<and> no_new_routes (rt # t) t'
        \<and> (\<forall>rt\<in>set t'. entry_ok m rt \<and> path_lookup nb rt = None))
      ((\<lambda>(re1, rt1). bindE (link_failure_walk E nb re1 t) (\<lambda>(re2, rts1). Inr (re2, rt1 # rts1))) (re1, rt1))"
      by (auto simp: no_new_routes_def elim!: safe_mono)
  qed
qed (simp add: no_new_routes_def)

text \<open>The faults a walk over the table may end in: none up to 100 routes.\<close>

definition overflow_faults :: "eamrp \<Rightarrow> fault set" where
  "overflow_faults s = (if up_count (rtable s) \<le> EAMRP_MAX_ERRORS then {} else {Array_overflow})"

lemma table_ok_dst:
  assumes "table_ok m t" and "map rt_dst t' = map rt_dst t" and "\<forall>rt\<in>set t'. entry_ok m rt"
  shows "table_ok m t'"
proof -
  have "rt_dst ` set t' = rt_dst ` set t" using arg_cong [OF assms(2), of set] by simp
  moreover have "IP_BROADCAST \<notin> rt_dst ` set t" using assms(1) by (auto simp: table_ok_def)
  ultimately have "\<forall>rt\<in>set t'. rt_dst rt \<noteq> IP_BROADCAST" by (metis image_eqI)
  with assms show ?thesis by (auto simp: table_ok_def)
qed

lemma handle_link_failure_ok:
  assumes inv: "node_inv s" and E: "env_ok E"
  shows "safe (overflow_faults s) (\<lambda>s'. node_inv s' \<and> same_config s s' \<and> seqno s' = seqno s
      \<and> no_new_routes (rtable s) (rtable s')
      \<and> nbhead s' = nbhead s \<and> bihead s' = bihead s \<and> ifqueue s' = ifqueue s \<and> rqueue s' = rqueue s
      \<and> (\<forall>rt\<in>set (rtable s'). path_lookup nb rt = None))
    (handle_link_failure E nb s)"
  unfolding handle_link_failure_def
proof (rule safe_bindI2)
  show "safe (overflow_faults s) (\<lambda>(re', t'). re_ok re' \<and> no_new_routes (rtable s) t'
      \<and> (\<forall>rt\<in>set t'. entry_ok (eamrp_max_paths s) rt \<and> path_lookup nb rt = None))
    (link_failure_walk E nb re_empty (rtable s))"
    using node_invD(3) [OF inv]
    by (intro link_failure_walk_ok) (auto simp: table_ok_def overflow_faults_def)
next
  fix re t
  assume a: "re_ok re \<and> no_new_routes (rtable s) t
      \<and> (\<forall>rt\<in>set t. entry_ok (eamrp_max_paths s) rt \<and> path_lookup nb rt = None)"
  have "table_ok (eamrp_max_paths s) t"
    using table_ok_dst [OF node_invD(3) [OF inv] no_new_routes_dst] a by blast
  then have "node_inv (s\<lparr>rtable := t\<rparr>)" using inv by (rule node_inv_rtable [rotated])
  with a E show "safe (overflow_faults s) (\<lambda>s'. node_inv s' \<and> same_config s s' \<and> seqno s' = seqno s
      \<and> no_new_routes (rtable s) (rtable s')
      \<and> nbhead s' = nbhead s \<and> bihead s' = bihead s \<and> ifqueue s' = ifqueue s \<and> rqueue s' = rqueue s
      \<and> (\<forall>rt\<in>set (rtable s'). path_lookup nb rt = None))
    ((\<lambda>(re, t). let s1 = s\<lparr>rtable := t\<rparr> in
        Inr (if DestCount re > 0 then sendError E re False s1
             else emit (Freed (packet_alloc\<lparr>hdr := Rerr re\<rparr>)) s1)) (re, t))"
    by (auto simp: Let_def sendError_ok)
qed

section \<open>Route entries on demand\<close>

lemma ensure_rt_ok:
  assumes inv: "node_inv s" and E: "env_ok E" and d: "d \<noteq> IP_BROADCAST"
  shows "safe {} (\<lambda>s'. node_inv s' \<and> (\<exists>rt. rt_lookup d (rtable s') = Some rt) \<and> same_config s s'
      \<and> bihead s' = bihead s \<and> nbhead s' = nbhead s \<and> ifqueue s' = ifqueue s \<and> rqueue s' = rqueue s
      \<and> (\<forall>c rt. rt_lookup c (rtable s) = Some rt \<longrightarrow> rt_lookup c (rtable s') = Some rt))
    (ensure_rt E d s)"
proof (cases "rt_lookup d (rtable s)")
  case (Some rt)
  with inv show ?thesis by (simp add: ensure_rt_def)
next
  case None
  let ?rt = "(new_rt_entry (uninit16 E))\<lparr>rt_dst := d\<rparr>"
  have "entry_ok (eamrp_max_paths s) ?rt"
    using E by (intro new_entry_ok) (simp add: env_ok_def)
  then have "table_ok (eamrp_max_paths s) (?rt # rtable s)"
    using node_invD(3) [OF inv] rtl.insert_distinct [of "rtable s" ?rt] None d
    by (simp add: table_ok_def)
  then have "node_inv (s\<lparr>rtable := ?rt # rtable s\<rparr>)" using inv by (rule node_inv_rtable [rotated])
  with None show ?thesis by (auto simp: ensure_rt_def rt_add_def)
qed

section \<open>Resolving a route\<close>

lemma data_wf [simp]: "ch_ptype p \<noteq> PT_EAMRP \<Longrightarrow> msg_wf p"
  by (rule msg_wf_data)

lemma resolve_with_ok:
  assumes s: "node_inv s" and rt: "rt_lookup (ih_daddr p) (rtable s) = Some rt" and E: "env_ok E"
    and p: "ih_daddr p \<noteq> IP_BROADCAST" "ch_ptype p \<noteq> PT_EAMRP"
  shows "safe {} (\<lambda>s'. node_inv s' \<and> same_config s s') (resolve_with E p rt s)"
proof -
  note e = table_entry [OF node_invD(3) [OF s] rt]
  consider (up) "rt_flags rt = RTF_UP" | (own) "rt_flags rt \<noteq> RTF_UP" "ih_saddr p = index s"
    | (err) "rt_flags rt = RTF_DOWN" "ih_saddr p \<noteq> index s"
    using entry_okD(5) [OF e(1)] by (cases "ih_saddr p = index s") auto
  then show ?thesis
  proof cases
    case up
    with forward_route_ok [OF s rt up, of p E NO_EAMRP_DELAY] p entry_okD(2) [OF e(1)] e(2)
    show ?thesis by (auto simp: resolve_with_def elim!: safe_mono intro: stable_config)
  next
    case own
    have "safe {} (\<lambda>s1. node_inv s1 \<and> stable s s1 \<and> rtable s1 = rtable s) (buffer_packet E p s)"
      by (rule buffer_packet_ok [OF s p])
    then have "safe {} (\<lambda>s'. node_inv s' \<and> same_config s s')
        (bindE (buffer_packet E p s) (sendRequest E (rt_dst rt)))"
    proof (rule safe_bindI)
      fix s1
      assume b: "node_inv s1 \<and> stable s s1 \<and> rtable s1 = rtable s"
      with sendRequest_ok [of s1 "rt_dst rt" rt E] rt e(2)
      show "safe {} (\<lambda>s'. node_inv s' \<and> same_config s s') (sendRequest E (rt_dst rt) s1)"
        by (auto elim!: safe_mono intro: same_config_trans stable_config)
    qed
    with own show ?thesis by (simp add: resolve_with_def)
  next
    case err
    have "safe {} (\<lambda>re. re_ok re \<and> unat (DestCount re) = Suc (unat (DestCount re_empty)))
        (re_push (rt_dst rt) (rt_seqno rt) re_empty)"
      using entry_okD(9) [OF e(1)] err by (intro re_push_ok) (simp_all add: EAMRP_MAX_ERRORS_def)
    with err s E show ?thesis
      by (auto simp: resolve_with_def elim!: safe_mono intro: sendError_ok)
  qed
qed

lemma rt_resolve_ok:
  assumes inv: "node_inv s" and E: "env_ok E"
    and p: "ih_daddr p \<noteq> IP_BROADCAST" "ch_ptype p \<noteq> PT_EAMRP"
  shows "safe {} (\<lambda>s'. node_inv s' \<and> same_config s s') (rt_resolve E p s)"
  unfolding rt_resolve_def Let_def
proof (rule safe_bindI [OF ensure_rt_ok [OF inv E]])
  let ?p = "p\<lparr>ch_xmit_failure := Some Eamrp_rt_failed_callback\<rparr>"
  show "ih_daddr ?p \<noteq> IP_BROADCAST" using p by simp
  fix s1
  assume "node_inv s1 \<and> (\<exists>rt. rt_lookup (ih_daddr ?p) (rtable s1) = Some rt) \<and> same_config s s1
      \<and> bihead s1 = bihead s \<and> nbhead s1 = nbhead s \<and> ifqueue s1 = ifqueue s \<and> rqueue s1 = rqueue s
      \<and> (\<forall>c rt. rt_lookup c (rtable s) = Some rt \<longrightarrow> rt_lookup c (rtable s1) = Some rt)"
  then obtain rt where s: "node_inv s1" "same_config s s1"
    and rt: "rt_lookup (ih_daddr ?p) (rtable s1) = Some rt" by blast
  have "safe {} (\<lambda>s'. node_inv s' \<and> same_config s1 s') (resolve_with E ?p rt s1)"
    using p by (intro resolve_with_ok s rt E) simp_all
  with rt s(2) show "safe {} (\<lambda>s'. node_inv s' \<and> same_config s s')
    (case rt_lookup (ih_daddr ?p) (rtable s1) of None \<Rightarrow> Inl Null_deref
     | Some rt \<Rightarrow> resolve_with E ?p rt s1)"
    by (auto elim!: safe_mono intro: same_config_trans)
qed

section \<open>Salvaging and neighbours\<close>

lemma salvage_ok:
  assumes "node_inv s"
  shows "safe {} (\<lambda>s'. node_inv s' \<and> stable s s') (salvage why E p s)"
proof -
  have data: "ch_ptype p \<noteq> PT_EAMRP" if "DATA_PACKET (ch_ptype p)"
    using that by (auto simp: DATA_PACKET_def)
  show ?thesis
  proof (cases "rt_lookup (ih_daddr p) (rtable s)")
    case None
    with assms show ?thesis by (simp add: salvage_def safe_if)
  next
    case (Some rt)
    note d = table_entry(3) [OF node_invD(3) [OF assms] Some]
    let ?p = "p\<lparr>ch_eamrp_salvage_count := ch_eamrp_salvage_count p + 1\<rparr>"
    have "safe {} (\<lambda>s'. node_inv s' \<and> stable s s') (forward E (Some (ih_daddr p)) ?p NO_EAMRP_DELAY s)"
      if "DATA_PACKET (ch_ptype p)" "rt_flags rt = RTF_UP"
      using forward_route_ok [OF assms Some that(2), of ?p E NO_EAMRP_DELAY] data that(1) d
      by (auto elim!: safe_mono)
    with assms Some show ?thesis by (simp add: salvage_def safe_if)
  qed
qed

lemma salvage_loop_ok:
  assumes "node_inv s" and "pq_lawful (pq E)" and "ifqueue s = Some q" and "length (q_packets q) \<le> n"
  shows "safe {} (\<lambda>s'. node_inv s' \<and> same_config s s' \<and> same_routes s s' \<and> seqno s' = seqno s
      \<and> nbhead s' = nbhead s \<and> bihead s' = bihead s
      \<and> (\<exists>q'. ifqueue s' = Some q' \<and> (\<forall>p\<in>set (q_packets q'). ch_next_hop p \<noteq> nb)))
    (salvage_loop n why E nb s)"
  using assms
proof (induction n arbitrary: s q)
  case 0
  then show ?case
    by (subst salvage_loop.simps) (simp add: pq_filter_nexthop_lawful node_inv_def same_routes_def)
next
  case (Suc n)
  let ?find = "find (\<lambda>p. ch_next_hop p = nb) (q_packets q)"
  let ?q = "q\<lparr>q_packets := remove_first (\<lambda>p. ch_next_hop p = nb) (q_packets q)\<rparr>"
  have inv: "node_inv (s\<lparr>ifqueue := Some ?q\<rparr>)" using Suc.prems by (simp add: node_inv_def)
  show ?case
  proof (cases ?find)
    case None
    then have "\<forall>p\<in>set (q_packets ?q). ch_next_hop p \<noteq> nb"
      by (auto simp: find_None_ball dest: in_remove_firstD)
    with None inv Suc.prems show ?thesis
      by (subst salvage_loop.simps) (simp add: pq_filter_nexthop_lawful same_routes_def)
  next
    case (Some p)
    have len: "length (q_packets ?q) \<le> n"
      using length_remove_first_find [OF Some] Suc.prems(4) by simp
    have "safe {} (\<lambda>s'. node_inv s' \<and> same_config s s' \<and> same_routes s s' \<and> seqno s' = seqno s
        \<and> nbhead s' = nbhead s \<and> bihead s' = bihead s
        \<and> (\<exists>q'. ifqueue s' = Some q' \<and> (\<forall>p\<in>set (q_packets q'). ch_next_hop p \<noteq> nb)))
      (bindE (salvage why E p (s\<lparr>ifqueue := Some ?q\<rparr>)) (salvage_loop n why E nb))"
    proof (rule safe_bindI [OF salvage_ok [OF inv]])
      fix s1
      assume s1: "node_inv s1 \<and> stable (s\<lparr>ifqueue := Some ?q\<rparr>) s1"
      then have q1: "ifqueue s1 = Some ?q" by (simp add: stable_def)
      from Suc.IH [OF conjunct1 [OF s1] Suc.prems(2) q1 len] s1
      show "safe {} (\<lambda>s'. node_inv s' \<and> same_config s s' \<and> same_routes s s' \<and> seqno s' = seqno s
          \<and> nbhead s' = nbhead s \<and> bihead s' = bihead s
          \<and> (\<exists>q'. ifqueue s' = Some q' \<and> (\<forall>p\<in>set (q_packets q'). ch_next_hop p \<noteq> nb)))
        (salvage_loop n why E nb s1)"
        by (auto simp: stable_def same_routes_def elim!: safe_mono intro: same_config_trans)
    qed
    with Some Suc.prems show ?thesis
      by (subst salvage_loop.simps) (simp add: pq_filter_nexthop_lawful)
  qed
qed

lemma node_inv_seqno: "node_inv s \<Longrightarrow> even n \<Longrightarrow> node_inv (s\<lparr>seqno := n\<rparr>)"
  by (simp add: node_inv_def)

lemma node_inv_nbhead:
  "node_inv s \<Longrightarrow> distinct (map nb_addr h) \<Longrightarrow> node_inv (s\<lparr>nbhead := h\<rparr>)"
  by (simp add: node_inv_def)

lemma nb_delete_ok:
  assumes inv: "node_inv s" and E: "env_ok E"
  shows "safe (overflow_faults s) (\<lambda>s'. node_inv s' \<and> same_config s s' \<and> seqno s' = seqno s + 2
      \<and> no_new_routes (rtable s) (rtable s')
      \<and> nbhead s' = remove_first (\<lambda>nb. nb_addr nb = a) (nbhead s)
      \<and> bihead s' = bihead s
      \<and> (\<exists>q'. ifqueue s' = Some q' \<and> (\<forall>p\<in>set (q_packets q'). ch_next_hop p \<noteq> a)))
    (nb_delete E a s)"
proof -
  let ?h = "remove_first (\<lambda>nb. nb_addr nb = a) (nbhead s)"
  let ?s1 = "s\<lparr>seqno := seqno s + 2, nbhead := ?h\<rparr>"
  have even: "even (seqno s + 2)" using node_invD(1) [OF inv] by simp
  have "node_inv ?s1"
    using node_invD(5) [OF inv] even
    by (intro node_inv_nbhead node_inv_seqno inv) (simp_all add: distinct_map_remove_first)
  from handle_link_failure_ok [OF this E, of a]
  have "safe (overflow_faults s) (\<lambda>s'. node_inv s' \<and> same_config s s' \<and> seqno s' = seqno s + 2
      \<and> no_new_routes (rtable s) (rtable s') \<and> nbhead s' = ?h \<and> bihead s' = bihead s
      \<and> ifqueue s' = ifqueue s) (handle_link_failure E a ?s1)"
    by (auto simp: overflow_faults_def elim!: safe_mono)
  then have "safe (overflow_faults s) (\<lambda>s'. node_inv s' \<and> same_config s s' \<and> seqno s' = seqno s + 2
      \<and> no_new_routes (rtable s) (rtable s') \<and> nbhead s' = ?h \<and> bihead s' = bihead s
      \<and> (\<exists>q'. ifqueue s' = Some q' \<and> (\<forall>p\<in>set (q_packets q'). ch_next_hop p \<noteq> a)))
    (bindE (handle_link_failure E a ?s1) (\<lambda>s2.
        salvage_loop (case ifqueue s2 of None \<Rightarrow> 0 | Some q \<Rightarrow> length (q_packets q)) DROP_RTR_HELLO E a s2))"
  proof (rule safe_bindI)
    fix s2
    assume s2: "node_inv s2 \<and> same_config s s2 \<and> seqno s2 = seqno s + 2
      \<and> no_new_routes (rtable s) (rtable s2) \<and> nbhead s2 = ?h \<and> bihead s2 = bihead s
      \<and> ifqueue s2 = ifqueue s"
    obtain q where q: "ifqueue s2 = Some q" using node_invD(9) [of s2] s2 by auto
    have "pq_lawful (pq E)" using E by (simp add: env_ok_def)
    note l = salvage_loop_ok [OF conjunct1 [OF s2] this q order_refl, of a]
    show "safe (overflow_faults s) (\<lambda>s'. node_inv s' \<and> same_config s s' \<and> seqno s' = seqno s + 2
        \<and> no_new_routes (rtable s) (rtable s') \<and> nbhead s' = ?h \<and> bihead s' = bihead s
        \<and> (\<exists>q'. ifqueue s' = Some q' \<and> (\<forall>p\<in>set (q_packets q'). ch_next_hop p \<noteq> a)))
      (salvage_loop (case ifqueue s2 of None \<Rightarrow> 0 | Some q \<Rightarrow> length (q_packets q)) DROP_RTR_HELLO E a s2)"
      unfolding q option.case
      by (rule safe_weaken_faults [OF safe_mono [OF l]])
        (use s2 in \<open>auto dest: same_routes_no_new intro: same_config_trans no_new_routes_trans\<close>)
  qed
  with even show ?thesis by (simp add: nb_delete_def Let_def)
qed

lemma overflow_faults_mono:
  assumes "no_new_routes (rtable s) (rtable t)" shows "overflow_faults t \<subseteq> overflow_faults s"
  using no_new_routes_count [OF assms] by (simp add: overflow_faults_def)

lemma nb_purge_ok:
  assumes inv: "node_inv s" and E: "env_ok E"
  shows "safe (overflow_faults s) (\<lambda>s'. node_inv s' \<and> same_config s s' \<and> bihead s' = bihead s
      \<and> no_new_routes (rtable s) (rtable s')) (nb_purge E s)"
  unfolding nb_purge_def
proof (rule safe_foldE)
  fix nb t
  assume t: "node_inv t \<and> same_config s t \<and> bihead t = bihead s
      \<and> no_new_routes (rtable s) (rtable t)"
  with safe_weaken_faults [OF nb_delete_ok [of t E "nb_addr nb"] overflow_faults_mono [of s t]] E
  show "safe (overflow_faults s) (\<lambda>s'. node_inv s' \<and> same_config s s' \<and> bihead s' = bihead s
      \<and> no_new_routes (rtable s) (rtable s'))
    (if nb_expire nb \<le> now E then nb_delete E (nb_addr nb) t else Inr t)"
    by (auto simp: safe_if elim!: safe_mono intro: same_config_trans no_new_routes_trans)
qed (simp add: inv)

text \<open>Exactly the neighbours whose lease is over leave the list.\<close>

lemma remove_first_filter_key:
  assumes "distinct (map k xs)" and "x \<in> set xs"
  shows "remove_first (\<lambda>y. k y = k x) xs = filter (\<lambda>y. k y \<noteq> k x) xs"
  using assms
proof (induction xs)
  case (Cons y ys)
  show ?case
  proof (cases "k y = k x")
    case True
    with Cons.prems(1) have "\<forall>z\<in>set ys. k z \<noteq> k x" by (metis distinct.simps(2) image_eqI list.set_map list.simps(9))
    with True show ?thesis by (simp add: filter_id_conv)
  next
    case False
    with Cons show ?thesis by auto
  qed
qed simp

lemma remove_first_next:
  assumes d: "distinct (map nb_addr nbs)" "nbs = pre @ nb # rest" and ex: "P nb"
  shows "remove_first (\<lambda>y. nb_addr y = nb_addr nb) (filter (\<lambda>y. \<not> (y \<in> set pre \<and> P y)) nbs)
    = filter (\<lambda>y. \<not> (y \<in> set (pre @ [nb]) \<and> P y)) nbs"
proof -
  let ?l = "filter (\<lambda>y. \<not> (y \<in> set pre \<and> P y)) nbs"
  have uniq: "y = nb" if "y \<in> set nbs" "nb_addr y = nb_addr nb" for y
    using that d by (metis eq_key_imp_eq_value in_set_conv_decomp inj_on_def distinct_map)
  have "nb \<notin> set pre" using d by auto
  then have "nb \<in> set ?l" using d(2) by simp
  then have "remove_first (\<lambda>y. nb_addr y = nb_addr nb) ?l = filter (\<lambda>y. nb_addr y \<noteq> nb_addr nb) ?l"
    using distinct_map_filter [OF d(1)] by (intro remove_first_filter_key)
  also have "\<dots> = filter (\<lambda>y. \<not> (y \<in> set (pre @ [nb]) \<and> P y)) nbs"
    unfolding filter_filter using uniq ex by (intro filter_cong) auto
  finally show ?thesis .
qed

lemma nb_purge_list:
  assumes inv: "node_inv s" and E: "env_ok E"
  shows "safe (overflow_faults s)
    (\<lambda>s'. nbhead s' = filter (\<lambda>nb. \<not> nb_expire nb \<le> now E) (nbhead s)) (nb_purge E s)"
proof -
  let ?f = "\<lambda>nb t. if nb_expire nb \<le> now E then nb_delete E (nb_addr nb) t else Inr t"
  let ?gone = "\<lambda>pre nb. nb \<in> set pre \<and> nb_expire nb \<le> now E"
  have dist: "distinct (map nb_addr (nbhead s))" using node_invD(5) [OF inv] .
  have "safe (overflow_faults s) (\<lambda>s'. nbhead s' = filter (\<lambda>nb. \<not> ?gone (nbhead s) nb) (nbhead s))
      (foldE ?f rest t)"
    if "nbhead s = pre @ rest" "node_inv t" "no_new_routes (rtable s) (rtable t)"
      "nbhead t = filter (\<lambda>nb. \<not> ?gone pre nb) (nbhead s)" for pre rest t
    using that
  proof (induction rest arbitrary: pre t)
    case (Cons nb rest)
    have step: "remove_first (\<lambda>y. nb_addr y = nb_addr nb) (nbhead t) = filter (\<lambda>y. \<not> ?gone (pre @ [nb]) y) (nbhead s)"
      if "nb_expire nb \<le> now E"
      unfolding Cons.prems(4) by (rule remove_first_next [where P = "\<lambda>nb. nb_expire nb \<le> now E", OF dist Cons.prems(1) that])
    have IH: "safe (overflow_faults s) (\<lambda>s'. nbhead s' = filter (\<lambda>nb. \<not> ?gone (nbhead s) nb) (nbhead s))
        (foldE ?f rest t1)"
      if "node_inv t1" "no_new_routes (rtable s) (rtable t1)"
        "nbhead t1 = filter (\<lambda>y. \<not> ?gone (pre @ [nb]) y) (nbhead s)" for t1
      using Cons.prems(1) that by (intro Cons.IH [of "pre @ [nb]"]) simp_all
    show ?case
    proof (cases "nb_expire nb \<le> now E")
      case True
      have "safe (overflow_faults s) (\<lambda>s'. safe (overflow_faults s)
          (\<lambda>s'. nbhead s' = filter (\<lambda>nb. \<not> ?gone (nbhead s) nb) (nbhead s)) (foldE ?f rest s'))
          (nb_delete E (nb_addr nb) t)"
        using safe_weaken_faults [OF nb_delete_ok [OF Cons.prems(2) E, of "nb_addr nb"] overflow_faults_mono [OF Cons.prems(3)]]
        by (elim safe_mono) (intro IH, auto simp: step [OF True] intro: no_new_routes_trans [OF Cons.prems(3)])
      with True show ?thesis by simp
    next
      case False
      then have "filter (\<lambda>y. \<not> ?gone (pre @ [nb]) y) (nbhead s) = filter (\<lambda>y. \<not> ?gone pre y) (nbhead s)"
        by (intro filter_cong) auto
      with False IH [OF Cons.prems(2,3)] Cons.prems(4) show ?thesis by simp
    qed
  qed (auto cong: filter_cong)
  from this [of "[]" "nbhead s" s] inv show ?thesis
    unfolding nb_purge_def by (auto cong: filter_cong elim!: safe_mono)
qed

section \<open>Forwarding buffered packets\<close>

lemma flush_buffer_ok:
  assumes inv: "node_inv s" and d: "rt_lookup d (rtable s) = Some rt"
  shows "safe {} (\<lambda>s'. node_inv s' \<and> stable s s') (flush_buffer E d s)"
proof (cases "rt_flags rt = RTF_UP")
  case False
  with inv d show ?thesis by (simp add: flush_buffer_def)
next
  case up: True
  let ?act = "\<lambda>p (u, t). case rt_lookup d (rtable t) of None \<Rightarrow> Inl Null_deref
    | Some rt1 \<Rightarrow> if rt_flags rt1 = RTF_UP
        then bindE (forward E (Some d) p NO_EAMRP_DELAY t) (\<lambda>t1. Inr (u, t1)) else Inr (u, t)"
  let ?s1 = "s\<lparr>rtable := rt_put (reset_soft_state rt) (rtable s)\<rparr>"
  let ?I = "\<lambda>x::unit \<times> eamrp. node_inv (snd x) \<and> stable s (snd x)"
  note e = table_entry [OF node_invD(3) [OF inv] d]
  have "safe {} (\<lambda>x. ?I x \<and> rqueue (snd x) = rqueue t) (?act p (u, t))"
    if "?I (u, t)" "ih_daddr p = d" "ih_daddr p \<noteq> IP_BROADCAST" "ch_ptype p \<noteq> PT_EAMRP" for p u t
  proof -
    from that(1) have st: "stable s t" by simp
    obtain rt1 where r: "rt_lookup d (rtable t) = Some rt1" "rt_flags rt1 = RTF_UP"
      using stable_lookup [OF st d] up by auto
    with forward_route_ok [of t d rt1 p E NO_EAMRP_DELAY] that show ?thesis
      by (auto elim!: safe_mono intro: stable_trans)
  qed
  moreover have "?I ((), ?s1)"
    using e inv d by (auto intro!: node_inv_put stable_put [of _ _ rt])
  ultimately have "safe {} ?I (drain_all E d ?act () ?s1)"
    by (intro drain_all_ok) (auto dest: node_invD(4) intro: node_inv_rqueue)
  with up d show ?thesis by (auto simp: flush_buffer_def elim!: safe_mono)
qed

section \<open>Route requests\<close>

lemma reply_seqno_even: "even (reply_seqno own wanted)"
  by (simp add: reply_seqno_def Let_def)

lemma node_inv_bihead:
  "node_inv s \<Longrightarrow> distinct (map (\<lambda>b. (bi_src b, bi_id b)) b) \<Longrightarrow> node_inv (s\<lparr>bihead := b\<rparr>)"
  by (simp add: node_inv_def)

lemma rreq_at_destination_ok:
  assumes "node_inv s" and "rq_src rq \<noteq> IP_BROADCAST"
  shows "node_inv (rreq_at_destination E p rq s)" "same_config s (rreq_at_destination E p rq s)"
  using assms node_invD(2) [OF assms(1)]
  by (auto simp: rreq_at_destination_def Let_def reply_seqno_even intro!: sendReply_ok node_inv_seqno)

lemma rreq_fresh_route_ok:
  assumes inv: "node_inv s" and rt: "rt_lookup (rq_dst rq) (rtable s) = Some rt" "rt_flags rt = RTF_UP"
    and id: "id_get (rq_src rq, rq_bcast_id rq) (bihead s) \<noteq> None"
    and src: "rq_src rq \<noteq> IP_BROADCAST"
  shows "safe {} (\<lambda>s'. node_inv s' \<and> same_config s s') (rreq_fresh_route E p rq hr rt s)"
proof -
  note e = table_entry [OF node_invD(3) [OF inv] rt(1)]
  obtain b where b: "id_get (rq_src rq, rq_bcast_id rq) (bihead s) = Some b" using id by blast
  obtain fp where fp: "path_find rt = Some fp"
    using entry_okD(6) [OF e(1)] rt(2) by (cases "path_find rt") auto
  let ?rt2 = "(advertise E rt)\<lparr>rt_error := True\<rparr>"
  let ?s1 = "s\<lparr>bihead := id_put (b\<lparr>bi_count := 1\<rparr>) (bihead s), rtable := rt_put ?rt2 (rtable s)\<rparr>"
  have "node_inv (s\<lparr>bihead := id_put (b\<lparr>bi_count := 1\<rparr>) (bihead s)\<rparr>)"
    using node_invD(6) [OF inv] by (intro node_inv_bihead inv) (simp only: ids.put_distinct)
  then have "node_inv ?s1"
    using node_inv_put [of "s\<lparr>bihead := id_put (b\<lparr>bi_count := 1\<rparr>) (bihead s)\<rparr>" ?rt2] e rt(1) by simp
  then show ?thesis
    using inv b fp src e(2,3) entry_okD(7) [OF e(1) rt(2)]
    by (auto simp: rreq_fresh_route_def Let_def safe_if intro!: sendReply_ok)
qed

lemma rreq_propagate_ok:
  assumes inv: "node_inv s" and E: "env_ok E"
    and rt: "rt_lookup (rq_src rq) (rtable s) = Some rt" "rt_flags rt = RTF_UP"
    and p: "msg_wf p" "ih_daddr p = IP_BROADCAST" "ih_sport p = RT_PORT" "ih_dport p = RT_PORT"
    and rq: "even (rq_src_seqno rq)" "rq_src rq \<noteq> IP_BROADCAST" "rq_dst rq \<noteq> IP_BROADCAST"
  shows "safe {} (\<lambda>s'. node_inv s' \<and> same_config s s') (rreq_propagate E p rq s)"
proof -
  note e = table_entry [OF node_invD(3) [OF inv] rt(1)]
  obtain path where path: "path_find rt = Some path"
    using entry_okD(6) [OF e(1)] rt(2) by (cases "path_find rt") auto
  let ?s1 = "s\<lparr>rtable := rt_put (advertise E rt) (rtable s)\<rparr>"
  have "node_inv ?s1" using inv e rt(1) by (auto intro!: node_inv_put)
  moreover have "msg_wf (p\<lparr>ih_saddr := a, hdr := Rreq (rq\<lparr>rq_dst_seqno := n, rq_hop_count := h, rq_first_hop := f\<rparr>)\<rparr>)"
    for a n h f using p rq by (simp add: msg_wf_def)
  ultimately have "safe {} (\<lambda>s'. node_inv s' \<and> same_config s s')
      (forward E None (p\<lparr>ih_saddr := a, hdr := Rreq (rq\<lparr>rq_dst_seqno := n, rq_hop_count := h, rq_first_hop := f\<rparr>)\<rparr>)
        EAMRP_DELAY ?s1)" for a n h f
    using p(2) by (intro safe_mono [OF forward_broadcast_ok [OF _ _ _ E]]) (auto dest: stable_config)
  with rt(1) path show ?thesis
    by (simp add: rreq_propagate_def Let_def)
qed

lemma rreq_answer_ok:
  assumes inv: "node_inv s" and E: "env_ok E"
    and src: "rt_lookup (rq_src rq) (rtable s) = Some rt0" "rt_flags rt0 = RTF_UP"
    and id: "id_get (rq_src rq, rq_bcast_id rq) (bihead s) \<noteq> None"
    and p: "msg_wf p" "ih_daddr p = IP_BROADCAST" "ih_sport p = RT_PORT" "ih_dport p = RT_PORT"
    and rq: "even (rq_src_seqno rq)" "rq_src rq \<noteq> IP_BROADCAST" "rq_dst rq \<noteq> IP_BROADCAST"
  shows "safe {} (\<lambda>s'. node_inv s' \<and> same_config s s') (rreq_answer E p rq kill hr s)"
proof -
  have pr: "safe {} (\<lambda>s'. node_inv s' \<and> same_config s s') (rreq_propagate E p rq s)"
    by (rule rreq_propagate_ok [OF inv E src p rq])
  show ?thesis
  proof (cases "rt_lookup (rq_dst rq) (rtable s)")
    case None
    with pr inv rreq_at_destination_ok [OF inv rq(2), of E p] show ?thesis
      by (simp add: rreq_answer_def safe_if)
  next
    case (Some rt)
    with pr inv rreq_at_destination_ok [OF inv rq(2), of E p]
      rreq_fresh_route_ok [OF inv Some _ id rq(2), of E p hr] show ?thesis
      by (simp add: rreq_answer_def safe_if)
  qed
qed

lemma safe_bindI_Inr:
  "safe F Q m \<Longrightarrow> (\<And>x. m = Inr x \<Longrightarrow> Q x \<Longrightarrow> safe F P (f x)) \<Longrightarrow> safe F P (bindE m f)"
  by (cases m) simp_all

definition hop_fault :: "fault set" where
  "hop_fault = {Assert_failed Hopcount_match}"

text \<open>
  The fault can occur if the message, from \<open>x\<close> about \<open>c\<close> with a number and a hop count,
  contradicts the entry for \<open>c\<close>.
\<close>

definition hop_faults :: "nsaddr \<Rightarrow> nsaddr \<Rightarrow> u32 \<Rightarrow> u8 \<Rightarrow> eamrp \<Rightarrow> fault set" where
  "hop_faults x c n h s = (if \<exists>rt. rt_lookup c (rtable s) = Some rt \<and> wrong_length x n h rt then hop_fault else {})"

lemma hop_faults_hop: "hop_faults x c n h s \<subseteq> hop_fault"
  by (simp add: hop_faults_def)

lemma safe_hop: "safe {} P m \<Longrightarrow> safe F P m"
  by (erule safe_weaken_faults) simp

lemma safe_hop_faults:
  assumes "safe hop_fault P m" and "rt_lookup c (rtable s) = Some rt"
    and "m = Inl (Assert_failed Hopcount_match) \<Longrightarrow> wrong_length x n h rt"
  shows "safe (hop_faults x c n h s) P m"
  using assms by (cases m) (auto simp: hop_faults_def hop_fault_def)

lemma hop_faults_frame: "rtable t = rtable s \<Longrightarrow> hop_faults x c n h t = hop_faults x c n h s"
  by (simp add: hop_faults_def)

text \<open>A new entry has no paths.\<close>

lemma ensure_hop_faults:
  assumes "ensure_rt E d s = Inr t" shows "hop_faults x c n h t \<subseteq> hop_faults x c n h s"
  using assms
  by (auto simp: hop_faults_def ensure_rt_def rt_add_def assertE_def wrong_length_def new_rt_entry_def
      split: option.splits if_splits)

lemma node_inv_put_id:
  "node_inv s \<Longrightarrow> rt_lookup d (rtable s) = Some rt \<Longrightarrow> entry_ok (eamrp_max_paths s) rt1 \<Longrightarrow>
     rt_dst rt1 = rt_dst rt \<Longrightarrow> node_inv (s\<lparr>rtable := rt_put rt1 (rtable s)\<rparr>)"
  by (rule node_inv_put) (auto dest: rtl.lookup_key)

lemma rreq_continue_ok:
  assumes inv: "node_inv s" and E: "env_ok E" and rt: "rt_lookup (rq_src rq) (rtable s) = Some rt"
    and res: "entry_ok (eamrp_max_paths s) rt1" "rt_dst rt1 = rt_dst rt"
      "r \<noteq> Rev_drop \<longrightarrow> rt_flags rt1 = RTF_UP"
    and id: "id_get (rq_src rq, rq_bcast_id rq) (bihead s) \<noteq> None"
    and p: "msg_wf p" "ih_daddr p = IP_BROADCAST" "ih_sport p = RT_PORT" "ih_dport p = RT_PORT"
    and rq: "even (rq_src_seqno rq)" "rq_src rq \<noteq> IP_BROADCAST" "rq_dst rq \<noteq> IP_BROADCAST"
  shows "safe {} (\<lambda>s'. node_inv s' \<and> same_config s s') (rreq_continue E p rq kill (rt1, r) s)"
proof -
  let ?s1 = "s\<lparr>rtable := rt_put rt1 (rtable s)\<rparr>"
  have s1: "node_inv ?s1" by (rule node_inv_put_id [OF inv rt res(1,2)])
  have look: "rt_lookup (rq_src rq) (rtable ?s1) = Some rt1"
    using res(2) rtl.lookup_key [OF rt] rtl.lookup_put_same [of rt1 "rtable s" rt] rt by simp
  have "safe {} (\<lambda>s'. node_inv s' \<and> same_config s s')
      (bindE (flush_buffer E (rq_src rq) ?s1) (rreq_answer E p rq kill hr))" if up: "rt_flags rt1 = RTF_UP" for hr
  proof (rule safe_bindI [OF flush_buffer_ok [OF s1 look]])
    fix s2
    assume s2: "node_inv s2 \<and> stable ?s1 s2"
    then obtain rt2 where "rt_lookup (rq_src rq) (rtable s2) = Some rt2" "rt_flags rt2 = RTF_UP"
      using stable_lookup [OF _ look, of s2] up by auto
    moreover have c: "same_config s s2" "id_get (rq_src rq, rq_bcast_id rq) (bihead s2) \<noteq> None"
      using s2 id by (simp_all add: stable_def)
    ultimately have "safe {} (\<lambda>s'. node_inv s' \<and> same_config s2 s') (rreq_answer E p rq kill hr s2)"
      using s2 by (intro rreq_answer_ok E p rq) simp_all
    then show "safe {} (\<lambda>s'. node_inv s' \<and> same_config s s') (rreq_answer E p rq kill hr s2)"
      by (rule safe_mono) (auto intro: same_config_trans [OF c(1)])
  qed
  with s1 res(3) show ?thesis
    by (cases r) (simp_all add: rreq_continue_def Let_def del: safe_bindE)
qed

lemma rreq_process_ok:
  assumes inv: "node_inv s" and E: "env_ok E" and rt: "rt_lookup (rq_src rq) (rtable s) = Some rt"
    and id: "id_get (rq_src rq, rq_bcast_id rq) (bihead s) \<noteq> None"
    and p: "msg_wf p" "ih_daddr p = IP_BROADCAST" "ih_sport p = RT_PORT" "ih_dport p = RT_PORT"
    and rq: "even (rq_src_seqno rq)" "rq_src_seqno rq \<noteq> 0" "rq_src rq \<noteq> IP_BROADCAST" "rq_dst rq \<noteq> IP_BROADCAST"
  shows "safe (hop_faults (ih_saddr p) (rq_src rq) (rq_src_seqno rq) (rq_hop_count rq) s)
    (\<lambda>s'. node_inv s' \<and> same_config s s') (rreq_process E p rq kill s)"
proof -
  note e = table_entry(1) [OF node_invD(3) [OF inv] rt]
  show ?thesis unfolding rreq_process_def rt option.case
  proof (rule safe_bindI [OF safe_hop_faults [OF rreq_reverse_ok [OF E e rq(1,2), folded hop_fault_def] rt rreq_reverse_hop]])
    fix res
    assume "case res of (rt1, r) \<Rightarrow> entry_ok (eamrp_max_paths s) rt1 \<and> rt_dst rt1 = rt_dst rt
      \<and> (r \<noteq> Rev_drop \<longrightarrow> rt_flags rt1 = RTF_UP)"
    then show "safe (hop_faults (ih_saddr p) (rq_src rq) (rq_src_seqno rq) (rq_hop_count rq) s)
        (\<lambda>s'. node_inv s' \<and> same_config s s') (rreq_continue E p rq kill res s)"
      using rreq_continue_ok [OF inv E rt _ _ _ id p rq(1,3,4)] by (cases res) (auto intro: safe_hop)
  qed
qed

lemma recvRequest_ok:
  assumes inv: "node_inv s" and E: "env_ok E"
    and p: "ih_daddr p = IP_BROADCAST" "ih_sport p = RT_PORT" "ih_dport p = RT_PORT"
    and rq: "even (rq_src_seqno rq0)" "rq_src_seqno rq0 \<noteq> 0"
      "rq_src rq0 \<noteq> IP_BROADCAST" "rq_dst rq0 \<noteq> IP_BROADCAST"
  shows "safe (hop_faults (ih_saddr p) (rq_src rq0) (rq_src_seqno rq0) (rq_hop_count rq0) s)
    (\<lambda>s'. node_inv s' \<and> same_config s s') (recvRequest E p rq0 s)" (is "safe ?F _ _")
proof (cases "rq_src rq0 = index s")
  case True
  with inv show ?thesis by (simp add: recvRequest_def)
next
  case False
  let ?key = "(rq_src rq0, rq_bcast_id rq0)"
  let ?kill = "id_get ?key (bihead s) \<noteq> None"
  let ?s1 = "if ?kill then s else s\<lparr>bihead := id_insert (now E) (rq_src rq0) (rq_bcast_id rq0) (bihead s)\<rparr>"
  let ?rq = "if rq_hop_count rq0 = 0 then rq0\<lparr>rq_first_hop := index s\<rparr> else rq0"
  let ?p = "p\<lparr>hdr := Rreq ?rq\<rparr>"
  have s1: "node_inv ?s1" "same_config s ?s1" "id_get ?key (bihead ?s1) \<noteq> None"
    using inv node_invD(6) [OF inv] id_insert_distinct [of "bihead s"]
    by (auto intro: node_inv_bihead)
  have wf: "msg_wf ?p" using p rq by (simp add: msg_wf_def)
  have src: "rq_src ?rq \<noteq> IP_BROADCAST" using rq by simp
  have rq': "ih_saddr ?p = ih_saddr p" "rq_src ?rq = rq_src rq0" "rq_src_seqno ?rq = rq_src_seqno rq0"
    "rq_hop_count ?rq = rq_hop_count rq0" by simp_all
  have "safe ?F (\<lambda>s'. node_inv s' \<and> same_config s s')
    (bindE (ensure_rt E (rq_src ?rq) ?s1) (rreq_process E ?p ?rq ?kill))"
  proof (rule safe_bindI_Inr [OF safe_hop [OF ensure_rt_ok [OF s1(1) E src]]])
    fix s2
    assume e: "ensure_rt E (rq_src ?rq) ?s1 = Inr s2" and a: "node_inv s2 \<and> (\<exists>rt. rt_lookup (rq_src ?rq) (rtable s2) = Some rt) \<and> same_config ?s1 s2
      \<and> bihead s2 = bihead ?s1 \<and> nbhead s2 = nbhead ?s1 \<and> ifqueue s2 = ifqueue ?s1 \<and> rqueue s2 = rqueue ?s1
      \<and> (\<forall>c rt. rt_lookup c (rtable ?s1) = Some rt \<longrightarrow> rt_lookup c (rtable s2) = Some rt)"
    then obtain rt0 where rt0: "rt_lookup (rq_src ?rq) (rtable s2) = Some rt0" by blast
    have c: "same_config s s2" using a s1(2) by (blast intro: same_config_trans)
    have ok: "safe (hop_faults (ih_saddr ?p) (rq_src ?rq) (rq_src_seqno ?rq) (rq_hop_count ?rq) s2)
        (\<lambda>s'. node_inv s' \<and> same_config s2 s') (rreq_process E ?p ?rq ?kill s2)"
      using a s1(3) p rq by (intro rreq_process_ok [OF _ E rt0 _ wf]) simp_all
    have "hop_faults (ih_saddr p) (rq_src rq0) (rq_src_seqno rq0) (rq_hop_count rq0) s2 \<subseteq> ?F"
    proof -
      have same: "rtable ?s1 = rtable s" by simp
      from ensure_hop_faults [OF e] show ?thesis unfolding hop_faults_frame [OF same] rq' .
    qed
    from safe_weaken_faults [OF ok [unfolded rq'] this]
    show "safe ?F (\<lambda>s'. node_inv s' \<and> same_config s s') (rreq_process E ?p ?rq ?kill s2)"
      by (rule safe_mono) (auto intro: same_config_trans [OF c])
  qed
  with False show ?thesis by (simp only: recvRequest_def Let_def if_False)
qed

section \<open>Route replies\<close>

lemma upd_rt_ok:
  assumes "node_inv s" and "rt_lookup d (rtable s) = Some rt"
    and "entry_ok (eamrp_max_paths s) (f rt)" and "rt_dst (f rt) = rt_dst rt" and "rt_flags (f rt) = rt_flags rt"
  shows "safe {} (\<lambda>s'. node_inv s' \<and> stable s s') (upd_rt d f s)"
  using assms rtl.lookup_key [OF assms(2)]
  by (auto simp: upd_rt_def intro!: node_inv_put_id stable_put [of _ _ rt])

definition route_up :: "nsaddr \<Rightarrow> eamrp \<Rightarrow> bool" where
  "route_up d s \<longleftrightarrow> (\<exists>rt. rt_lookup d (rtable s) = Some rt \<and> rt_flags rt = RTF_UP)"

lemma stable_route_up: "stable s s' \<Longrightarrow> route_up d s \<Longrightarrow> route_up d s'"
  unfolding route_up_def using stable_lookup by metis

lemma route_upE:
  assumes "route_up d s" and "node_inv s"
  obtains rt path where "rt_lookup d (rtable s) = Some rt" "rt_flags rt = RTF_UP"
    "entry_ok (eamrp_max_paths s) rt" "rt_dst rt = d" "path_find rt = Some path"
proof -
  note result = that
  obtain rt where r: "rt_lookup d (rtable s) = Some rt" "rt_flags rt = RTF_UP"
    using assms(1) by (auto simp: route_up_def)
  note e = table_entry [OF node_invD(3) [OF assms(2)] r(1)]
  obtain path where "path_find rt = Some path"
    using entry_okD(6) [OF e(1)] r(2) by (cases "path_find rt") auto
  with r e(1,2) show thesis by (intro result)
qed

lemma upd_route_ok:
  assumes "node_inv s" and "route_up d s"
    and "\<And>rt. entry_ok (eamrp_max_paths s) rt \<Longrightarrow> entry_ok (eamrp_max_paths s) (f rt)"
    and "\<And>rt. rt_dst (f rt) = rt_dst rt" and "\<And>rt. rt_flags (f rt) = rt_flags rt"
  shows "safe {} (\<lambda>s'. node_inv s' \<and> stable s s') (upd_rt d f s)"
  using assms(2,1) by (rule route_upE) (use assms in \<open>auto intro: upd_rt_ok\<close>)

lemma forward_up_ok:
  assumes "node_inv s" and "route_up d s" and "msg_wf p" and "ih_daddr p = d" and "d \<noteq> IP_BROADCAST"
  shows "safe {} (\<lambda>s'. node_inv s' \<and> stable s s') (forward E (Some d) p delay s)"
  using assms(2,1)
proof (rule route_upE)
  fix rt
  assume "rt_lookup d (rtable s) = Some rt" "rt_flags rt = RTF_UP"
  from forward_route_ok [OF assms(1) this assms(3), of E delay] assms(4,5) show ?thesis
    by (auto elim!: safe_mono)
qed

lemma rrep_send_ok:
  assumes inv: "node_inv s" and up: "route_up (rp_dst rp) s" "route_up (ih_daddr p) s"
    and rt: "rt_lookup (rp_dst rp) (rtable s) = Some rt"
    and p: "ch_ptype p = PT_EAMRP" "hdr p = Rrep rp" "msg_wf p"
  shows "safe {} (\<lambda>s'. node_inv s' \<and> stable s s') (rrep_send E p rp rvp rt s)"
proof -
  let ?d = "ih_daddr p"
  obtain fp where fp: "path_find rt = Some fp" using up(1) inv by (rule route_upE) (use rt in auto)
  define p1 where "p1 = put_reply (rp\<lparr>rp_src := index s, rp_hop_count := ucast (rt_advertised_hops rt),
      rp_first_hop := lasthop fp\<rparr>) (p\<lparr>ch_addr_type := AF_INET E, ch_next_hop := nexthop rvp,
      ch_xmit_failure := Some Eamrp_rt_failed_callback\<rparr>)"
  have p1: "msg_wf p1" "ih_daddr p1 = ?d" "?d \<noteq> IP_BROADCAST"
    using p by (simp_all add: p1_def msg_wf_def put_reply_def)
  have "safe {} (\<lambda>s'. node_inv s' \<and> stable s s')
    (bindE (upd_rt ?d (set_head_expire (now E + ACTIVE_ROUTE_TIMEOUT)) s) (\<lambda>s1.
     bindE (upd_rt (rp_dst rp) (\<lambda>r. r\<lparr>rt_error := True\<rparr>) s1) (forward E (Some ?d) p1 NO_EAMRP_DELAY)))"
  proof (rule safe_bindI [OF upd_route_ok [OF inv up(2)]])
    fix s1
    assume s1: "node_inv s1 \<and> stable s s1"
    show "safe {} (\<lambda>s'. node_inv s' \<and> stable s s')
      (bindE (upd_rt (rp_dst rp) (\<lambda>r. r\<lparr>rt_error := True\<rparr>) s1) (forward E (Some ?d) p1 NO_EAMRP_DELAY))"
    proof (rule safe_bindI [OF upd_route_ok])
      fix s2
      assume "node_inv s2 \<and> stable s1 s2"
      then have "node_inv s2" "stable s s2" using s1 stable_trans by blast+
      with forward_up_ok [of s2 ?d p1 E NO_EAMRP_DELAY] stable_route_up [of s s2, OF _ up(2)] p1
      show "safe {} (\<lambda>s'. node_inv s' \<and> stable s s') (forward E (Some ?d) p1 NO_EAMRP_DELAY s2)"
        by (auto elim!: safe_mono intro: stable_trans)
    qed (use s1 up stable_route_up in auto)
  qed auto
  then show ?thesis using fp by (simp add: rrep_send_def Let_def p1_def del: safe_bindE)
qed

lemma rrep_relay_ok:
  assumes inv: "node_inv s" and up: "route_up (rp_dst rp) s"
    and p: "ch_ptype p = PT_EAMRP" "hdr p = Rrep rp" "msg_wf p"
  shows "safe {} (\<lambda>s'. node_inv s' \<and> same_config s s' \<and>
      (\<forall>b. route_up (ih_daddr p) s \<and> id_get (ih_daddr p, rp_bcast_id rp) (bihead s) = Some b \<and> bi_count b = 0 \<longrightarrow>
        id_get (ih_daddr p, rp_bcast_id rp) (bihead s') = Some (b\<lparr>bi_count := 1\<rparr>))) (rrep_relay E p rp s)"
proof -
  let ?d = "ih_daddr p"
  let ?P = "\<lambda>s'. node_inv s' \<and> same_config s s' \<and>
      (\<forall>b. route_up ?d s \<and> id_get (?d, rp_bcast_id rp) (bihead s) = Some b \<and> bi_count b = 0 \<longrightarrow>
        id_get (?d, rp_bcast_id rp) (bihead s') = Some (b\<lparr>bi_count := 1\<rparr>))"
  consider (free) "rrep_relay E p rp s = Inr (emit (Freed p) s)"
      "\<not> (\<exists>b. route_up ?d s \<and> id_get (?d, rp_bcast_id rp) (bihead s) = Some b \<and> bi_count b = 0)"
    | (send) rt0 b where "rt_lookup ?d (rtable s) = Some rt0" "id_get (?d, rp_bcast_id rp) (bihead s) = Some b"
      "rt_flags rt0 = RTF_UP" "bi_count b = 0"
    by (cases "rt_lookup ?d (rtable s)"; cases "id_get (?d, rp_bcast_id rp) (bihead s)")
      (fastforce simp: rrep_relay_def route_up_def)+
  then show ?thesis
  proof cases
    case free
    with inv show ?thesis by auto
  next
    case send
    let ?s0 = "s\<lparr>bihead := id_put (b\<lparr>bi_count := 1\<rparr>) (bihead s)\<rparr>"
    have s0: "node_inv ?s0" "same_config s ?s0"
      using node_invD(6) [OF inv] by (intro node_inv_bihead inv) (simp_all only: ids.put_distinct same_config_frame)
    have up0: "route_up (rp_dst rp) ?s0" "route_up ?d ?s0" using up send(1,3) by (simp_all add: route_up_def)
    obtain rvp where rvp: "path_find rt0 = Some rvp"
      using entry_okD(6) [OF table_entry(1) [OF node_invD(3) [OF inv] send(1)]] send(3)
      by (cases "path_find rt0") auto
    have "safe {} ?P (bindE (upd_rt (rp_dst rp) (advertise E) ?s0) (\<lambda>s1.
        case rt_lookup (rp_dst rp) (rtable s1) of None \<Rightarrow> Inl Null_deref
        | Some rt \<Rightarrow> rrep_send E p rp rvp rt s1))"
    proof (rule safe_bindI [OF upd_route_ok [OF s0(1) up0(1)]])
      fix s1
      assume s1: "node_inv s1 \<and> stable ?s0 s1"
      then have up1: "route_up (rp_dst rp) s1" "route_up ?d s1" using up0 stable_route_up by blast+
      obtain rt1 where r: "rt_lookup (rp_dst rp) (rtable s1) = Some rt1"
        using up1(1) by (auto simp: route_up_def)
      have "same_config s s1" using s0(2) s1 stable_config same_config_trans by blast
      moreover have "bihead s1 = bihead ?s0" using s1 by (simp add: stable_def)
      moreover have "id_get (?d, rp_bcast_id rp) (bihead ?s0) = Some (b\<lparr>bi_count := 1\<rparr>)"
        using ids.lookup_put_same [of "b\<lparr>bi_count := 1\<rparr>" "bihead s" b] send(2)
          ids.lookup_key [OF send(2)] by simp
      ultimately have c: "same_config s s1"
        "id_get (?d, rp_bcast_id rp) (bihead s1) = Some (b\<lparr>bi_count := 1\<rparr>)" by simp_all
      with rrep_send_ok [OF conjunct1 [OF s1] up1 r p, of E rvp] r
      show "safe {} ?P (case rt_lookup (rp_dst rp) (rtable s1) of None \<Rightarrow> Inl Null_deref
        | Some rt \<Rightarrow> rrep_send E p rp rvp rt s1)"
        using send(2) by (auto simp: stable_def elim!: safe_mono intro: same_config_trans)
    qed auto
    with send rvp show ?thesis by (simp add: rrep_relay_def del: safe_bindE)
  qed
qed

lemma rrep_process_ok:
  assumes inv: "node_inv s" and E: "env_ok E" and rt: "rt_lookup (rp_dst rp) (rtable s) = Some rt"
    and rp: "even (rp_dst_seqno rp)" "rp_dst_seqno rp \<noteq> 0"
    and p: "ih_daddr p = index s \<or> ch_ptype p = PT_EAMRP \<and> hdr p = Rrep rp \<and> msg_wf p"
  shows "safe (hop_faults (rp_src rp) (rp_dst rp) (rp_dst_seqno rp) (rp_hop_count rp) s)
    (\<lambda>s'. node_inv s' \<and> same_config s s') (rrep_process E p rp s)" (is "safe ?F _ _")
  unfolding rrep_process_def rt option.case
proof (rule safe_bindI2 [OF safe_hop_faults [OF rrep_forward_path_ok [OF E _ rp, folded hop_fault_def] rt rrep_forward_path_hop]])
  show "entry_ok (eamrp_max_paths s) rt" by (rule table_entry(1) [OF node_invD(3) [OF inv] rt])
  fix rt1 acc
  assume a: "entry_ok (eamrp_max_paths s) rt1 \<and> rt_dst rt1 = rt_dst rt \<and> (acc \<longrightarrow> rt_flags rt1 = RTF_UP)"
  let ?s1 = "s\<lparr>rtable := rt_put rt1 (rtable s)\<rparr>"
  have s1: "node_inv ?s1" using node_inv_put_id [OF inv rt] a by blast
  have look: "rt_lookup (rp_dst rp) (rtable ?s1) = Some rt1"
    using a rtl.lookup_key [OF rt] rtl.lookup_put_same [of rt1 "rtable s" rt] rt by simp
  have "safe {} (\<lambda>s'. node_inv s' \<and> same_config s s')
    (bindE (flush_buffer E (rp_dst rp) ?s1) (\<lambda>s2.
       if ih_daddr p = index s then Inr (emit (Freed p) s2) else rrep_relay E p rp s2))"
    if acc
  proof (rule safe_bindI [OF flush_buffer_ok [OF s1 look]])
    fix s2
    assume s2: "node_inv s2 \<and> stable ?s1 s2"
    have "route_up (rp_dst rp) ?s1" using look a that by (simp add: route_up_def)
    then have up: "route_up (rp_dst rp) s2" using s2 stable_route_up by blast
    have c: "same_config s s2" using stable_config [OF conjunct2 [OF s2]] by simp
    show "safe {} (\<lambda>s'. node_inv s' \<and> same_config s s')
      (if ih_daddr p = index s then Inr (emit (Freed p) s2) else rrep_relay E p rp s2)"
    proof (cases "ih_daddr p = index s")
      case True
      with s2 c show ?thesis by simp
    next
      case False
      with p rrep_relay_ok [OF conjunct1 [OF s2] up, of p E] c show ?thesis
        by (auto elim!: safe_mono intro: same_config_trans)
    qed
  qed
  with s1 show "safe ?F (\<lambda>s'. node_inv s' \<and> same_config s s') (rrep_continue E p rp (rt1, acc) s)"
    by (auto simp: rrep_continue_def Let_def intro: safe_hop simp del: safe_bindE)
qed

lemma recvReply_ok:
  assumes inv: "node_inv s" and E: "env_ok E"
    and rp: "even (rp_dst_seqno rp)" "rp_dst_seqno rp \<noteq> 0" "rp_dst rp \<noteq> IP_BROADCAST"
    and p: "ih_daddr p = index s \<or> ch_ptype p = PT_EAMRP \<and> hdr p = Rrep rp \<and> msg_wf p"
  shows "safe (hop_faults (rp_src rp) (rp_dst rp) (rp_dst_seqno rp) (rp_hop_count rp) s)
    (\<lambda>s'. node_inv s' \<and> same_config s s') (recvReply E p rp s)" (is "safe ?F _ _")
proof (cases "rp_dst rp = index s")
  case True
  with inv show ?thesis by (simp add: recvReply_def)
next
  case False
  have "safe ?F (\<lambda>s'. node_inv s' \<and> same_config s s')
    (bindE (ensure_rt E (rp_dst rp) s) (rrep_process E p rp))"
  proof (rule safe_bindI_Inr [OF safe_hop [OF ensure_rt_ok [OF inv E rp(3)]]])
    fix s1
    assume e: "ensure_rt E (rp_dst rp) s = Inr s1" and a: "node_inv s1 \<and> (\<exists>rt. rt_lookup (rp_dst rp) (rtable s1) = Some rt) \<and> same_config s s1
      \<and> bihead s1 = bihead s \<and> nbhead s1 = nbhead s \<and> ifqueue s1 = ifqueue s \<and> rqueue s1 = rqueue s
      \<and> (\<forall>c rt. rt_lookup c (rtable s) = Some rt \<longrightarrow> rt_lookup c (rtable s1) = Some rt)"
    then obtain rt where rt: "rt_lookup (rp_dst rp) (rtable s1) = Some rt" by blast
    have "index s1 = index s" using a by (blast dest: same_configD(1))
    with safe_weaken_faults [OF rrep_process_ok [OF conjunct1 [OF a] E rt rp(1,2), of p] ensure_hop_faults [OF e]] p a
    show "safe ?F (\<lambda>s'. node_inv s' \<and> same_config s s') (rrep_process E p rp s1)"
      by (auto elim!: safe_mono intro: same_config_trans)
  qed
  with False show ?thesis by (simp add: recvReply_def del: safe_bindE)
qed

end
