(* ===== verification/RecvInv.thy ===== *)
theory RecvInv
  imports HandlerInv
begin

text \<open>
  The node invariant is kept by route errors, hellos, the dispatch of received packets and
  the timers. Together with \<^theory_text>\<open>HandlerInv\<close> this covers every entry point of the agent. The
  offers of a message say which of them may run into the hop count assertion, and in what state.
\<close>

section \<open>Route errors\<close>

lemma odd_or_zero_max2: "odd_or_zero a \<Longrightarrow> odd_or_zero b \<Longrightarrow> odd_or_zero (max a b)"
  by (simp add: max_def)

lemma heard_down_ok:
  assumes "entry_ok m rt" and "rt_flags rt = RTF_UP" and "odd_or_zero h"
  shows "entry_ok m (rt_down E ((path_delete a rt)\<lparr>rt_highest_seqno_heard := h, rt_seqno := h\<rparr>))"
    and "entry_ok m ((rt_down E ((path_delete a rt)\<lparr>rt_highest_seqno_heard := h, rt_seqno := h\<rparr>))\<lparr>rt_error := e\<rparr>)"
  using assms by (auto simp: rt_down_def entry_defs paths_ok_def path_delete_all_def)

lemma rerr_entry_ok:
  assumes ok: "entry_ok m rt" and re: "re_ok nre" and sq: "odd_or_zero sq"
    and F: "unat (DestCount nre) < EAMRP_MAX_ERRORS"
  shows "safe {} (\<lambda>(nre', rt'). re_ok nre' \<and> unat (DestCount nre') \<le> Suc (unat (DestCount nre))
      \<and> entry_ok m rt' \<and> rt_dst rt' = rt_dst rt) (rerr_entry E from sq nre rt)"
proof (cases "rt_flags rt = RTF_UP \<and> path_lookup from rt \<noteq> None \<and> rt_seqno rt \<le> sq")
  case False
  then show ?thesis using ok re by (auto simp: rerr_entry_def)
next
  case up: True
  let ?h = "max (rt_highest_seqno_heard rt) sq"
  let ?rt2 = "(path_delete from rt)\<lparr>rt_highest_seqno_heard := ?h\<rparr>"
  note ev = entry_okD(7) [OF ok] and p = paths_ok_delete [OF entry_okD(1) [OF ok], of "from"]
  have h: "odd_or_zero ?h" using entry_okD(10) [OF ok] sq by (rule odd_or_zero_max2)
  have "paths_ok ?rt2" using p by (simp add: paths_ok_def)
  from path_empty_ok [OF this]
  have e: "path_empty ?rt2 = Inr (rt_path_list (path_delete from rt) = [])" by simp
  show ?thesis
  proof (cases "rt_path_list (path_delete from rt) = []")
    case False
    with up ev e re entry_ok_heard [OF path_delete_ok [OF ok False] h] show ?thesis
      by (simp add: rerr_entry_def Let_def)
  next
    case True
    note down = heard_down_ok [OF ok conjunct1 [OF up] h, where E = E and a = "from"]
    have "safe {} (\<lambda>re'. re_ok re' \<and> unat (DestCount re') = Suc (unat (DestCount nre)))
        (re_push (rt_dst rt) ?h nre)" using re_push_ok [OF re h] F by simp
    then have "safe {} (\<lambda>re'. re_ok re' \<and> unat (DestCount re') \<le> Suc (unat (DestCount nre)))
        (re_push (rt_dst rt) ?h nre)" by (rule safe_mono) simp
    with up ev True e re down(1) down(2) [of False] show ?thesis
      by (auto simp: rerr_entry_def Let_def safe_if elim!: safe_mono)
  qed
qed

lemma rerr_step_ok:
  assumes s: "node_inv s" and re: "re_ok re" and nre: "re_ok nre"
    and i: "i < unat (DestCount re)" "unat (DestCount nre) \<le> i"
  shows "safe {} (\<lambda>(nre', s'). node_inv s' \<and> same_config s s' \<and> re_ok nre' \<and> unat (DestCount nre') \<le> Suc i
      \<and> map rt_dst (rtable s') = map rt_dst (rtable s) \<and> nbhead s' = nbhead s \<and> bihead s' = bihead s)
    (rerr_step E from re i (nre, s))"
proof -
  let ?d = "unreachable_dst re ! i" and ?sq = "unreachable_dst_seqno re ! i"
  have get: "re_get re i = Inr (?d, ?sq)" and lt: "unat (DestCount nre) < EAMRP_MAX_ERRORS"
    and sq: "odd_or_zero ?sq"
    using re i by (auto simp: re_get_def re_ok_def)
  show ?thesis
  proof (cases "rt_lookup ?d (rtable s)")
    case None
    with get s nre i show ?thesis by (simp add: rerr_step_def)
  next
    case (Some rt)
    note e = table_entry [OF node_invD(3) [OF s] Some]
    have "safe {} (\<lambda>(nre', rt'). re_ok nre' \<and> unat (DestCount nre') \<le> Suc (unat (DestCount nre))
      \<and> entry_ok (eamrp_max_paths s) rt' \<and> rt_dst rt' = rt_dst rt) (rerr_entry E from ?sq nre rt)"
      by (rule rerr_entry_ok [OF e(1) nre sq lt])
    with get Some i node_inv_put_id [OF s Some] show ?thesis
      by (auto simp: rerr_step_def elim!: safe_mono)
  qed
qed

lemma recvError_ok:
  assumes inv: "node_inv s" and E: "env_ok E" and re: "re_ok re"
  shows "safe {} (\<lambda>s'. node_inv s' \<and> same_config s s') (recvError E p re s)"
proof -
  let ?I = "\<lambda>i (nre, t). node_inv t \<and> same_config s t \<and> re_ok nre \<and> unat (DestCount nre) \<le> i"
  have "safe {} (?I (unat (DestCount re)))
      (foldE (rerr_step E (ih_saddr p) re) [0..<unat (DestCount re)] (re_empty, s))"
  proof (rule safe_foldE_upt)
    fix i x
    assume i: "i < unat (DestCount re)" and x: "?I i x"
    obtain nre t where [simp]: "x = (nre, t)" by (cases x)
    from x rerr_step_ok [OF _ re _ i, of t nre E "ih_saddr p"]
    show "safe {} (?I (Suc i)) (rerr_step E (ih_saddr p) re i x)"
      by (auto elim!: safe_mono intro: same_config_trans)
  qed (simp add: inv)
  then show ?thesis unfolding recvError_def
    by (rule safe_bindI) (auto intro: sendError_ok [OF _ _ E])
qed

section \<open>Hellos\<close>

lemma nb_put_distinct: "distinct (map nb_addr nbs) \<Longrightarrow> distinct (map nb_addr (nb_put nb nbs))"
  by (simp only: nbs.put_distinct)

lemma recvHello_ok:
  assumes inv: "node_inv s" and E: "env_ok E"
    and rp: "even (rp_dst_seqno rp)" "rp_dst_seqno rp \<noteq> 0" "rp_dst rp \<noteq> IP_BROADCAST"
  shows "safe (hop_faults (ih_saddr p) (rp_dst rp) (rp_dst_seqno rp) (rp_hop_count rp) s)
    (\<lambda>s'. node_inv s' \<and> same_config s s') (recvHello E p rp s)" (is "safe ?F _ _")
proof -
  define s1 where "s1 = (case nb_lookup (rp_dst rp) s of
      None \<Rightarrow> nb_insert E (rp_dst rp) s
    | Some nb \<Rightarrow> s\<lparr>nbhead := nb_put (nb\<lparr>nb_expire :=
        now E + 15 / 10 * ALLOWED_HELLO_LOSS * HELLO_INTERVAL\<rparr>) (nbhead s)\<rparr>)"
  have "node_inv s1" and c: "same_config s s1"
    using node_invD(5) [OF inv]
    by (auto simp: s1_def nb_insert_def intro!: node_inv_nbhead inv nb_put_distinct nb_upsert_distinct
        split: option.splits)
  moreover have "index s1 = index s" using c by (rule same_configD)
  moreover have "rtable s1 = rtable s" by (simp add: s1_def nb_insert_def split: option.split)
  then have "hop_faults x d n h s1 = hop_faults x d n h s" for x d n h by (rule hop_faults_frame)
  ultimately have "safe ?F (\<lambda>s'. node_inv s' \<and> same_config s1 s')
    (recvReply E (put_reply (rp\<lparr>rp_src := ih_saddr p, rp_first_hop := index s\<rparr>) (p\<lparr>ih_daddr := index s\<rparr>))
       (rp\<lparr>rp_src := ih_saddr p, rp_first_hop := index s\<rparr>) s1)"
    using rp recvReply_ok [OF _ E, of s1 "rp\<lparr>rp_src := ih_saddr p, rp_first_hop := index s\<rparr>"]
    by (simp add: put_reply_def)
  then have "safe ?F (\<lambda>s'. node_inv s' \<and> same_config s s')
    (recvReply E (put_reply (rp\<lparr>rp_src := ih_saddr p, rp_first_hop := index s\<rparr>) (p\<lparr>ih_daddr := index s\<rparr>))
       (rp\<lparr>rp_src := ih_saddr p, rp_first_hop := index s\<rparr>) s1)"
    by (rule safe_mono) (auto intro: same_config_trans [OF c])
  moreover have "index s1 = index s" by fact
  ultimately show ?thesis
    by (simp add: recvHello_def Let_def s1_def [symmetric])
qed

section \<open>Dispatch\<close>

text \<open>
  A message that can become a path is an offer: its sender says that it has a route to a
  destination with some sequence number and some number of hops.
\<close>

type_synonym offer = "nsaddr \<times> nsaddr \<times> u32 \<times> u8"

definition offers :: "packet \<Rightarrow> offer set" where
  "offers p = (if ch_ptype p \<noteq> PT_EAMRP then {}
     else (case hdr p of
        Rreq rq \<Rightarrow> {(ih_saddr p, rq_src rq, rq_src_seqno rq, rq_hop_count rq)}
      | Rrep rp \<Rightarrow> {(rp_src rp, rp_dst rp, rp_dst_seqno rp, rp_hop_count rp)}
      | Hello rp \<Rightarrow> {(ih_saddr p, rp_dst rp, rp_dst_seqno rp, rp_hop_count rp)}
      | _ \<Rightarrow> {}))"

lemma offers_data [simp]: "ch_ptype p \<noteq> PT_EAMRP \<Longrightarrow> offers p = {}"
  by (simp add: offers_def)

lemma offers_ttl [simp]: "offers (p\<lparr>ih_ttl := t\<rparr>) = offers p"
  by (simp add: offers_def split: hdr_all_eamrp.split)

definition msg_faults :: "packet \<Rightarrow> eamrp \<Rightarrow> fault set" where
  "msg_faults p s = (\<Union>(x, c, n, h)\<in>offers p. hop_faults x c n h s)"

lemma msg_faults_hop: "msg_faults p s \<subseteq> hop_fault"
  unfolding msg_faults_def using hop_faults_hop by blast

lemma recvEAMRP_ok:
  assumes inv: "node_inv s" and E: "env_ok E"
    and p: "ch_ptype p = PT_EAMRP" "msg_wf p" "msg_live p"
  shows "safe (msg_faults p s) (\<lambda>s'. node_inv s' \<and> same_config s s') (recvEAMRP E p s)"
proof -
  have ports: "ih_sport p = RT_PORT" "ih_dport p = RT_PORT" using p by (simp_all add: msg_wf_def)
  show ?thesis
  proof (cases "hdr p")
    case (Rreq rq)
    with p recvRequest_ok [OF inv E _ ports, of rq] ports show ?thesis
      by (simp add: recvEAMRP_def msg_wf_def msg_live_def msg_faults_def offers_def)
  next
    case (Rrep rp)
    with p recvReply_ok [OF inv E, of rp p] ports show ?thesis
      by (simp add: recvEAMRP_def msg_wf_def msg_live_def msg_faults_def offers_def)
  next
    case (Hello rp)
    with p recvHello_ok [OF inv E, of rp p] ports show ?thesis
      by (simp add: recvEAMRP_def msg_wf_def msg_live_def msg_faults_def offers_def)
  next
    case (Rerr re)
    with p recvError_ok [OF inv E, of re p] ports show ?thesis
      by (simp add: recvEAMRP_def msg_wf_def msg_live_def safe_hop)
  next
    case (Raw t)
    with p show ?thesis by (simp add: msg_wf_def)
  qed
qed

lemma recv_deliver_ok:
  assumes inv: "node_inv s" and E: "env_ok E" and p: "ch_ptype p \<noteq> PT_EAMRP"
  shows "safe {} (\<lambda>s'. node_inv s' \<and> same_config s s') (recv_deliver E p s)"
proof (cases "ih_daddr p = IP_BROADCAST")
  case True
  with forward_broadcast_ok [OF inv _ _ E, of p NO_EAMRP_DELAY] p show ?thesis
    by (auto simp: recv_deliver_def elim!: safe_mono intro: stable_config)
next
  case False
  with rt_resolve_ok [OF inv E False p] show ?thesis by (simp add: recv_deliver_def)
qed

lemma msg_frame_ttl [simp]:
  "msg_live (p\<lparr>ih_ttl := t\<rparr>) = msg_live p" "ch_ptype (p\<lparr>ih_ttl := t\<rparr>) = ch_ptype p"
  by (simp_all add: msg_live_def)

lemma recv_msg_ok:
  assumes inv: "node_inv s" and E: "env_ok E" and p: "msg_wf p" "msg_live p"
  shows "safe (msg_faults p s) (\<lambda>s'. node_inv s' \<and> same_config s s') (recv E p s)"
proof (cases "ch_ptype p = PT_EAMRP")
  case True
  with recvEAMRP_ok [OF inv E, of "p\<lparr>ih_ttl := ih_ttl p - 1\<rparr>"] p node_invD(8) [OF inv]
  show ?thesis by (simp add: recv_def msg_faults_def)
next
  case False
  have "safe (msg_faults p s) (\<lambda>s'. node_inv s' \<and> same_config s s') (recv_deliver E q s)"
    if "ch_ptype q = ch_ptype p" for q
    using recv_deliver_ok [OF inv E, of q] that False by (simp add: safe_hop)
  with False inv node_invD(8) [OF inv] show ?thesis
    by (auto simp: recv_def Let_def safe_if)
qed

lemma recv_ok:
  assumes "node_inv s" and "env_ok E" and "msg_wf p" "msg_live p"
  shows "safe hop_fault (\<lambda>s'. node_inv s' \<and> same_config s s') (recv E p s)"
  by (rule safe_weaken_faults [OF recv_msg_ok [OF assms] msg_faults_hop])

end
