(* ===== verification/TimerInv.thy ===== *)
theory TimerInv
  imports RecvInv
begin

text \<open>
  The node invariant is kept by the routing table purge and the timers, and the machine
  whose steps are the entry points of the agent.
\<close>

section \<open>Emptying the buffer for a destination\<close>

lemma rq_pkts_update_id: "rq_limit (q' :: eamrp_rqueue) = rq_limit q \<Longrightarrow> rq_timeout q' = rq_timeout q \<Longrightarrow>
    q\<lparr>rq_pkts := rq_pkts q'\<rparr> = q'"
  by (cases q; cases q') simp

text \<open>
  \<^verbatim>\<open>while (p = rqueue.deque(d)) drop(p, why)\<close> drops the live packets for \<open>d\<close> in order; the
  others stay, and the timed-out ones vanish.
\<close>

lemma drain_drop_exact:
  defines "live \<equiv> \<lambda>E s. filter (\<lambda>p. \<not> rq_aged (now E) p) (rq_pkts (rqueue s))"
  shows "length (rq_pkts (rqueue s)) \<le> n \<Longrightarrow>
    drain n (now E) d (\<lambda>p (u, t). Inr (u, emit (Dropped p why) t)) (u, s) =
      Inr (u, s\<lparr>rqueue := (rqueue s)\<lparr>rq_pkts := filter (\<lambda>p. ih_daddr p \<noteq> d) (live E s)\<rparr>,
                out := out s @ map (\<lambda>p. Dropped p why) (filter (\<lambda>p. ih_daddr p = d) (live E s))\<rparr>)"
proof (induction n arbitrary: s)
  case 0
  then have "rq_deque_dst (now E) d (rqueue s) = (None, rqueue s)"
    by (simp add: rq_deque_dst_def Let_def rq_purge_def remove_all_loop_filter)
  with 0 show ?case by (subst drain.simps) (simp add: live_def)
next
  case (Suc n)
  obtain r q where r: "rq_deque_dst (now E) d (rqueue s) = (r, q)"
    by (cases "rq_deque_dst (now E) d (rqueue s)")
  have q: "(rqueue s)\<lparr>rq_pkts := rq_pkts q\<rparr> = q"
    by (rule rq_pkts_update_id) (simp_all add: rq_deque_dst_frame [OF r])
  show ?case
  proof (cases r)
    case None
    note f = sb.deq_None [OF r [unfolded None]]
    have "filter (\<lambda>p. ih_daddr p = d) (live E s) = []"
      "filter (\<lambda>p. ih_daddr p \<noteq> d) (live E s) = rq_pkts q"
      using f by (auto simp: live_def filter_empty_conv intro: filter_cong)
    with r None q show ?thesis by (subst drain.simps) simp
  next
    case (Some p)
    let ?s1 = "emit (Dropped p why) (s\<lparr>rqueue := q\<rparr>)"
    have "length (rq_pkts q) \<le> n" using sb.deq_shrinks r Some Suc.prems by fastforce
    then have IH: "drain n (now E) d (\<lambda>p (u, t). Inr (u, emit (Dropped p why) t)) (u, ?s1) =
      Inr (u, ?s1\<lparr>rqueue := (rqueue ?s1)\<lparr>rq_pkts := filter (\<lambda>p. ih_daddr p \<noteq> d) (live E ?s1)\<rparr>,
        out := out ?s1 @ map (\<lambda>p. Dropped p why) (filter (\<lambda>p. ih_daddr p = d) (live E ?s1))\<rparr>)"
      by (intro Suc.IH) simp
    have l: "live E ?s1 = rq_pkts q" using sb.deq_live [OF r] by (simp add: live_def filter_id_conv)
    note o = sb.deq_Some_order [OF r [unfolded Some], folded live_def]
    have "filter (\<lambda>p. ih_daddr p = d) (live E s) = p # filter (\<lambda>p. ih_daddr p = d) (rq_pkts q)"
      "filter (\<lambda>p. ih_daddr p \<noteq> d) (live E s) = filter (\<lambda>p. ih_daddr p \<noteq> d) (rq_pkts q)"
      using o by (simp_all add: live_def)
    moreover have q2: "q\<lparr>rq_pkts := x\<rparr> = (rqueue s)\<lparr>rq_pkts := x\<rparr>" for x
      using rq_deque_dst_frame [OF r] by (cases q; cases "rqueue s") simp
    ultimately show ?thesis using r Some IH l
      by (subst drain.simps) (simp add: emit_def q2)
  qed
qed

lemma drain_drop_eq:
  "drain_drop E d why s =
     (let live = filter (\<lambda>p. \<not> rq_aged (now E) p) (rq_pkts (rqueue s))
      in Inr (s\<lparr>rqueue := (rqueue s)\<lparr>rq_pkts := filter (\<lambda>p. ih_daddr p \<noteq> d) live\<rparr>,
                out := out s @ map (\<lambda>p. Dropped p why) (filter (\<lambda>p. ih_daddr p = d) live)\<rparr>))"
  unfolding drain_drop_def drain_all_def drain_drop_exact [OF order_refl] by (simp add: Let_def)

section \<open>Purging the table\<close>

lemma path_purge_frame [simp]:
  "rt_dst (path_purge clock rt) = rt_dst rt" "rt_flags (path_purge clock rt) = rt_flags rt"
  "rt_seqno (path_purge clock rt) = rt_seqno rt"
  "rt_highest_seqno_heard (path_purge clock rt) = rt_highest_seqno_heard rt"
  by (simp_all add: path_purge_filter)

lemma path_purge_ok:
  assumes ok: "entry_ok m rt" and ne: "rt_path_list (path_purge clock rt) \<noteq> []"
  shows "entry_ok m (path_purge clock rt)"
proof -
  have "int (length (filter (\<lambda>p. \<not> path_expire p < clock) (rt_path_list rt)))
      \<le> int (length (rt_path_list rt))" by simp
  then have "int (length (filter (\<lambda>p. \<not> path_expire p < clock) (rt_path_list rt))) \<le> max 1 m"
    using ok unfolding entry_ok_def by linarith
  moreover have "rt_path_list rt \<noteq> []" using ne by (auto simp: path_purge_filter)
  ultimately show ?thesis using ok ne paths_ok_purge [OF entry_okD(1) [OF ok], of clock]
    by (auto simp: entry_defs path_purge_filter)
qed

lemma path_purge_down_ok:
  assumes "entry_ok m rt" and "rt_flags rt = RTF_UP" and "odd_or_zero n"
  shows "entry_ok m (rt_down E ((path_purge clock rt)\<lparr>rt_seqno := n\<rparr>))"
  using assms by (auto simp: rt_down_def entry_defs paths_ok_def path_delete_all_def path_purge_filter)

lemma rt_put_put [simp]: "rt_dst a = rt_dst b \<Longrightarrow> rt_put a (rt_put b t) = rt_put a t"
  by (induction t) auto

lemma event_ok_drops: "e \<in> set (map (\<lambda>p. Dropped p why) ps) \<Longrightarrow> event_ok e"
  by auto

lemma buffer_ok_filter:
  assumes "buffer_ok q" and "set ps \<subseteq> set (rq_pkts q)" and "length ps \<le> length (rq_pkts q)"
  shows "buffer_ok (q\<lparr>rq_pkts := ps\<rparr>)"
  using assms by (auto simp: buffer_ok_def rq_len_def)

text \<open>The branch that takes an expired route down.\<close>

lemma purge_down_ok:
  assumes inv: "node_inv s" and rt: "rt_lookup d (rtable s) = Some rt" and up: "rt_flags rt = RTF_UP"
    and g: "\<And>r. odd_or_zero (g r)"
  shows "safe {} (\<lambda>s'. node_inv s' \<and> same_config s s' \<and> map rt_dst (rtable s') = map rt_dst (rtable s))
    (bindE (drain_drop E d why (s\<lparr>rtable := rt_put (path_purge (now E) rt) (rtable s)\<rparr>))
      (upd_rt d (\<lambda>r. rt_down E (r\<lparr>rt_seqno := g r\<rparr>))))"
proof -
  note e = table_entry [OF node_invD(3) [OF inv] rt]
  let ?rt1 = "path_purge (now E) rt"
  let ?rt2 = "rt_down E (?rt1\<lparr>rt_seqno := g ?rt1\<rparr>)"
  let ?t = "rt_put ?rt1 (rtable s)"
  let ?live = "filter (\<lambda>p. \<not> rq_aged (now E) p) (rq_pkts (rqueue s))"
  let ?q = "(rqueue s)\<lparr>rq_pkts := filter (\<lambda>p. ih_daddr p \<noteq> d) ?live\<rparr>"
  let ?out = "out s @ map (\<lambda>p. Dropped p why) (filter (\<lambda>p. ih_daddr p = d) ?live)"
  have look: "rt_lookup d ?t = Some ?rt1"
    using rtl.lookup_put_same [of ?rt1 "rtable s" rt] rt e(2) by simp
  have len: "length (filter (\<lambda>p. ih_daddr p \<noteq> d) ?live) \<le> length (rq_pkts (rqueue s))"
    by (rule order_trans [OF length_filter_le length_filter_le])
  have ok2: "entry_ok (eamrp_max_paths s) ?rt2" by (rule path_purge_down_ok [OF e(1) up g])
  then have inv2: "node_inv (s\<lparr>rtable := rt_put ?rt2 (rtable s)\<rparr>)" by (rule node_inv_put_id [OF inv rt]) simp
  have "buffer_ok ?q" using node_invD(4) [OF inv] len by (intro buffer_ok_filter) auto
  with inv2 have "node_inv (s\<lparr>rqueue := ?q, out := ?out, rtable := rt_put ?rt2 (rtable s)\<rparr>)"
    unfolding node_inv_def by auto
  then show ?thesis using look e(2)
    by (simp add: drain_drop_eq upd_rt_def Let_def same_config_def)
qed

lemma rt_purge_expired_ok:
  assumes inv: "node_inv s" and rt: "rt_lookup d (rtable s) = Some rt"
    and up: "rt_flags rt = RTF_UP" "rt_expire rt < now E"
  shows "safe {} (\<lambda>(dl, s'). node_inv s' \<and> same_config s s' \<and> map rt_dst (rtable s') = map rt_dst (rtable s))
    (rt_purge_step E d (delay, s))"
proof -
  note e = table_entry [OF node_invD(3) [OF inv] rt]
  let ?rt1 = "path_purge (now E) rt"
  have pe: "path_empty ?rt1 = Inr (rt_path_list ?rt1 = [])"
    by (rule path_empty_ok [OF paths_ok_purge [OF entry_okD(1) [OF e(1)]]])
  show ?thesis
  proof (cases "rt_path_list ?rt1 = []")
    case False
    then have "node_inv (s\<lparr>rtable := rt_put ?rt1 (rtable s)\<rparr>)"
      using node_inv_put_id [OF inv rt path_purge_ok [OF e(1)]] by simp
    with up rt pe False show ?thesis by (simp add: rt_purge_step_def Let_def)
  next
    case True
    have "odd_or_zero (let n = max (rt_seqno r + 1) (rt_highest_seqno_heard r) in if even n then n + 1 else n)" for r
      by (auto simp: Let_def odd_or_zero_def)
    from purge_down_ok [OF inv rt up(1) this, of E DROP_RTR_RTEXPIRE]
    show ?thesis using up rt pe True by (simp add: rt_purge_step_def Let_def)
  qed
qed

lemma rt_purge_forward_ok:
  assumes inv: "node_inv s" and rt: "rt_lookup d (rtable s) = Some rt"
    and fwd: "rt_flags rt = RTF_UP" "\<not> rt_expire rt < now E"
  shows "safe {} (\<lambda>(dl, s'). node_inv s' \<and> same_config s s' \<and> map rt_dst (rtable s') = map rt_dst (rtable s))
    (rt_purge_step E d (delay, s))"
proof -
  let ?act = "\<lambda>p (dl, t). bindE (forward E (Some d) p dl t) (\<lambda>t1. Inr (dl + ARP_DELAY, t1))"
  let ?I = "\<lambda>x::time \<times> eamrp. node_inv (snd x) \<and> stable s (snd x)"
  have "safe {} (\<lambda>x. ?I x \<and> rqueue (snd x) = rqueue t) (?act p (dl, t))"
    if t: "?I (dl, t)" and p: "ih_daddr p = d" "ih_daddr p \<noteq> IP_BROADCAST" "ch_ptype p \<noteq> PT_EAMRP" for p dl t
  proof -
    from t have t': "node_inv t" "stable s t" by simp_all
    obtain rt1 where r: "rt_lookup d (rtable t) = Some rt1" "rt_flags rt1 = RTF_UP"
      using stable_lookup [OF t'(2) rt] fwd(1) by auto
    from forward_route_ok [OF t'(1) r, of p E dl] p t'(2) show ?thesis
      by (auto elim!: safe_mono intro: stable_trans)
  qed
  then have "safe {} ?I (drain_all E d ?act delay s)"
    using inv by (intro drain_all_ok) (auto dest: node_invD(4) intro: node_inv_rqueue)
  then have "safe {} (\<lambda>(dl, s'). node_inv s' \<and> same_config s s' \<and> map rt_dst (rtable s') = map rt_dst (rtable s))
      (drain_all E d ?act delay s)"
    by (rule safe_mono) (auto dest: stable_config simp: stable_def same_routes_def)
  with fwd rt entry_okD(2) [OF table_entry(1) [OF node_invD(3) [OF inv] rt]] show ?thesis
    by (simp add: rt_purge_step_def)
qed

lemma rt_purge_step_ok:
  assumes inv: "node_inv s" and rt: "rt_lookup d (rtable s) = Some rt"
  shows "safe {} (\<lambda>(dl, s'). node_inv s' \<and> same_config s s' \<and> map rt_dst (rtable s') = map rt_dst (rtable s))
    (rt_purge_step E d (delay, s))" (is "safe _ ?P _")
proof (cases "rt_flags rt = RTF_UP")
  case True
  then show ?thesis using rt_purge_expired_ok [OF inv rt] rt_purge_forward_ok [OF inv rt] by blast
next
  case False
  have "safe {} ?P (bindE (sendRequest E d s) (\<lambda>s1. Inr (delay, s1)))"
    using sendRequest_ok [OF inv rt, of E] by (auto elim!: safe_mono simp: same_routes_def)
  with False rt inv show ?thesis by (simp add: rt_purge_step_def safe_if)
qed

lemma rt_purge_ok:
  assumes inv: "node_inv s"
  shows "safe {} (\<lambda>s'. node_inv s' \<and> same_config s s' \<and> map rt_dst (rtable s') = map rt_dst (rtable s)) (rt_purge E s)"
proof -
  let ?P = "\<lambda>(dl::time, t). node_inv t \<and> same_config s t \<and> map rt_dst (rtable t) = map rt_dst (rtable s)"
  have "safe {} ?P (foldE (rt_purge_step E) (map rt_dst (rtable s)) (0, s))"
  proof (rule safe_foldE)
    fix d x
    assume d: "d \<in> set (map rt_dst (rtable s))" and x: "?P x"
    obtain dl t where [simp]: "x = (dl, t)" by (cases x)
    have "d \<in> rt_dst ` set (rtable t)" using d x by (metis (mono_tags) case_prod_conv list.set_map \<open>x = (dl, t)\<close>)
    then obtain rt where "rt_lookup d (rtable t) = Some rt"
      using rtl.lookup_None [of d "rtable t"] by (cases "rt_lookup d (rtable t)") auto
    from rt_purge_step_ok [OF _ this, of E dl] x show "safe {} ?P (rt_purge_step E d x)"
      by (auto elim!: safe_mono intro: same_config_trans)
  qed (simp add: inv)
  then show ?thesis unfolding rt_purge_def by (rule safe_bindI) auto
qed

section \<open>Timers\<close>

lemma node_inv_timer: "node_inv s \<Longrightarrow> 0 \<le> t \<Longrightarrow> node_inv (emit (Timer_set tm t) s)"
  by simp

lemma broadcast_timer_ok:
  assumes "node_inv s"
  shows "node_inv (broadcast_timer E s)" "same_config s (broadcast_timer E s)"
    "rtable (broadcast_timer E s) = rtable s"
  using node_inv_bihead [OF assms id_purge_distinct [OF node_invD(6) [OF assms]]]
  by (simp_all add: broadcast_timer_def BCAST_ID_SAVE_def)

lemma sendHello_sel [simp]:
  "same_config t (sendHello E s) = same_config t s" "rtable (sendHello E s) = rtable s"
  by (simp_all add: sendHello_def Let_def)

lemma hello_timer_ok:
  assumes "node_inv s" and "env_ok E"
  shows "safe {} (\<lambda>s'. node_inv s' \<and> same_config s s' \<and> rtable s' = rtable s) (hello_timer E s)"
proof -
  have u: "0 \<le> rnd E n" for n using assms(2) by (simp add: env_ok_def)
  then have "0 \<le> MinHelloInterval + (MaxHelloInterval - MinHelloInterval) * rnd E n" for n
    by (simp add: MinHelloInterval_def MaxHelloInterval_def HELLO_INTERVAL_def)
  with assms(1) sendHello_ok [OF assms(1), of E] show ?thesis
    by (simp add: hello_timer_def Let_def)
qed

lemma neighbor_timer_ok:
  assumes "node_inv s" and "env_ok E"
  shows "safe (overflow_faults s) (\<lambda>s'. node_inv s' \<and> same_config s s'
    \<and> no_new_routes (rtable s) (rtable s')) (neighbor_timer E s)"
  using nb_purge_ok [OF assms] by (auto simp: neighbor_timer_def HELLO_INTERVAL_def elim!: safe_mono)

lemma route_cache_timer_ok:
  assumes "node_inv s"
  shows "safe {} (\<lambda>s'. node_inv s' \<and> same_config s s' \<and> map rt_dst (rtable s') = map rt_dst (rtable s))
    (route_cache_timer E s)"
  using rt_purge_ok [OF assms, of E] by (auto simp: route_cache_timer_def FREQUENCY_def elim!: safe_mono)

text \<open>A route that is not up is already down, so the local repair timer changes nothing but the packet.\<close>

lemma rt_put_same: "rt_lookup (rt_dst rt) t = Some rt \<Longrightarrow> rt_put rt t = t"
  by (induction t) (auto split: if_splits)

lemma local_repair_timer_id:
  assumes "node_inv s" shows "local_repair_timer E p s = emit (Freed p) s"
proof (cases "rt_lookup (ih_daddr p) (rtable s)")
  case None
  then show ?thesis by (simp add: local_repair_timer_def)
next
  case (Some rt)
  note e = table_entry [OF node_invD(3) [OF assms] Some]
  have "rt_down E rt = rt" if "rt_flags rt \<noteq> RTF_UP"
    using that entry_okD(5) [OF e(1)] by (auto simp: rt_down_def)
  with Some e(2) rt_put_same [of rt "rtable s"] show ?thesis by (simp add: local_repair_timer_def)
qed

lemma command_start_ok:
  assumes inv: "node_inv s" and E: "env_ok E"
  shows "safe (overflow_faults s) (\<lambda>s'. node_inv s' \<and> same_config s s') (command_start E s)"
proof -
  note b = broadcast_timer_ok [OF inv, of E]
  let ?Q = "\<lambda>s'. node_inv s' \<and> same_config s s' \<and> no_new_routes (rtable s) (rtable s')"
  have "safe (overflow_faults s) ?Q (hello_timer E (broadcast_timer E s))"
    by (rule safe_weaken_faults [OF safe_mono [OF hello_timer_ok [OF b(1) E]]])
      (use b(3) in \<open>auto intro: same_config_trans [OF b(2)]\<close>)
  then show ?thesis unfolding command_start_def
  proof (rule safe_bindI)
    fix s1
    assume s1: "?Q s1"
    have n: "safe (overflow_faults s) ?Q (neighbor_timer E s1)"
      by (rule safe_weaken_faults [OF safe_mono [OF neighbor_timer_ok [OF conjunct1 [OF s1] E]] overflow_faults_mono])
        (use s1 in \<open>auto intro: same_config_trans [of s s1] no_new_routes_trans [of "rtable s" "rtable s1"]\<close>)
    show "safe (overflow_faults s) (\<lambda>s'. node_inv s' \<and> same_config s s')
        (bindE (neighbor_timer E s1) (route_cache_timer E))"
    proof (rule safe_bindI [OF n])
      fix s2
      assume s2: "?Q s2"
      show "safe (overflow_faults s) (\<lambda>s'. node_inv s' \<and> same_config s s') (route_cache_timer E s2)"
        by (rule safe_weaken_faults [OF safe_mono [OF route_cache_timer_ok [OF conjunct1 [OF s2]]]])
          (use s2 in \<open>auto intro: same_config_trans [of s s2]\<close>)
    qed
  qed
qed

end
