(* ===== verification/Machine.thy ===== *)
theory Machine
  imports TimerInv
begin

text \<open>
  The agent as a machine whose inputs are the calls ns-2 makes, runs of one node, and the
  network of nodes that exchange the packets they schedule.
\<close>

section \<open>The inputs of a node\<close>

datatype input =
    Recv packet
  | Ll_failed packet
  | Bcast_expired
  | Hello_expired
  | Nb_expired
  | Route_expired
  | Repair_expired packet

fun node_step :: "ns2 \<Rightarrow> input \<Rightarrow> eamrp \<Rightarrow> fault + eamrp" where
  "node_step E (Recv p) s = recv E p s"
| "node_step E (Ll_failed p) s = Inr (rt_ll_failed p s)"
| "node_step E Bcast_expired s = Inr (broadcast_timer E s)"
| "node_step E Hello_expired s = hello_timer E s"
| "node_step E Nb_expired s = neighbor_timer E s"
| "node_step E Route_expired s = route_cache_timer E s"
| "node_step E (Repair_expired p) s = Inr (local_repair_timer E p s)"

fun input_ok :: "input \<Rightarrow> bool" where
  "input_ok (Recv p) = (msg_wf p \<and> msg_live p)"
| "input_ok _ = True"

definition step_faults :: "fault set" where
  "step_faults = {Assert_failed Hopcount_match, Array_overflow}"

lemma overflow_step_faults: "overflow_faults s \<subseteq> step_faults" "hop_fault \<subseteq> step_faults"
  by (simp_all add: overflow_faults_def step_faults_def hop_fault_def)

text \<open>
  What may abort which call: a message whose hop count contradicts a stored path, and the check
  of the neighbours when more than 100 routes are up.
\<close>

fun input_faults :: "input \<Rightarrow> eamrp \<Rightarrow> fault set" where
  "input_faults (Recv p) s = msg_faults p s"
| "input_faults Nb_expired s = overflow_faults s"
| "input_faults _ s = {}"

lemma input_step_faults: "input_faults i s \<subseteq> step_faults"
  using overflow_step_faults order_trans [OF msg_faults_hop] by (cases i) auto

lemma step_ok_precise:
  assumes inv: "node_inv s" and E: "env_ok E" and i: "input_ok i"
  shows "safe (input_faults i s) (\<lambda>s'. node_inv s' \<and> same_config s s') (node_step E i s)"
proof (cases i)
  case (Recv p)
  with i recv_msg_ok [OF inv E] show ?thesis by simp
next
  case (Ll_failed p)
  with inv show ?thesis by (simp add: rt_ll_failed_def)
next
  case Bcast_expired
  with broadcast_timer_ok [OF inv, of E] show ?thesis by simp
next
  case Hello_expired
  with hello_timer_ok [OF inv E] show ?thesis by (auto elim!: safe_mono)
next
  case Nb_expired
  with neighbor_timer_ok [OF inv E] show ?thesis by (auto elim!: safe_mono)
next
  case Route_expired
  with route_cache_timer_ok [OF inv, of E] show ?thesis by (auto elim!: safe_mono)
next
  case (Repair_expired p)
  with local_repair_timer_id [OF inv, of E p] inv show ?thesis by simp
qed

lemmas step_ok_base = safe_weaken_faults [OF step_ok_precise input_step_faults]

section \<open>Runs\<close>

text \<open>
  The contract between a fallible machine and whoever drives it: from good states, on good
  inputs, a step ends in a good state or in a fault from a fixed set.
\<close>

locale machine =
  fixes step :: "'e \<Rightarrow> 'i \<Rightarrow> 's \<Rightarrow> 'f + 's"
    and inv :: "'s \<Rightarrow> bool" and env :: "'e \<Rightarrow> bool" and inp :: "'i \<Rightarrow> bool"
    and faults :: "'f set"
  assumes step_safe: "env e \<Longrightarrow> inp i \<Longrightarrow> inv s \<Longrightarrow> safe faults inv (step e i s)"
begin

lemma run_safe:
  assumes "\<forall>(e, i)\<in>set tr. env e \<and> inp i" and "inv s"
  shows "safe faults inv (foldE (\<lambda>(e, i). step e i) tr s)"
  using assms by (intro safe_foldE) (auto intro: step_safe)

lemma run_prefix:
  assumes "\<forall>(e, i)\<in>set (tr @ tr'). env e \<and> inp i" and "inv s"
    and "foldE (\<lambda>(e, i). step e i) (tr @ tr') s = Inr s'"
  shows "\<exists>t. foldE (\<lambda>(e, i). step e i) tr s = Inr t \<and> inv t"
proof (cases "foldE (\<lambda>(e, i). step e i) tr s")
  case (Inl f)
  with assms(3) show ?thesis by (simp add: foldE_append)
next
  case (Inr t)
  with run_safe [of tr s] assms(1,2) show ?thesis by simp
qed

end

definition node_run :: "(ns2 \<times> input) list \<Rightarrow> eamrp \<Rightarrow> fault + eamrp" where
  "node_run tr s = foldE (\<lambda>(E, i). node_step E i) tr s"

interpretation agent: machine node_step node_inv env_ok input_ok step_faults
  by unfold_locales (auto intro: safe_mono [OF step_ok_base])

section \<open>The network\<close>

text \<open>
  A node for every address but the broadcast address, and every packet that was ever scheduled. A packet stays in the air, which
  over-approximates loss, duplication, delay and reordering. On its way the link layer may
  change the fields that belong to it, not those of the IP and EAMRP headers.
\<close>

record net =
  nodes :: "nsaddr \<Rightarrow> eamrp"
  air :: "packet set"

definition same_message :: "packet \<Rightarrow> packet \<Rightarrow> bool" where
  "same_message p p' \<longleftrightarrow> ch_ptype p' = ch_ptype p \<and> ih_saddr p' = ih_saddr p
     \<and> ih_daddr p' = ih_daddr p \<and> ih_sport p' = ih_sport p \<and> ih_dport p' = ih_dport p
     \<and> ih_ttl p' = ih_ttl p \<and> hdr p' = hdr p"

definition sent :: "eamrp \<Rightarrow> packet set" where
  "sent s = {p. \<exists>t. Scheduled p t \<in> set (out s)}"

definition put_node :: "nsaddr \<Rightarrow> eamrp \<Rightarrow> net \<Rightarrow> net" where
  "put_node a s n = n\<lparr>nodes := (nodes n)(a := s), air := air n \<union> sent s\<rparr>"

inductive net_step :: "net \<Rightarrow> net \<Rightarrow> bool" where
  deliver: "a \<noteq> IP_BROADCAST \<Longrightarrow> p \<in> air n \<Longrightarrow> same_message p p' \<Longrightarrow> msg_live p \<Longrightarrow> env_ok E \<Longrightarrow>
     recv E p' (nodes n a) = Inr s' \<Longrightarrow> net_step n (put_node a s' n)"
| originate: "a \<noteq> IP_BROADCAST \<Longrightarrow> ch_ptype p \<noteq> PT_EAMRP \<Longrightarrow> env_ok E \<Longrightarrow>
     recv E p (nodes n a) = Inr s' \<Longrightarrow> net_step n (put_node a s' n)"
| timer: "a \<noteq> IP_BROADCAST \<Longrightarrow> \<forall>p. i \<noteq> Recv p \<Longrightarrow> env_ok E \<Longrightarrow>
     node_step E i (nodes n a) = Inr s' \<Longrightarrow> net_step n (put_node a s' n)"

inductive_cases net_stepE: "net_step n n'"

inductive net_reach :: "net \<Rightarrow> net \<Rightarrow> bool" for n0 where
  start: "net_reach n0 n0"
| step: "net_reach n0 n \<Longrightarrow> net_step n n' \<Longrightarrow> net_reach n0 n'"

definition net_inv :: "net \<Rightarrow> bool" where
  "net_inv n \<longleftrightarrow> (\<forall>a. a \<noteq> IP_BROADCAST \<longrightarrow> node_inv (nodes n a)) \<and> (\<forall>p\<in>air n. msg_wf p)"

lemma same_message_wf:
  assumes "same_message p p'" shows "msg_wf p' = msg_wf p" "msg_live p' = msg_live p"
  using assms by (simp_all add: same_message_def msg_wf_def msg_live_def split: hdr_all_eamrp.split)

lemma sent_wf: "node_inv s \<Longrightarrow> p \<in> sent s \<Longrightarrow> msg_wf p"
  using node_invD(10) [of s] by (fastforce simp: sent_def)

lemma put_node_inv: "net_inv n \<Longrightarrow> node_inv s \<Longrightarrow> net_inv (put_node a s n)"
  by (auto simp: net_inv_def put_node_def dest: sent_wf)

lemma node_step_inv:
  assumes "node_inv s" and "env_ok E" and "input_ok i" and "node_step E i s = Inr s'"
  shows "node_inv s'" "same_config s s'"
  using step_ok_base [OF assms(1-3)] assms(4) by simp_all

text \<open>Every step of the network is a step of one node on a good input.\<close>

lemma net_step_node:
  assumes "net_step n n'" and "net_inv n"
  shows "\<exists>a E i s'. a \<noteq> IP_BROADCAST \<and> n' = put_node a s' n \<and> env_ok E \<and> input_ok i
    \<and> node_step E i (nodes n a) = Inr s'
    \<and> (\<forall>p. i = Recv p \<longrightarrow> ch_ptype p = PT_EAMRP \<longrightarrow> (\<exists>q\<in>air n. same_message q p))"
  using assms(1)
proof (rule net_stepE)
  fix a p p' E s'
  assume a: "n' = put_node a s' n" "a \<noteq> IP_BROADCAST" "p \<in> air n" "same_message p p'" "msg_live p" "env_ok E"
    "recv E p' (nodes n a) = Inr s'"
  then have "input_ok (Recv p')" using assms(2) same_message_wf [of p p'] by (simp add: net_inv_def)
  with a show ?thesis
    by (intro exI [of _ a] exI [of _ E] exI [of _ "Recv p'"] exI [of _ s']) auto
next
  fix a p E s'
  assume a: "n' = put_node a s' n" "a \<noteq> IP_BROADCAST" "ch_ptype p \<noteq> 73" "env_ok E" "recv E p (nodes n a) = Inr s'"
  then have "input_ok (Recv p)" by (simp add: msg_wf_def msg_live_def)
  with a show ?thesis
    by (intro exI [of _ a] exI [of _ E] exI [of _ "Recv p"] exI [of _ s']) auto
next
  fix a i E s'
  assume a: "n' = put_node a s' n" "a \<noteq> IP_BROADCAST" "\<forall>p. i \<noteq> Recv p" "env_ok E" "node_step E i (nodes n a) = Inr s'"
  then have "input_ok i" by (cases i) auto
  with a show ?thesis
    by (intro exI [of _ a] exI [of _ E] exI [of _ i] exI [of _ s']) auto
qed

lemma net_step_inv: "net_step n n' \<Longrightarrow> net_inv n \<Longrightarrow> net_inv n'"
proof -
  assume n: "net_step n n'" and inv: "net_inv n"
  obtain a E i s' where a: "a \<noteq> IP_BROADCAST" "n' = put_node a s' n" "env_ok E" "input_ok i"
    "node_step E i (nodes n a) = Inr s'" using net_step_node [OF n inv] by blast
  have "node_inv s'" by (rule node_step_inv [OF _ a(3,4,5)]) (use inv a(1) in \<open>simp add: net_inv_def\<close>)
  then show ?thesis unfolding a(2) by (rule put_node_inv [OF inv])
qed

lemma net_reach_inv: "net_reach n0 n \<Longrightarrow> net_inv n0 \<Longrightarrow> net_inv n"
  by (induction rule: net_reach.induct) (auto intro: net_step_inv)

end
