(* ===== verification/RQueuePtr.thy ===== *)
theory RQueuePtr
  imports RQueue
begin

text \<open>
  The send buffer as \<^verbatim>\<open>eamrp_rqueue.cc\<close> stores it: packets linked through \<^verbatim>\<open>next_\<close>, with
  \<^verbatim>\<open>head_\<close>, \<^verbatim>\<open>tail_\<close> and \<^verbatim>\<open>len_\<close>. Packets are numbered cells and \<open>0\<close> is the null pointer.
  Walks that would not end on a corrupt list are \<open>partial_function\<close>s, and the queue's own
  \<^verbatim>\<open>assert\<close>s are faults. Every operation is proved to return, without a fault, the result of
  the list queue of \<^theory_text>\<open>RQueue\<close>.
\<close>

section \<open>Cells and walks\<close>

type_synonym ptr = nat

record prqueue =
  next_of :: "ptr \<Rightarrow> ptr"
  pkt_of :: "ptr \<Rightarrow> packet"
  head :: ptr
  tail :: ptr
  len :: int
  limit :: int
  timeout :: time

partial_function (option) find_walk ::
  "(ptr \<Rightarrow> ptr) \<Rightarrow> (ptr \<Rightarrow> bool) \<Rightarrow> ptr \<Rightarrow> ptr \<Rightarrow> (ptr \<times> ptr) option" where
  "find_walk nx P p prev =
     (if p = 0 then Some (0, prev)
      else if P p then Some (p, prev)
      else find_walk nx P (nx p) p)"

partial_function (option) verify_walk ::
  "(ptr \<Rightarrow> ptr) \<Rightarrow> ptr \<Rightarrow> ptr \<Rightarrow> int \<Rightarrow> (int \<times> ptr) option" where
  "verify_walk nx p prev cnt =
     (if p = 0 then Some (cnt, prev) else verify_walk nx (nx p) p (cnt + 1))"

definition findPacketWithDst :: "nsaddr \<Rightarrow> prqueue \<Rightarrow> (ptr \<times> ptr) option" where
  "findPacketWithDst d q = find_walk (next_of q) (\<lambda>p. ih_daddr (pkt_of q p) = d) (head q) 0"

definition findAgedPacket :: "time \<Rightarrow> prqueue \<Rightarrow> (ptr \<times> ptr) option" where
  "findAgedPacket clock q = find_walk (next_of q) (\<lambda>p. ch_ts (pkt_of q p) < clock) (head q) 0"

definition verifyQueue :: "prqueue \<Rightarrow> fault + unit" where
  "verifyQueue q =
     (case verify_walk (next_of q) (head q) 0 0 of
        None \<Rightarrow> Inl Diverges
      | Some (cnt, prev) \<Rightarrow>
          bindE (assertE Queue_length (cnt = len q)) (\<lambda>_. assertE Queue_tail (prev = tail q)))"

section \<open>Operations\<close>

definition remove_head :: "prqueue \<Rightarrow> fault + ptr \<times> prqueue" where
  "remove_head q =
     (let p = head q in
      bindE (if head q = tail q then Inr (q\<lparr>head := 0, tail := 0\<rparr>)
             else if head q = 0 then Inl Null_deref
             else Inr (q\<lparr>head := next_of q (head q)\<rparr>))
        (\<lambda>q1. Inr (p, if p \<noteq> 0 then q1\<lparr>len := len q1 - 1\<rparr> else q1)))"

text \<open>The unlinking code that \<^verbatim>\<open>deque(dst)\<close> and \<^verbatim>\<open>purge\<close> share, with their assertion.\<close>

definition unlink :: "ptr \<Rightarrow> ptr \<Rightarrow> prqueue \<Rightarrow> fault + ptr \<times> prqueue" where
  "unlink p prev q =
     (if p = head q then remove_head q
      else if p = tail q then
        Inr (p, q\<lparr>next_of := (next_of q)(prev := 0), tail := prev, len := len q - 1\<rparr>)
      else
        Inr (p, q\<lparr>next_of := (next_of q)(prev := next_of q p), len := len q - 1\<rparr>))"

definition links_ok :: "ptr \<Rightarrow> ptr \<Rightarrow> prqueue \<Rightarrow> bool" where
  "links_ok p prev q \<longleftrightarrow> p = 0 \<or> (p = head q \<and> prev = 0) \<or> next_of q prev = p"

definition purge_step :: "ptr \<Rightarrow> ptr \<Rightarrow> prqueue \<Rightarrow> fault + prqueue" where
  "purge_step p prev q =
     bindE (assertE Queue_links (links_ok p prev q)) (\<lambda>_.
     bindE (unlink p prev q) (\<lambda>(_, q1).
     bindE (verifyQueue q1) (\<lambda>_. Inr q1)))"

partial_function (option) purge_loop :: "time \<Rightarrow> prqueue \<Rightarrow> (fault + prqueue) option" where
  "purge_loop clock q =
     Option.bind (findAgedPacket clock q) (\<lambda>r.
       if fst r = 0 then Some (Inr q)
       else if isl (purge_step (fst r) (snd r) q) then Some (purge_step (fst r) (snd r) q)
       else purge_loop clock (projr (purge_step (fst r) (snd r) q)))"

definition purge :: "time \<Rightarrow> prqueue \<Rightarrow> fault + prqueue" where
  "purge clock q = (case purge_loop clock q of None \<Rightarrow> Inl Diverges | Some r \<Rightarrow> r)"

definition enque ::
  "time \<Rightarrow> ptr \<Rightarrow> prqueue \<Rightarrow> fault + prqueue \<times> (packet \<times> drop_reason) list" where
  "enque clock p q =
     bindE (purge clock q) (\<lambda>q0.
     let q1 = q0\<lparr>next_of := (next_of q0)(p := 0),
                 pkt_of := (pkt_of q0)(p := (pkt_of q0 p)\<lparr>ch_ts := clock + timeout q0\<rparr>)\<rparr> in
     bindE
       (if len q1 = limit q1 then
          bindE (remove_head q1) (\<lambda>(p0, q2).
          bindE (assertE Queue_nonempty (p0 \<noteq> 0)) (\<lambda>_.
            Inr (q2, [(pkt_of q2 p0,
              if ch_ts (pkt_of q2 p0) > clock then DROP_RTR_QFULL else DROP_RTR_QTIMEOUT)])))
        else Inr (q1, []))
       (\<lambda>(q2, drops).
          let q3 = (if head q2 = 0 then q2\<lparr>head := p, tail := p\<rparr>
                    else q2\<lparr>next_of := (next_of q2)(tail q2 := p), tail := p\<rparr>);
              q4 = q3\<lparr>len := len q3 + 1\<rparr>
          in bindE (verifyQueue q4) (\<lambda>_. Inr (q4, drops))))"

definition deque :: "time \<Rightarrow> prqueue \<Rightarrow> fault + ptr \<times> prqueue" where
  "deque clock q =
     bindE (purge clock q) (\<lambda>q1.
     bindE (remove_head q1) (\<lambda>(p, q2).
     bindE (verifyQueue q2) (\<lambda>_. Inr (p, q2))))"

definition deque_dst :: "time \<Rightarrow> nsaddr \<Rightarrow> prqueue \<Rightarrow> fault + ptr \<times> prqueue" where
  "deque_dst clock d q =
     bindE (purge clock q) (\<lambda>q1.
     case findPacketWithDst d q1 of
       None \<Rightarrow> Inl Diverges
     | Some (p, prev) \<Rightarrow>
         bindE (assertE Queue_links (links_ok p prev q1)) (\<lambda>_.
         if p = 0 then Inr (0, q1)
         else bindE (unlink p prev q1) (\<lambda>(p1, q2).
              bindE (verifyQueue q2) (\<lambda>_. Inr (p1, q2)))))"

definition find_dst :: "nsaddr \<Rightarrow> prqueue \<Rightarrow> fault + bool" where
  "find_dst d q =
     (case findPacketWithDst d q of None \<Rightarrow> Inl Diverges | Some (p, _) \<Rightarrow> Inr (p \<noteq> 0))"

section \<open>Representation\<close>

text \<open>\<open>chain nx p ps\<close>: following \<open>nx\<close> from \<open>p\<close> visits exactly the cells \<open>ps\<close>, then null.\<close>

fun chain :: "(ptr \<Rightarrow> ptr) \<Rightarrow> ptr \<Rightarrow> ptr list \<Rightarrow> bool" where
  "chain nx p [] \<longleftrightarrow> p = 0"
| "chain nx p (a # as) \<longleftrightarrow> p = a \<and> a \<noteq> 0 \<and> chain nx (nx a) as"

definition last_cell :: "ptr list \<Rightarrow> ptr" where
  "last_cell ps = (if ps = [] then 0 else last ps)"

definition rep :: "prqueue \<Rightarrow> ptr list \<Rightarrow> bool" where
  "rep q ps \<longleftrightarrow> chain (next_of q) (head q) ps \<and> distinct ps \<and> tail q = last_cell ps
     \<and> len q = int (length ps)"

definition abs_q :: "prqueue \<Rightarrow> ptr list \<Rightarrow> eamrp_rqueue" where
  "abs_q q ps = \<lparr>rq_pkts = map (pkt_of q) ps, rq_limit = limit q, rq_timeout = timeout q\<rparr>"

lemma chain_nonnull: "chain nx p ps \<Longrightarrow> 0 \<notin> set ps"
  by (induction ps arbitrary: p) auto

lemma chain_upd [simp]: "a \<notin> set ps \<Longrightarrow> chain (nx(a := b)) p ps = chain nx p ps"
  by (induction ps arbitrary: p) auto

lemma chain_append:
  "chain nx p (as @ b # bs) \<Longrightarrow> chain nx b (b # bs)"
  by (induction as arbitrary: p) auto

lemma chain_step: "chain nx p (as @ a # b # bs) \<Longrightarrow> nx a = b"
  by (induction as arbitrary: p) auto

lemma chain_last_null: "chain nx p (as @ [a]) \<Longrightarrow> nx a = 0"
  by (induction as arbitrary: p) auto

lemma chain_relink:
  "chain nx p (as @ a # bs) \<Longrightarrow> distinct (as @ a # bs) \<Longrightarrow> chain nx c cs \<Longrightarrow> a \<notin> set cs \<Longrightarrow>
     chain (nx(a := c)) p (as @ a # cs)"
  by (induction as arbitrary: p) auto

section \<open>Walks on a well-formed queue\<close>

lemma find_walk_chain:
  assumes "chain nx p ps"
  shows "find_walk nx P p prev =
    (case find P ps of
       None \<Rightarrow> Some (0, if ps = [] then prev else last ps)
     | Some x \<Rightarrow> Some (x, last (prev # takeWhile (\<lambda>y. \<not> P y) ps)))"
  using assms
proof (induction ps arbitrary: p prev)
  case Nil
  then show ?case by (simp add: find_walk.simps)
next
  case (Cons a ps)
  then have "find_walk nx P p prev = (if P a then Some (a, prev) else find_walk nx P (nx a) a)"
    by (subst find_walk.simps) auto
  then show ?case using Cons by (auto split: option.splits)
qed

lemma verify_walk_chain:
  "chain nx p ps \<Longrightarrow>
     verify_walk nx p prev cnt = Some (cnt + int (length ps), if ps = [] then prev else last ps)"
proof (induction ps arbitrary: p prev cnt)
  case Nil
  then show ?case by (simp add: verify_walk.simps)
next
  case (Cons a ps)
  then show ?case by (subst verify_walk.simps) auto
qed

lemma verifyQueue_rep: "rep q ps \<Longrightarrow> verifyQueue q = Inr ()"
  using verify_walk_chain [of "next_of q" "head q" ps 0 0]
  by (auto simp: rep_def verifyQueue_def assertE_def last_cell_def)

lemma find_takeWhile:
  "find P ps = Some x \<Longrightarrow>
     ps = takeWhile (\<lambda>y. \<not> P y) ps @ x # tl (dropWhile (\<lambda>y. \<not> P y) ps)"
  by (induction ps) (auto split: if_splits)

lemma remove_first_takeWhile:
  "find P ps = Some x \<Longrightarrow>
     remove_first P ps = takeWhile (\<lambda>y. \<not> P y) ps @ tl (dropWhile (\<lambda>y. \<not> P y) ps)"
  by (induction ps) (auto split: if_splits)

section \<open>Unlinking\<close>

lemma remove_head_rep:
  assumes "rep q ps"
  shows "\<exists>q'. remove_head q = Inr (head q, q') \<and> rep q' (tl ps) \<and> pkt_of q' = pkt_of q
    \<and> limit q' = limit q \<and> timeout q' = timeout q \<and> head q = (if ps = [] then 0 else hd ps)
    \<and> next_of q' = next_of q"
proof (cases ps)
  case Nil
  with assms show ?thesis by (auto simp: rep_def remove_head_def last_cell_def)
next
  case (Cons a as)
  show ?thesis
  proof (cases as)
    case Nil
    with assms Cons show ?thesis by (auto simp: rep_def remove_head_def last_cell_def)
  next
    case (Cons b bs)
    with assms \<open>ps = a # as\<close> have "head q \<noteq> tail q" "head q \<noteq> 0"
      by (auto simp: rep_def last_cell_def)
    with assms \<open>ps = a # as\<close> Cons show ?thesis
      by (auto simp: rep_def remove_head_def last_cell_def)
  qed
qed

text \<open>Unlinking the cell a walk stopped at removes exactly that cell.\<close>

lemma unlink_rep:
  assumes r: "rep q (as @ x # bs)" and prev: "prev = (if as = [] then 0 else last as)"
  shows "links_ok x prev q"
    and "\<exists>q'. unlink x prev q = Inr (x, q') \<and> rep q' (as @ bs) \<and> pkt_of q' = pkt_of q
      \<and> limit q' = limit q \<and> timeout q' = timeout q"
proof -
  show "links_ok x prev q"
  proof (cases as rule: rev_cases)
    case Nil
    with r prev show ?thesis by (auto simp: rep_def links_ok_def)
  next
    case (snoc cs c)
    with r have "next_of q c = x" using chain_step [of "next_of q" "head q" cs c x bs]
      by (auto simp: rep_def)
    with snoc prev show ?thesis by (simp add: links_ok_def)
  qed
  show "\<exists>q'. unlink x prev q = Inr (x, q') \<and> rep q' (as @ bs) \<and> pkt_of q' = pkt_of q
      \<and> limit q' = limit q \<and> timeout q' = timeout q"
  proof (cases as rule: rev_cases)
    case Nil
    with remove_head_rep [OF r] r show ?thesis
      by (auto simp: unlink_def rep_def)
  next
    case (snoc cs c)
    have ch: "chain (next_of q) (head q) (cs @ c # x # bs)" and d: "distinct (cs @ c # x # bs)"
      and t: "tail q = last (x # bs)" and l: "len q = int (length (cs @ c # x # bs))"
      using r snoc by (auto simp: rep_def last_cell_def)
    have nh: "x \<noteq> head q" using ch d by (cases cs) auto
    have cx: "chain (next_of q) (next_of q x) bs" using chain_append [of _ _ "cs @ [c]" x bs] ch by simp
    show ?thesis
    proof (cases bs rule: rev_cases)
      case Nil
      have "chain ((next_of q)(c := 0)) (head q) (cs @ [c])"
        using chain_relink [OF ch d, of 0 "[]"] by simp
      with snoc Nil nh t l d prev show ?thesis
        by (auto simp: unlink_def rep_def last_cell_def)
    next
      case (snoc ds e)
      have "chain ((next_of q)(c := next_of q x)) (head q) (cs @ c # bs)"
        using chain_relink [OF ch d cx] d by auto
      moreover have "x \<noteq> tail q" using t d snoc by auto
      ultimately show ?thesis using \<open>as = cs @ [c]\<close> nh t l d prev snoc
        by (auto simp: unlink_def rep_def last_cell_def)
    qed
  qed
qed

lemma find_rep:
  assumes "rep q ps" and "find P ps = Some x"
  obtains as bs where "ps = as @ x # bs" "remove_first P ps = as @ bs"
    "find_walk (next_of q) P (head q) 0 = Some (x, if as = [] then 0 else last as)" "x \<noteq> 0"
proof -
  let ?as = "takeWhile (\<lambda>y. \<not> P y) ps" and ?bs = "tl (dropWhile (\<lambda>y. \<not> P y) ps)"
  have "chain (next_of q) (head q) ps" using assms(1) by (simp add: rep_def)
  then have "find_walk (next_of q) P (head q) 0 = Some (x, if ?as = [] then 0 else last ?as)"
    and "0 \<notin> set ps"
    using assms(2) by (simp_all add: find_walk_chain chain_nonnull)
  moreover from this(2) have "x \<noteq> 0" using find_SomeD [OF assms(2)] by (cases "x = 0") auto
  ultimately show thesis
    using find_takeWhile [OF assms(2)] remove_first_takeWhile [OF assms(2)]
    by (intro that [of ?as ?bs])
qed

section \<open>Refinement of the list queue\<close>

lemma find_map: "find P (map f xs) = map_option f (find (P \<circ> f) xs)"
  by (induction xs) auto

lemma remove_first_map: "remove_first P (map f xs) = map f (remove_first (P \<circ> f) xs)"
  by (induction xs) auto

lemma purge_loop_rep:
  assumes "rep q ps"
  shows "\<exists>q' ps'. purge_loop clock q = Some (Inr q') \<and> rep q' ps'
    \<and> ps' = filter (\<lambda>p. \<not> ch_ts (pkt_of q p) < clock) ps \<and> pkt_of q' = pkt_of q
    \<and> limit q' = limit q \<and> timeout q' = timeout q"
  using assms
proof (induction "length ps" arbitrary: q ps rule: less_induct)
  case less
  let ?P = "\<lambda>p. ch_ts (pkt_of q p) < clock"
  have ch: "chain (next_of q) (head q) ps" using less.prems by (simp add: rep_def)
  show ?case
  proof (cases "find ?P ps")
    case None
    then have "fst (the (findAgedPacket clock q)) = 0" "findAgedPacket clock q \<noteq> None"
      using find_walk_chain [OF ch, of ?P 0] by (simp_all add: findAgedPacket_def)
    moreover have "filter (\<lambda>p. \<not> ?P p) ps = ps"
      using None by (auto simp: find_None_ball filter_id_conv)
    ultimately show ?thesis using less.prems
      by (auto simp: purge_loop.simps [of clock q])
  next
    case (Some x)
    obtain as bs where s: "ps = as @ x # bs" "remove_first ?P ps = as @ bs"
      "findAgedPacket clock q = Some (x, if as = [] then 0 else last as)" "x \<noteq> 0"
      using find_rep [OF less.prems Some] by (auto simp: findAgedPacket_def)
    obtain q1 where q1: "unlink x (if as = [] then 0 else last as) q = Inr (x, q1)"
      "rep q1 (as @ bs)" "pkt_of q1 = pkt_of q" "limit q1 = limit q" "timeout q1 = timeout q"
      using unlink_rep(2) [OF less.prems [unfolded s(1)] refl] by blast
    have "purge_step x (if as = [] then 0 else last as) q = Inr q1"
      using unlink_rep(1) [OF less.prems [unfolded s(1)] refl] q1 verifyQueue_rep
      by (simp add: purge_step_def assertE_def)
    then have "purge_loop clock q = purge_loop clock q1"
      using s by (simp add: purge_loop.simps [of clock q])
    moreover have "length (as @ bs) < length ps" using s by simp
    moreover have "filter (\<lambda>p. \<not> ?P p) ps = filter (\<lambda>p. \<not> ?P p) (as @ bs)"
      using filter_remove_first [of ?P ps] s(2) by simp
    ultimately show ?thesis using less.hyps [OF _ q1(2)] q1(3-5) by auto
  qed
qed

lemma purge_rep:
  assumes "rep q ps"
  shows "\<exists>q' ps'. purge clock q = Inr q' \<and> rep q' ps' \<and> abs_q q' ps' = rq_purge clock (abs_q q ps)
    \<and> set ps' \<subseteq> set ps \<and> pkt_of q' = pkt_of q"
proof -
  obtain q' where "purge_loop clock q = Some (Inr q')"
    "rep q' (filter (\<lambda>p. \<not> ch_ts (pkt_of q p) < clock) ps)" "pkt_of q' = pkt_of q"
    "limit q' = limit q" "timeout q' = timeout q"
    using purge_loop_rep [OF assms] by blast
  then show ?thesis
    by (auto simp: purge_def abs_q_def rq_purge_def remove_all_loop_filter filter_map o_def
        rq_aged_def intro!: exI [of _ "filter (\<lambda>p. \<not> ch_ts (pkt_of q p) < clock) ps"])
qed


section \<open>The queue operations refine the list queue\<close>

lemma abs_q_sel [simp]:
  "rq_pkts (abs_q q ps) = map (pkt_of q) ps" "rq_limit (abs_q q ps) = limit q"
  "rq_timeout (abs_q q ps) = timeout q"
  by (simp_all add: abs_q_def)

lemma rep_len: "rep q ps \<Longrightarrow> len q = rq_len (abs_q q ps)"
  by (simp add: rep_def rq_len_def)

text \<open>Linking a fresh cell at the tail.\<close>

lemma rep_append:
  assumes r: "rep q ps" and p: "p \<noteq> 0" "p \<notin> set ps" and nx: "next_of q p = 0"
  defines "q1 \<equiv> if head q = 0 then q\<lparr>head := p, tail := p\<rparr>
                else q\<lparr>next_of := (next_of q)(tail q := p), tail := p\<rparr>"
  shows "rep (q1\<lparr>len := len q1 + 1\<rparr>) (ps @ [p])"
proof (cases ps rule: rev_cases)
  case Nil
  with r p nx show ?thesis by (auto simp: rep_def q1_def last_cell_def)
next
  case (snoc as a)
  have ch: "chain (next_of q) (head q) (as @ [a])" and d: "distinct (as @ [a])"
    and t: "tail q = a" "head q \<noteq> 0"
    using r snoc by (cases as; auto simp: rep_def last_cell_def)+
  have "chain ((next_of q)(a := p)) (head q) (as @ a # [p])"
    using chain_relink [of "next_of q" "head q" as a "[]" p "[p]"] ch d p nx snoc by auto
  with r snoc t d p show ?thesis by (auto simp: rep_def q1_def last_cell_def)
qed

text \<open>Writing a cell that is not linked leaves the queue as it was.\<close>

lemma rep_frame:
  assumes "rep q ps" and "p \<notin> set ps"
  shows "rep (q\<lparr>next_of := (next_of q)(p := a), pkt_of := (pkt_of q)(p := b)\<rparr>) ps"
    and "abs_q (q\<lparr>next_of := (next_of q)(p := a), pkt_of := (pkt_of q)(p := b)\<rparr>) ps = abs_q q ps"
  using assms by (auto simp: rep_def abs_q_def)

lemma deque_rep:
  assumes "rep q ps"
  shows "\<exists>p q' ps'. deque clock q = Inr (p, q') \<and> rep q' ps'
    \<and> ((if p = 0 then None else Some (pkt_of q p)), abs_q q' ps') = rq_deque clock (abs_q q ps)"
proof -
  obtain q1 ps1 where 1: "purge clock q = Inr q1" "rep q1 ps1"
    "abs_q q1 ps1 = rq_purge clock (abs_q q ps)" "pkt_of q1 = pkt_of q"
    using purge_rep [OF assms] by blast
  obtain q2 where 2: "remove_head q1 = Inr (head q1, q2)" "rep q2 (tl ps1)"
    "pkt_of q2 = pkt_of q1" "limit q2 = limit q1" "timeout q2 = timeout q1"
    "head q1 = (if ps1 = [] then 0 else hd ps1)"
    using remove_head_rep [OF 1(2)] by blast
  have "deque clock q = Inr (head q1, q2)"
    using 1(1) 2(1) verifyQueue_rep [OF 2(2)] by (simp add: deque_def)
  moreover have "((if head q1 = 0 then None else Some (pkt_of q (head q1))), abs_q q2 (tl ps1))
      = rq_deque clock (abs_q q ps)"
    unfolding rq_deque_def 1(3) [symmetric]
    using 1(2) 2 1(4) by (cases ps1) (auto simp: rq_remove_head_def abs_q_def rep_def)
  ultimately show ?thesis using 2(2) by blast
qed

lemma find_cells:
  assumes "rep q ps"
  shows "\<exists>p prev. findPacketWithDst d q = Some (p, prev)
    \<and> (if p = 0 then None else Some (pkt_of q p))
        = find (\<lambda>x. ih_daddr x = d) (rq_pkts (abs_q q ps))
    \<and> (p = 0 \<longleftrightarrow> find (\<lambda>c. ih_daddr (pkt_of q c) = d) ps = None)"
proof (cases "find (\<lambda>c. ih_daddr (pkt_of q c) = d) ps")
  case None
  with assms find_walk_chain [of "next_of q" "head q" ps "\<lambda>c. ih_daddr (pkt_of q c) = d" 0]
  show ?thesis by (auto simp: findPacketWithDst_def rep_def find_map o_def)
next
  case (Some x)
  obtain as bs where "findPacketWithDst d q = Some (x, if as = [] then 0 else last as)" "x \<noteq> 0"
    using find_rep [OF assms Some] by (auto simp: findPacketWithDst_def)
  with Some show ?thesis by (auto simp: find_map o_def)
qed

lemma deque_dst_rep:
  assumes "rep q ps"
  shows "\<exists>p q' ps'. deque_dst clock d q = Inr (p, q') \<and> rep q' ps'
    \<and> ((if p = 0 then None else Some (pkt_of q p)), abs_q q' ps')
        = rq_deque_dst clock d (abs_q q ps)"
proof -
  obtain q1 ps1 where 1: "purge clock q = Inr q1" "rep q1 ps1"
    "abs_q q1 ps1 = rq_purge clock (abs_q q ps)" "pkt_of q1 = pkt_of q"
    using purge_rep [OF assms] by blast
  let ?P = "\<lambda>c. ih_daddr (pkt_of q1 c) = d"
  show ?thesis
  proof (cases "find ?P ps1")
    case None
    obtain prev where "findPacketWithDst d q1 = Some (0, prev)"
      using find_cells [OF 1(2), of d] None by auto
    then have "deque_dst clock d q = Inr (0, q1)"
      using 1(1) by (simp add: deque_dst_def assertE_def links_ok_def)
    moreover have "(None, abs_q q1 ps1) = rq_deque_dst clock d (abs_q q ps)"
      unfolding rq_deque_dst_def 1(3) [symmetric] using None by (simp add: find_map o_def)
    ultimately show ?thesis using 1(2) by (intro exI [of _ 0] exI [of _ q1] exI [of _ ps1]) simp
  next
    case (Some x)
    obtain as bs where s: "ps1 = as @ x # bs" "remove_first ?P ps1 = as @ bs"
      "findPacketWithDst d q1 = Some (x, if as = [] then 0 else last as)" "x \<noteq> 0"
      using find_rep [OF 1(2) Some] by (auto simp: findPacketWithDst_def)
    obtain q2 where 2: "unlink x (if as = [] then 0 else last as) q1 = Inr (x, q2)"
      "rep q2 (as @ bs)" "pkt_of q2 = pkt_of q1" "limit q2 = limit q1" "timeout q2 = timeout q1"
      using unlink_rep(2) [OF 1(2) [unfolded s(1)] refl] by blast
    have "deque_dst clock d q = Inr (x, q2)"
      using 1(1) s(3,4) unlink_rep(1) [OF 1(2) [unfolded s(1)] refl] 2(1) verifyQueue_rep [OF 2(2)]
      by (simp add: deque_dst_def assertE_def)
    moreover have "(Some (pkt_of q x), abs_q q2 (as @ bs)) = rq_deque_dst clock d (abs_q q ps)"
      unfolding rq_deque_dst_def 1(3) [symmetric] using Some 2 1(4) s(2)
      by (simp add: find_map remove_first_map o_def abs_q_def)
    ultimately show ?thesis using 2(2) s(4)
      by (intro exI [of _ x] exI [of _ q2] exI [of _ "as @ bs"]) simp
  qed
qed

lemma enque_rep:
  assumes r: "rep q ps" and p: "p \<noteq> 0" "p \<notin> set ps" and lim: "limit q > 0"
  shows "\<exists>q' ps' drops. enque clock p q = Inr (q', drops) \<and> rep q' ps'
    \<and> rq_enque clock (pkt_of q p) (abs_q q ps) = Inr (abs_q q' ps', drops)"
proof -
  obtain q0 ps0 where 0: "purge clock q = Inr q0" "rep q0 ps0"
    "abs_q q0 ps0 = rq_purge clock (abs_q q ps)" "set ps0 \<subseteq> set ps" "pkt_of q0 = pkt_of q"
    using purge_rep [OF r] by blast
  let ?b = "(pkt_of q0 p)\<lparr>ch_ts := clock + timeout q0\<rparr>"
  let ?q1 = "q0\<lparr>next_of := (next_of q0)(p := 0), pkt_of := (pkt_of q0)(p := ?b)\<rparr>"
  have p0: "p \<notin> set ps0" using p 0(4) by blast
  have 1: "rep ?q1 ps0" "abs_q ?q1 ps0 = abs_q q0 ps0" "next_of ?q1 p = 0" "pkt_of ?q1 p = ?b"
    using rep_frame [OF 0(2) p0] by auto
  have l: "limit q0 = limit q" using arg_cong [OF 0(3), of rq_limit] by simp
  have fin: "\<exists>q' ps'. (let q3 = (if head q2 = 0 then q2\<lparr>head := p, tail := p\<rparr>
                    else q2\<lparr>next_of := (next_of q2)(tail q2 := p), tail := p\<rparr>);
              q4 = q3\<lparr>len := len q3 + 1\<rparr>
          in bindE (verifyQueue q4) (\<lambda>_. Inr (q4, drops))) = Inr (q', drops) \<and> rep q' ps'
      \<and> abs_q q' ps' = (abs_q q2 ps2)\<lparr>rq_pkts := rq_pkts (abs_q q2 ps2) @ [?b]\<rparr>"
    if "rep q2 ps2" "p \<notin> set ps2" "next_of q2 p = 0" "pkt_of q2 = pkt_of ?q1" for q2 ps2 and drops :: "(packet \<times> drop_reason) list"
    using rep_append [OF that(1) p(1) that(2,3)] verifyQueue_rep that(4)
    by (intro exI [of _ "let q3 = (if head q2 = 0 then q2\<lparr>head := p, tail := p\<rparr>
                    else q2\<lparr>next_of := (next_of q2)(tail q2 := p), tail := p\<rparr>)
                  in q3\<lparr>len := len q3 + 1\<rparr>"] exI [of _ "ps2 @ [p]"])
      (auto simp: Let_def abs_q_def)
  show ?thesis
  proof (cases "len q0 = limit q0")
    case False
    then have "rq_enque clock (pkt_of q p) (abs_q q ps)
        = Inr ((abs_q ?q1 ps0)\<lparr>rq_pkts := rq_pkts (abs_q ?q1 ps0) @ [?b]\<rparr>, [])"
      unfolding rq_enque_def 0(3) [symmetric] 1(2) using rep_len [OF 0(2)] 0(5)
      by (simp add: abs_q_def)
    with fin [OF 1(1) p0 1(3) refl, of "[]"] False 0(1) show ?thesis
      by (fastforce simp: enque_def Let_def)
  next
    case True
    have ne: "ps0 \<noteq> []" using True 0(2) lim l by (auto simp: rep_def)
    obtain q2 where 2: "remove_head ?q1 = Inr (head ?q1, q2)" "rep q2 (tl ps0)"
      "pkt_of q2 = pkt_of ?q1" "limit q2 = limit ?q1" "timeout q2 = timeout ?q1"
      "head ?q1 = hd ps0" "next_of q2 = next_of ?q1"
      using remove_head_rep [OF 1(1)] ne by auto
    have h: "hd ps0 \<noteq> 0" "hd ps0 \<noteq> p" "p \<notin> set (tl ps0)"
      using 1(1) ne p0 chain_nonnull [of "next_of ?q1" "head ?q1" ps0]
      by (cases ps0; auto simp: rep_def)+
    let ?drops = "[(pkt_of q0 (hd ps0),
      if ch_ts (pkt_of q0 (hd ps0)) > clock then DROP_RTR_QFULL else DROP_RTR_QTIMEOUT)]"
    have "rq_enque clock (pkt_of q p) (abs_q q ps)
        = Inr ((abs_q q2 (tl ps0))\<lparr>rq_pkts := rq_pkts (abs_q q2 (tl ps0)) @ [?b]\<rparr>, ?drops)"
      unfolding rq_enque_def 0(3) [symmetric] using rep_len [OF 0(2)] 0(5) True ne 2 p0
      by (cases ps0) (auto simp: abs_q_def rq_remove_head_def)
    with fin [OF 2(2) h(3) _ 2(3), of ?drops] True 0(1) 2 h show ?thesis
      by (fastforce simp: enque_def Let_def assertE_def)
  qed
qed

end
