(* ===== verification/QueueProps.thy ===== *)
theory QueueProps
  imports RQueuePtr PriQueue
begin

text \<open>
  What the send buffer (\<^verbatim>\<open>eamrp_rqueue.cc\<close>) and the interface queue (\<^verbatim>\<open>priqueue.cc\<close>)
  promise: the linked queue behaves as the list queue, keeps arrival order and its bound,
  and the priority queue's loops end with the packets their callers expect.
\<close>

section \<open>The operations of the send buffer\<close>

datatype queue_op = Enque ptr | Deque | Deque_dst nsaddr | Find nsaddr

datatype queue_result = Drops "(packet \<times> drop_reason) list" | Taken "packet option" | Found bool

definition taken :: "prqueue \<Rightarrow> ptr \<Rightarrow> queue_result" where
  "taken q p = Taken (if p = 0 then None else Some (pkt_of q p))"

text \<open>One call on the linked queue, and the same call on the list queue.\<close>

fun ptr_op :: "time \<Rightarrow> queue_op \<Rightarrow> prqueue \<Rightarrow> fault + queue_result \<times> prqueue" where
  "ptr_op clock (Enque p) q = bindE (enque clock p q) (\<lambda>(q', drops). Inr (Drops drops, q'))"
| "ptr_op clock Deque q = bindE (deque clock q) (\<lambda>(p, q'). Inr (taken q p, q'))"
| "ptr_op clock (Deque_dst d) q = bindE (deque_dst clock d q) (\<lambda>(p, q'). Inr (taken q p, q'))"
| "ptr_op clock (Find d) q = bindE (find_dst d q) (\<lambda>b. Inr (Found b, q))"

fun list_op :: "time \<Rightarrow> queue_op \<Rightarrow> (ptr \<Rightarrow> packet) \<Rightarrow> eamrp_rqueue \<Rightarrow> fault + queue_result \<times> eamrp_rqueue" where
  "list_op clock (Enque p) cell q = bindE (rq_enque clock (cell p) q) (\<lambda>(q', drops). Inr (Drops drops, q'))"
| "list_op clock Deque cell q = (let (r, q') = rq_deque clock q in Inr (Taken r, q'))"
| "list_op clock (Deque_dst d) cell q = (let (r, q') = rq_deque_dst clock d q in Inr (Taken r, q'))"
| "list_op clock (Find d) cell q = Inr (Found (rq_find d q), q)"

text \<open>A packet that is enqueued is not linked already, and is not the null pointer.\<close>

fun op_ok :: "queue_op \<Rightarrow> ptr list \<Rightarrow> bool" where
  "op_ok (Enque p) ps = (p \<noteq> 0 \<and> p \<notin> set ps)"
| "op_ok _ ps = True"

lemma find_dst_rep: "rep q ps \<Longrightarrow> find_dst d q = Inr (rq_find d (abs_q q ps))"
  using find_cells [of q ps d] by (auto simp: find_dst_def rq_find_def find_map o_def)

text \<open>
  C21. Refinement: every operation of the linked queue returns without a fault (its own
  assertions on length, tail and links never fail, no walk diverges), leaves a well-formed
  list, and its result and new contents are those of the list queue.
\<close>

theorem queue_refines_list:
  assumes "rep q ps" and "0 < limit q" and "op_ok oper ps"
  shows "\<exists>res q' ps'. ptr_op clock oper q = Inr (res, q') \<and> rep q' ps'
    \<and> list_op clock oper (pkt_of q) (abs_q q ps) = Inr (res, abs_q q' ps')"
proof (cases oper)
  case (Enque p)
  with assms enque_rep [OF assms(1) _ _ assms(2), of p clock] show ?thesis by fastforce
next
  case Deque
  obtain p q' ps' where d: "deque clock q = Inr (p, q')" "rep q' ps'"
    "rq_deque clock (abs_q q ps) = ((if p = 0 then None else Some (pkt_of q p)), abs_q q' ps')"
    using deque_rep [OF assms(1), of clock] by metis
  with Deque show ?thesis by (simp add: taken_def) blast
next
  case (Deque_dst c)
  obtain p q' ps' where d: "deque_dst clock c q = Inr (p, q')" "rep q' ps'"
    "rq_deque_dst clock c (abs_q q ps) = ((if p = 0 then None else Some (pkt_of q p)), abs_q q' ps')"
    using deque_dst_rep [OF assms(1), of clock c] by metis
  with Deque_dst show ?thesis by (simp add: taken_def) blast
next
  case (Find d)
  with find_dst_rep [OF assms(1), of d] assms(1) show ?thesis by auto
qed

definition empty_prqueue :: prqueue where
  "empty_prqueue = \<lparr>next_of = (\<lambda>_. 0), pkt_of = (\<lambda>_. packet_alloc), head = 0, tail = 0, len = 0,
     limit = EAMRP_RTQ_MAX_LEN, timeout = EAMRP_RTQ_TIMEOUT\<rparr>"

lemma empty_rep: "rep empty_prqueue []"
  by (simp add: rep_def empty_prqueue_def last_cell_def)

theorem queue_refines_list_witness:
  "\<exists>res q' ps'. ptr_op 1 (Enque 7) empty_prqueue = Inr (res, q') \<and> rep q' ps'
    \<and> list_op 1 (Enque 7) (pkt_of empty_prqueue) (abs_q empty_prqueue []) = Inr (res, abs_q q' ps')"
  by (rule queue_refines_list [OF empty_rep])
    (simp_all add: empty_prqueue_def EAMRP_RTQ_MAX_LEN_def)

text \<open>
  C26. \<^verbatim>\<open>enque\<close> keeps the bound and arrival order: what it drops followed by what it keeps is
  the live old contents followed by the stamped packet. At most one packet, the oldest, is
  dropped, and only when the buffer is full. Timed-out packets are in neither list: the
  purge loses them without telling anyone.
\<close>

theorem enque_accounts_for_packets:
  assumes "rq_len q \<le> rq_limit q" and "0 < rq_limit q"
  shows "\<exists>q' drops. rq_enque clock p q = Inr (q', drops) \<and> rq_len q' \<le> rq_limit q'
    \<and> map fst drops @ rq_pkts q'
        = filter (\<lambda>p. \<not> ch_ts p < clock) (rq_pkts q) @ [p\<lparr>ch_ts := clock + rq_timeout q\<rparr>]
    \<and> length drops = (if int (length (filter (\<lambda>p. \<not> ch_ts p < clock) (rq_pkts q))) = rq_limit q then 1 else 0)"
proof -
  let ?live = "filter (\<lambda>p. \<not> ch_ts p < clock) (rq_pkts q)"
  have live: "rq_pkts (rq_purge clock q) = ?live" by (simp add: rq_purge_filter rq_aged_def)
  have "int (length ?live) \<le> rq_len q" by (simp add: rq_len_def)
  then have le: "int (length ?live) \<le> rq_limit q" using assms(1) by linarith
  show ?thesis
  proof (cases ?live)
    case Nil
    with live assms show ?thesis by (auto simp: rq_enque_def Let_def rq_len_def)
  next
    case (Cons r rs)
    with live assms le show ?thesis by (auto simp: rq_enque_def Let_def rq_len_def rq_remove_head_def)
  qed
qed

theorem enque_accounts_for_packets_witness:
  "\<exists>q' drops. rq_enque 5 packet_alloc rq_new = Inr (q', drops) \<and> rq_len q' \<le> rq_limit q'
    \<and> map fst drops @ rq_pkts q'
        = filter (\<lambda>p. \<not> ch_ts p < 5) (rq_pkts rq_new) @ [packet_alloc\<lparr>ch_ts := 5 + rq_timeout rq_new\<rparr>]
    \<and> length drops = (if int (length (filter (\<lambda>p. \<not> ch_ts p < 5) (rq_pkts rq_new))) = rq_limit rq_new then 1 else 0)"
  by (rule enque_accounts_for_packets) (simp_all add: rq_new_def rq_len_def EAMRP_RTQ_MAX_LEN_def)

text \<open>
  \<^verbatim>\<open>deque(dst)\<close> returns the oldest live packet for the destination and leaves all others
  in their order; it returns null exactly when no live packet is for the destination.
\<close>

lemma deque_dst_is_fifo:
  "case rq_deque_dst clock d q of
     (None, q') \<Rightarrow> filter (\<lambda>p. ih_daddr p = d \<and> \<not> ch_ts p < clock) (rq_pkts q) = []
        \<and> rq_pkts q' = filter (\<lambda>p. \<not> ch_ts p < clock) (rq_pkts q)
   | (Some p, q') \<Rightarrow>
        filter (\<lambda>p. ih_daddr p = d \<and> \<not> ch_ts p < clock) (rq_pkts q)
          = p # filter (\<lambda>p. ih_daddr p = d) (rq_pkts q')
        \<and> filter (\<lambda>p. ih_daddr p \<noteq> d \<and> \<not> ch_ts p < clock) (rq_pkts q)
          = filter (\<lambda>p. ih_daddr p \<noteq> d) (rq_pkts q')"
proof -
  obtain r q' where r: "rq_deque_dst clock d q = (r, q')" by (cases "rq_deque_dst clock d q")
  have swap: "filter (\<lambda>p. P p \<and> \<not> ch_ts p < clock) ps = filter P (filter (\<lambda>p. \<not> rq_aged clock p) ps)"
    for P ps by (simp add: rq_aged_def conj_commute)
  show ?thesis
  proof (cases r)
    case None
    with r sb.deq_None [of clock d q q'] show ?thesis
      by (auto simp: rq_aged_def filter_empty_conv)
  next
    case (Some p)
    with r sb.deq_Some_order [of clock d q p q'] show ?thesis by (simp add: swap)
  qed
qed

section \<open>The interface queue\<close>

text \<open>The ns-2 packet queue as its documentation describes it.\<close>

definition list_pq :: pq_ops where
  "list_pq = \<lparr>q_enqueHead = (\<lambda>p ps. p # ps), q_remove = (\<lambda>i ps. take i ps @ drop (Suc i) ps),
     q_deque = (\<lambda>ps. case ps of [] \<Rightarrow> (None, []) | p # ps \<Rightarrow> (Some p, ps)),
     q_recv = (\<lambda>p ps. (ps @ [p], []))\<rparr>"

lemma list_pq_lawful: "pq_lawful list_pq"
  by (simp add: pq_lawful_def list_pq_def)

text \<open>
  C28. \<^verbatim>\<open>PriQueue::filter(filter, data)\<close> terminates, though its index does not advance after a
  removal, and keeps exactly the packets the filter does not match, in order.
\<close>

theorem priqueue_filter_exact:
  assumes "pq_lawful Q"
  shows "pq_filter Q f q = Inr (q\<lparr>q_packets := filter (\<lambda>p. \<not> f p) (q_packets q)\<rparr>)"
  using pq_filter_loop_lawful [OF assms, of 0 "q_packets q"] by (simp add: pq_filter_def)

theorem priqueue_filter_exact_witness:
  "pq_filter list_pq (\<lambda>p. ih_ttl p = 0) \<lparr>q_packets = [packet_alloc, packet_alloc\<lparr>ih_ttl := 3\<rparr>], qlim = 50,
      blocked = False, Prefer_Routing_Protocols = True\<rparr>
    = Inr \<lparr>q_packets = [packet_alloc\<lparr>ih_ttl := 3\<rparr>], qlim = 50, blocked = False, Prefer_Routing_Protocols = True\<rparr>"
  by (subst priqueue_filter_exact [OF list_pq_lawful]) (simp add: packet_alloc_def packet_init_def)

text \<open>
  C29. A routing packet that arrives at a busy \<^verbatim>\<open>PriQueue\<close> goes to the front; at the limit the
  last packet is dropped, which is the new one itself when the queue held none.
\<close>

theorem routing_packet_goes_first:
  assumes "pq_lawful Q" and "blocked q" and "Prefer_Routing_Protocols q" and "ch_ptype p = PT_EAMRP"
  shows "pq_recv Q p q =
    (if int (length (q_packets q)) + 1 \<ge> qlim q
     then (q\<lparr>q_packets := butlast (p # q_packets q)\<rparr>, [Pq_drop (last (p # q_packets q)) DROP_UNSPECIFIED])
     else (q\<lparr>q_packets := p # q_packets q\<rparr>, []))"
proof -
  have "take (length ps - Suc 0) ps @ drop (Suc (length ps - Suc 0)) ps = butlast ps" for ps :: "packet list"
    by (simp add: butlast_conv_take)
  moreover have "(p # q_packets q) ! length (q_packets q) = last (p # q_packets q)"
    by (simp add: last_conv_nth)
  ultimately show ?thesis
    using assms pq_lawfulD(2) [OF assms(1), of "length (q_packets q)" "p # q_packets q"]
    by (auto simp: pq_recv_def recvHighPriority_def pq_lawfulD(1) [OF assms(1)] Let_def butlast_conv_take)
qed

theorem routing_packet_goes_first_witness:
  "pq_recv list_pq (packet_alloc\<lparr>ch_ptype := PT_EAMRP\<rparr>)
     \<lparr>q_packets = [packet_alloc], qlim = 2, blocked = True, Prefer_Routing_Protocols = True\<rparr>
   = (\<lparr>q_packets = [packet_alloc\<lparr>ch_ptype := PT_EAMRP\<rparr>], qlim = 2, blocked = True,
       Prefer_Routing_Protocols = True\<rparr>, [Pq_drop packet_alloc DROP_UNSPECIFIED])"
  by (subst routing_packet_goes_first [OF list_pq_lawful]) simp_all

end
