(* ===== verification/TableProps.thy ===== *)
theory TableProps
  imports Caches
begin

text \<open>
  What the packet types (\<^verbatim>\<open>packet.h\<close>), the routing table (\<^verbatim>\<open>eamrp_rtable.cc\<close>) and the
  broadcast ID cache (\<^verbatim>\<open>eamrp.h\<close>) promise.
\<close>

section \<open>Paths\<close>

text \<open>
  C27. \<^verbatim>\<open>path_purge\<close> terminates although it restarts from the head after every removal; it
  removes exactly the expired paths, keeps the order of the others, and keeps the path
  counter equal to the length and the paths node-disjoint.
\<close>

theorem path_purge_exact:
  assumes "paths_ok rt"
  shows "rt_path_list (path_purge clock rt) = filter (\<lambda>p. \<not> path_expire p < clock) (rt_path_list rt)
    \<and> paths_ok (path_purge clock rt)"
  using paths_ok_purge [OF assms, of clock] by (simp add: path_purge_filter)

definition two_paths :: eamrp_rt_entry where
  "two_paths = path_insert 2 3 20 6 1 (path_insert 1 2 10 5 1 (new_rt_entry 0))"

lemma two_paths_ok: "paths_ok two_paths"
  by (simp add: two_paths_def paths_ok_def new_rt_entry_def)

theorem path_purge_exact_witness:
  "rt_path_list (path_purge 15 two_paths)
      = filter (\<lambda>p. \<not> path_expire p < 15) (rt_path_list two_paths)
    \<and> paths_ok (path_purge 15 two_paths)
    \<and> map nexthop (rt_path_list (path_purge 15 two_paths)) = [2]"
  using path_purge_exact [OF two_paths_ok, of 15]
  by (simp add: two_paths_def new_rt_entry_def)

lemma longest_scan_spec:
  assumes "\<forall>p\<in>set ps. hopcount p \<noteq> INFINITY2"
  shows "\<exists>r. longest_scan ps i best mx = Inr r \<and>
    (r = best \<and> (\<forall>p\<in>set ps. hopcount p \<le> mx) \<or>
     (\<exists>as p bs. ps = as @ p # bs \<and> r = Some (i + length as) \<and> mx < hopcount p
        \<and> (\<forall>q\<in>set as. hopcount q < hopcount p) \<and> (\<forall>q\<in>set bs. hopcount q \<le> hopcount p)))"
  using assms
proof (induction ps arbitrary: i best mx)
  case (Cons x ps)
  show ?case
  proof (cases "mx < hopcount x")
    case True
    obtain r where r: "longest_scan ps (Suc i) (Some i) (hopcount x) = Inr r"
      "r = Some i \<and> (\<forall>p\<in>set ps. hopcount p \<le> hopcount x) \<or>
       (\<exists>as p bs. ps = as @ p # bs \<and> r = Some (Suc i + length as) \<and> hopcount x < hopcount p
          \<and> (\<forall>q\<in>set as. hopcount q < hopcount p) \<and> (\<forall>q\<in>set bs. hopcount q \<le> hopcount p))"
      using Cons.IH [of "Suc i" "Some i" "hopcount x"] Cons.prems by auto
    from r(2) have "\<exists>as p bs. x # ps = as @ p # bs \<and> r = Some (i + length as) \<and> mx < hopcount p
        \<and> (\<forall>q\<in>set as. hopcount q < hopcount p) \<and> (\<forall>q\<in>set bs. hopcount q \<le> hopcount p)"
    proof
      assume "r = Some i \<and> (\<forall>p\<in>set ps. hopcount p \<le> hopcount x)"
      with True show ?thesis by (intro exI [of _ "[]"] exI [of _ x] exI [of _ ps]) simp
    next
      assume "\<exists>as p bs. ps = as @ p # bs \<and> r = Some (Suc i + length as) \<and> hopcount x < hopcount p
          \<and> (\<forall>q\<in>set as. hopcount q < hopcount p) \<and> (\<forall>q\<in>set bs. hopcount q \<le> hopcount p)"
      then obtain as p bs where "ps = as @ p # bs" "r = Some (Suc i + length as)" "hopcount x < hopcount p"
        "\<forall>q\<in>set as. hopcount q < hopcount p" "\<forall>q\<in>set bs. hopcount q \<le> hopcount p" by blast
      with True show ?thesis by (intro exI [of _ "x # as"] exI [of _ p] exI [of _ bs]) auto
    qed
    with True r(1) Cons.prems show ?thesis by (simp add: assertE_def)
  next
    case False
    obtain r where r: "longest_scan ps (Suc i) best mx = Inr r"
      "r = best \<and> (\<forall>p\<in>set ps. hopcount p \<le> mx) \<or>
       (\<exists>as p bs. ps = as @ p # bs \<and> r = Some (Suc i + length as) \<and> mx < hopcount p
          \<and> (\<forall>q\<in>set as. hopcount q < hopcount p) \<and> (\<forall>q\<in>set bs. hopcount q \<le> hopcount p))"
      using Cons.IH [of "Suc i" best mx] Cons.prems by auto
    from r(2) show ?thesis
    proof
      assume "r = best \<and> (\<forall>p\<in>set ps. hopcount p \<le> mx)"
      with False r(1) show ?thesis by auto
    next
      assume "\<exists>as p bs. ps = as @ p # bs \<and> r = Some (Suc i + length as) \<and> mx < hopcount p
          \<and> (\<forall>q\<in>set as. hopcount q < hopcount p) \<and> (\<forall>q\<in>set bs. hopcount q \<le> hopcount p)"
      then obtain as p bs where s: "ps = as @ p # bs" "r = Some (Suc i + length as)" "mx < hopcount p"
        "\<forall>q\<in>set as. hopcount q < hopcount p" "\<forall>q\<in>set bs. hopcount q \<le> hopcount p" by blast
      have "hopcount x < hopcount p" using False s(3) by simp
      with s have "\<exists>as p bs. x # ps = as @ p # bs \<and> r = Some (i + length as) \<and> mx < hopcount p
        \<and> (\<forall>q\<in>set as. hopcount q < hopcount p) \<and> (\<forall>q\<in>set bs. hopcount q \<le> hopcount p)"
        by (intro exI [of _ "x # as"] exI [of _ p] exI [of _ bs]) auto
      with False r(1) show ?thesis by auto
    qed
  qed
qed simp

text \<open>
  \<^verbatim>\<open>path_delete_longest\<close> removes one path, the first among those with the most hops, and
  decrements the counter, whenever no path has the hop count 255 its \<^verbatim>\<open>assert\<close> rules out.
\<close>

lemma path_delete_longest_removes_longest:
  assumes "rt_path_list rt \<noteq> []" and "\<forall>p\<in>set (rt_path_list rt). hopcount p \<noteq> INFINITY2 \<and> 0 < hopcount p"
  shows "\<exists>as p bs. rt_path_list rt = as @ p # bs
    \<and> (\<forall>q\<in>set as. hopcount q < hopcount p) \<and> (\<forall>q\<in>set bs. hopcount q \<le> hopcount p)
    \<and> path_delete_longest rt = Inr (rt\<lparr>rt_path_list := as @ bs, rt_num_paths := rt_num_paths rt - 1\<rparr>)"
proof -
  obtain r where r: "longest_scan (rt_path_list rt) 0 None 0 = Inr r"
    "r = None \<and> (\<forall>p\<in>set (rt_path_list rt). hopcount p \<le> 0) \<or>
     (\<exists>as p bs. rt_path_list rt = as @ p # bs \<and> r = Some (0 + length as) \<and> 0 < hopcount p
        \<and> (\<forall>q\<in>set as. hopcount q < hopcount p) \<and> (\<forall>q\<in>set bs. hopcount q \<le> hopcount p))"
    using longest_scan_spec [of "rt_path_list rt" 0 None 0] assms(2) by auto
  obtain x where "x \<in> set (rt_path_list rt)" using assms(1) by (cases "rt_path_list rt") auto
  then have "\<not> (\<forall>p\<in>set (rt_path_list rt). hopcount p \<le> 0)" using assms(2) by (meson not_le)
  with r(2) obtain as p bs where "rt_path_list rt = as @ p # bs" "r = Some (length as)"
    "\<forall>q\<in>set as. hopcount q < hopcount p" "\<forall>q\<in>set bs. hopcount q \<le> hopcount p" by auto
  with r(1) show ?thesis
    by (intro exI [of _ as] exI [of _ p] exI [of _ bs]) (simp add: path_delete_longest_def)
qed

lemma two_paths_delete_longest:
  "\<exists>as p bs. rt_path_list two_paths = as @ p # bs
    \<and> (\<forall>q\<in>set as. hopcount q < hopcount p) \<and> (\<forall>q\<in>set bs. hopcount q \<le> hopcount p)
    \<and> path_delete_longest two_paths
        = Inr (two_paths\<lparr>rt_path_list := as @ bs, rt_num_paths := rt_num_paths two_paths - 1\<rparr>)"
  by (rule path_delete_longest_removes_longest)
    (simp_all add: two_paths_def new_rt_entry_def INFINITY2_def)

lemma minhop_scan_spec:
  "minhop_scan ps best mn =
     (if \<exists>p\<in>set ps. hopcount p < mn
      then find (\<lambda>p. hopcount p = Min (hopcount ` set ps)) ps else best)"
proof (induction ps arbitrary: best mn)
  case (Cons x ps)
  show ?case
  proof (cases "\<exists>p\<in>set ps. hopcount p < min (hopcount x) mn")
    case True
    then obtain y where y: "y \<in> set ps" "hopcount y < hopcount x" "hopcount y < mn" by auto
    have "Min (hopcount ` set ps) \<le> hopcount y" using y(1) by simp
    then have less: "Min (hopcount ` set ps) < hopcount x" using y(2) by simp
    moreover have "hopcount ` set ps \<noteq> {}" using y(1) by auto
    ultimately have m: "Min (hopcount ` set (x # ps)) = Min (hopcount ` set ps)"
      "Min (hopcount ` set ps) \<noteq> hopcount x" by (simp_all add: min_absorb2 del: Min_less_iff Min.bounded_iff)
    with True y Cons.IH show ?thesis by (cases "hopcount x < mn") auto
  next
    case False
    have "Min (hopcount ` set (x # ps)) = hopcount x" if "hopcount x < mn"
      using False that by (intro Min_eqI) (auto simp: min_def split: if_splits)
    with False Cons.IH show ?thesis by (cases "hopcount x < mn") (auto simp: min_def split: if_splits)
  qed
qed simp

text \<open>
  \<^verbatim>\<open>path_findMinHop\<close> returns the first path with the smallest hop count; null only if there
  is none below 65535.
\<close>

lemma path_findMinHop_minimal:
  "path_findMinHop rt =
     (if \<exists>p\<in>set (rt_path_list rt). hopcount p < 0xffff
      then find (\<lambda>p. hopcount p = Min (hopcount ` set (rt_path_list rt))) (rt_path_list rt) else None)"
  by (simp add: path_findMinHop_def minhop_scan_spec)

text \<open>
  The hop counts the protocol advertises and compares are the maximum and the minimum over
  the path list, with 255 as the minimum's start and as the maximum of an empty list.
\<close>

lemma path_hopcount_extrema:
  "path_get_max_hopcount rt =
      (if \<forall>p\<in>set (rt_path_list rt). hopcount p = 0 then INFINITY2 else Max (hopcount ` set (rt_path_list rt)))
   \<and> path_get_min_hopcount rt = Min (insert INFINITY2 (hopcount ` set (rt_path_list rt)))"
proof
  let ?ps = "rt_path_list rt"
  note mem = max_hop_scan_mem [of ?ps 0] and up = max_hop_scan_upper [of _ ?ps 0]
  have "max_hop_scan ?ps 0 = Max (hopcount ` set ?ps)" if "p \<in> set ?ps" "hopcount p \<noteq> 0" for p
  proof (rule Max_eqI [symmetric])
    have "max_hop_scan ?ps 0 \<noteq> 0" using up [OF that(1)] that(2) by (auto simp: word_le_0_iff)
    then show "max_hop_scan ?ps 0 \<in> hopcount ` set ?ps" using mem by auto
  qed (use up in auto)
  moreover have "max_hop_scan ?ps 0 = 0 \<longleftrightarrow> (\<forall>p\<in>set ?ps. hopcount p = 0)"
    using mem up by (metis word_le_0_iff)
  ultimately show "path_get_max_hopcount rt =
      (if \<forall>p\<in>set ?ps. hopcount p = 0 then INFINITY2 else Max (hopcount ` set ?ps))"
    by (auto simp: path_get_max_hopcount_def Let_def)
  show "path_get_min_hopcount rt = Min (insert INFINITY2 (hopcount ` set ?ps))"
    using min_hop_scan_mem [of ?ps INFINITY2] min_hop_scan_lower [of _ ?ps INFINITY2]
      min_hop_scan_le [of ?ps INFINITY2]
    by (intro Min_eqI [symmetric]) (auto simp: path_get_min_hopcount_def)
qed

section \<open>The table\<close>

text \<open>
  C30. The table is a store: after \<^verbatim>\<open>rt_add\<close> of a new destination its lookup yields a fresh entry
  that is down and has no path, every other lookup is unchanged, and \<^verbatim>\<open>rt_delete\<close> undoes the
  addition. Adding a destination twice fails the \<^verbatim>\<open>assert\<close>.
\<close>

theorem rt_add_lookup_delete:
  "case rt_add g d t of
     Inl f \<Rightarrow> f = Assert_failed Rt_fresh \<and> rt_lookup d t \<noteq> None
   | Inr t' \<Rightarrow> rt_lookup d t = None
       \<and> (\<exists>rt. rt_lookup d t' = Some rt \<and> rt_flags rt = RTF_DOWN \<and> rt_path_list rt = [] \<and> rt_hops rt = g)
       \<and> (\<forall>c. c \<noteq> d \<longrightarrow> rt_lookup c t' = rt_lookup c t) \<and> rt_delete d t' = t"
  by (auto simp: rt_add_def assertE_def rt_delete_def new_rt_entry_def bindE_def)

theorem rt_add_lookup_delete_witness:
  "rt_add 9 3 ([] :: eamrp_rt_entry list) = Inr [(new_rt_entry 9)\<lparr>rt_dst := 3\<rparr>]
    \<and> rt_lookup 4 [(new_rt_entry 9)\<lparr>rt_dst := 3\<rparr>] = None"
proof -
  have a: "rt_add 9 3 [] = Inr [(new_rt_entry 9)\<lparr>rt_dst := 3\<rparr>]"
    by (simp add: rt_add_def assertE_def)
  from rt_add_lookup_delete [where g = 9 and d = 3 and t = "[]"] a show ?thesis by simp
qed

section \<open>Broadcast IDs\<close>

lemma id_purge_get:
  assumes "distinct (map (\<lambda>b. (bi_src b, bi_id b)) bs)"
  shows "id_get k (id_purge clock bs) =
    (case id_get k bs of None \<Rightarrow> None | Some b \<Rightarrow> if bi_expire b \<le> clock then None else Some b)"
  using assms
proof (induction bs)
  case (Cons b bs)
  have "id_get (bi_src b, bi_id b) bs = None"
    using Cons.prems by (auto simp: ids.lookup_None)
  with Cons show ?case by (auto split: option.splits)
qed simp



text \<open>
  \<^verbatim>\<open>nb_insert\<close> leaves one entry for the node with the new lease, and keeps the other
  neighbours as they were.
\<close>

lemma nb_upsert_lookup:
  "nb_find a (nb_upsert until a nbs) = Some \<lparr>nb_addr = a, nb_expire = until\<rparr>
    \<and> (\<forall>c. c \<noteq> a \<longrightarrow> nb_find c (nb_upsert until a nbs) = nb_find c nbs)"
proof -
  have "nb_find c (nb_upsert until a nbs) = nb_find c nbs" if "c \<noteq> a" for c
  proof (cases "nb_find a nbs")
    case (Some nb)
    then have "nb_addr nb = a" by (rule nbl.lookup_key)
    with Some that nbs.lookup_put_other [of c "nb\<lparr>nb_expire := until\<rparr>" nbs] show ?thesis
      by (simp add: nb_upsert_def)
  qed (use that in \<open>simp add: nb_upsert_def\<close>)
  with nb_upsert_find show ?thesis by blast
qed

section \<open>Packet types\<close>

lemma row_names:
  "distinct (map snd initName_rows)" "52 \<notin> fst ` set initName_rows"
  "''PGM'' \<notin> snd ` set initName_rows" "''no such type'' \<notin> snd ` set initName_rows"
  by (simp_all add: initName_rows_def)

lemma row_types: "{..<75} \<subseteq> (\<lambda>r. unat (fst r)) ` set ((52, ''PGM'') # initName_rows)"
  by (simp add: initName_rows_def lessThan_nat_numeral lessThan_Suc)

lemma name_slot_total:
  assumes "unat t < 75" shows "name_slot True t \<noteq> None"
proof -
  have "unat t \<in> (\<lambda>r. unat (fst r)) ` set ((52, ''PGM'') # initName_rows)" using row_types assms by blast
  then have "\<exists>r\<in>set ((52, ''PGM'') # initName_rows). unat t = unat (fst r)" by (simp only: image_iff)
  then obtain r where "r \<in> set ((52, ''PGM'') # initName_rows)" "unat t = unat (fst r)" by (elim bexE)
  then have "t = 52 \<or> t \<in> fst ` set initName_rows" by (auto simp: word_unat_eq_iff [symmetric])
  with map_of_eq_None_iff [of initName_rows t] show ?thesis
    by (cases "t = 52") (simp_all add: name_slot_def)
qed

lemma name_slot_row: "name_slot h t = Some n \<Longrightarrow> (t, n) \<in> set ((52, ''PGM'') # initName_rows)"
  by (auto simp: name_slot_def dest: map_of_SomeD split: if_splits)

lemma name_slot_inj:
  assumes "name_slot True a = Some n" and "name_slot True b = Some n" shows "a = b"
proof -
  have "inj_on snd (set ((52, ''PGM'') # initName_rows))"
    using row_names(1,3) by (auto simp: distinct_map)
  from inj_onD [OF this _ name_slot_row [OF assms(1)] name_slot_row [OF assms(2)]] show ?thesis by simp
qed

lemma getType_from_first:
  "\<forall>j\<in>set is. name_slot h (of_nat j) \<noteq> None \<Longrightarrow>
   \<forall>j\<in>set is. name_slot h (of_nat j) = Some n \<longrightarrow> of_nat j = t \<Longrightarrow> name_slot h t = Some n \<Longrightarrow>
   t \<in> of_nat ` set is \<Longrightarrow> getType_from h n is = Inr t"
  by (induction "is") (auto split: option.splits)

lemma getType_from_skip:
  "\<forall>j\<in>set is. \<exists>m. name_slot h (of_nat j) = Some m \<and> m \<noteq> n \<Longrightarrow>
     getType_from h n (is @ js) = getType_from h n js"
  by (induction "is") auto

text \<open>
  C33. Round trip: with \<^verbatim>\<open>HAVE_STL\<close> every packet type up to \<^verbatim>\<open>PT_NTYPE\<close> has a name, and searching
  that name gives the type back.
\<close>

theorem packet_name_roundtrip:
  assumes "t \<le> PT_NTYPE"
  shows "\<exists>n. p_info_name True t = Inr (Some n) \<and> getType True n = Inr t"
proof -
  have t: "unat t < 75" using assms by (simp add: word_le_nat_alt)
  obtain n where n: "name_slot True t = Some n" using name_slot_total [OF t] by blast
  have "t \<in> of_nat ` set [0..<75]" using t by (intro image_eqI [of _ _ "unat t"]) simp_all
  moreover have "\<forall>j\<in>set [0..<75]. name_slot True (of_nat j) \<noteq> None"
    by (intro ballI name_slot_total) (simp add: unat_of_nat)
  ultimately have "getType_from True n [0..<75] = Inr t"
    using n name_slot_inj by (intro getType_from_first) blast+
  moreover have "t < nPkt" using t by (simp add: nPkt_def word_less_nat_alt)
  ultimately show ?thesis using n by (simp add: p_info_name_def getType_def nPkt_def)
qed

theorem packet_name_roundtrip_witness:
  "\<exists>n. p_info_name True PT_EAMRP = Inr (Some n) \<and> getType True n = Inr PT_EAMRP"
  by (rule packet_name_roundtrip) simp



end
