(* ===== verification/AgentProps.thy ===== *)
theory AgentProps
  imports TimerInv QueueProps TableProps
begin

text \<open>
  What single handlers of the agent (\<^verbatim>\<open>eamrp.cc\<close>) promise, beyond keeping the node invariant:
  link failures and route errors, requests and their rate, replies, buffered packets,
  neighbours, and the conditions under which the simulation is aborted.
\<close>

section \<open>A concrete node\<close>

text \<open>
  Used to show that the hypotheses below can be met: surroundings with the documented packet
  queue, and node 9, connected, with two disjoint paths to node 5 and one packet buffered.
\<close>

definition demo_env :: "time \<Rightarrow> ns2" where
  "demo_env t = \<lparr>now = t, rnd = (\<lambda>_. 1 / 2), inf16 = 0xffff, eq_inf = (\<lambda>h. h = 0xffff),
     uninit16 = 0, IP_HDR_LEN = 20, AF_INET = 2, pq = list_pq\<rparr>"

definition demo_ifq :: pri_queue where
  "demo_ifq = \<lparr>q_packets = [], qlim = 50, blocked = False, Prefer_Routing_Protocols = True\<rparr>"

definition connected_node :: "nsaddr \<Rightarrow> eamrp" where
  "connected_node a = (EAMRP_new a 3 1 a)\<lparr>dmux := True, target := True, ifqueue := Some demo_ifq\<rparr>"

definition demo_route :: eamrp_rt_entry where
  "demo_route = path_insert 2 3 20 12 1 (path_insert 1 2 10 11 1
     ((new_rt_entry 0)\<lparr>rt_dst := 5, rt_seqno := 4, rt_flags := RTF_UP, rt_advertised_hops := 3,
       rt_last_hop_count := 3, rt_error := True\<rparr>))"

definition demo_data :: packet where
  "demo_data = packet_alloc\<lparr>ch_ptype := PT_CBR, ih_saddr := 9, ih_daddr := 5, ih_ttl := 30, ch_ts := 40\<rparr>"

definition demo_node :: eamrp where
  "demo_node = (connected_node 9)\<lparr>rtable := [demo_route],
     rqueue := rq_new\<lparr>rq_pkts := [demo_data]\<rparr>, nbhead := [\<lparr>nb_addr = 1, nb_expire = 4\<rparr>]\<rparr>"

lemma demo_env_ok [simp]: "env_ok (demo_env t)"
  by (simp add: env_ok_def demo_env_def list_pq_lawful INFINITY2_def)

lemma demo_env_now [simp]: "now (demo_env t) = t" "pq (demo_env t) = list_pq"
  by (simp_all add: demo_env_def)

lemma connected_node_inv: "a \<noteq> IP_BROADCAST \<Longrightarrow> node_inv (connected_node a)"
  by (simp add: node_inv_def connected_node_def EAMRP_new_def table_ok_def buffer_ok_def rq_new_def rq_len_def
      EAMRP_RTQ_MAX_LEN_def)

lemma demo_route_sel [simp]:
  "rt_dst demo_route = 5" "rt_flags demo_route = RTF_UP" "rt_seqno demo_route = 4"
  "rt_error demo_route = True" "rt_expire demo_route = 0"
  by (simp_all add: demo_route_def path_insert_def new_rt_entry_def)

lemma demo_route_ok: "entry_ok 3 demo_route"
  by (auto simp: demo_route_def path_insert_def new_path_def new_rt_entry_def entry_defs paths_ok_def
      odd_or_zero_def INFINITY2_def)

lemma demo_node_inv: "node_inv demo_node"
  using demo_route_ok
  by (simp add: node_inv_def demo_node_def connected_node_def EAMRP_new_def table_ok_def buffer_ok_def
      rq_new_def rq_len_def EAMRP_RTQ_MAX_LEN_def demo_data_def IP_BROADCAST_def)

lemma demo_node_sel [simp]:
  "rtable demo_node = [demo_route]" "nbhead demo_node = [\<lparr>nb_addr = 1, nb_expire = 4\<rparr>]"
  "index demo_node = 9" "ifqueue demo_node = Some demo_ifq" "seqno demo_node = 2"
  by (simp_all add: demo_node_def connected_node_def EAMRP_new_def)

section \<open>Link failures\<close>

definition paths_avoiding :: "nsaddr \<Rightarrow> eamrp_rt_entry \<Rightarrow> EAMRP_Path list" where
  "paths_avoiding nb rt = filter (\<lambda>p. nexthop p \<noteq> nb) (rt_path_list rt)"

definition broken :: "nsaddr \<Rightarrow> eamrp_rt_entry \<Rightarrow> bool" where
  "broken nb rt \<longleftrightarrow> rt_path_list rt \<noteq> [] \<and> paths_avoiding nb rt = []"

definition re_dsts :: "hdr_eamrp_error \<Rightarrow> nsaddr list" where
  "re_dsts re = take (unat (DestCount re)) (unreachable_dst re)"

lemma re_push_dsts:
  assumes "re_ok re" and "unat (DestCount re) < EAMRP_MAX_ERRORS" and "odd_or_zero sq"
  shows "\<exists>re'. re_push d sq re = Inr re' \<and> re_ok re' \<and> re_dsts re' = re_dsts re @ [d]
    \<and> unat (DestCount re') = Suc (unat (DestCount re))"
  using re_push_ok [OF assms(1,3), of "{}" d] assms(1,2)
  by (auto simp: re_push_def Let_def re_dsts_def unat_u8_succ re_ok_def take_Suc_conv_app_nth)

lemma path_delete_cut:
  assumes "paths_ok rt" shows "rt_path_list (path_delete nb rt) = paths_avoiding nb rt"
proof (cases "\<exists>p\<in>set (rt_path_list rt). nexthop p = nb")
  case True
  then obtain p where "p \<in> set (rt_path_list rt)" "nexthop p = nb" by blast
  with assms show ?thesis
    using remove_first_filter_key [of nexthop "rt_path_list rt" p]
    by (simp add: path_delete_paths paths_avoiding_def paths_ok_def)
next
  case False
  then show ?thesis
    by (simp add: path_delete_paths paths_avoiding_def remove_first_id filter_id_conv)
qed

lemma path_lookup_cut: "path_lookup nb rt = None \<longleftrightarrow> paths_avoiding nb rt = rt_path_list rt"
  by (simp add: path_lookup_None_iff paths_avoiding_def filter_id_conv)

lemma rt_down_paths:
  "rt_flags rt = RTF_UP \<Longrightarrow> rt_path_list (rt_down E rt) = []"
  by (simp add: rt_down_def path_delete_all_def)

lemma link_failure_entry_spec:
  assumes ok: "entry_ok m rt" and re: "re_ok re"
    and room: "rt_flags rt = RTF_UP \<Longrightarrow> unat (DestCount re) < EAMRP_MAX_ERRORS"
  shows "\<exists>re' rt'. link_failure_entry E nb re rt = Inr (re', rt') \<and> rt_path_list rt' = paths_avoiding nb rt
    \<and> re_dsts re' = re_dsts re @ (if broken nb rt \<and> rt_error rt then [rt_dst rt] else [])
    \<and> (rt_flags rt' = RTF_UP \<longleftrightarrow> rt_flags rt = RTF_UP \<and> \<not> broken nb rt)"
proof (cases "rt_flags rt = RTF_UP \<and> path_lookup nb rt \<noteq> None")
  case False
  then have "paths_avoiding nb rt = rt_path_list rt"
    using entry_okD(6) [OF ok] path_lookup_cut [of nb rt] by (auto simp: paths_avoiding_def)
  moreover from this False have "\<not> broken nb rt" by (auto simp: broken_def)
  ultimately show ?thesis using False by (auto simp: link_failure_entry_def)
next
  case up: True
  note c = path_delete_cut [OF entry_okD(1) [OF ok], of nb]
  note pe = path_empty_ok [OF paths_ok_delete [OF entry_okD(1) [OF ok]], of nb, unfolded c]
  note ev = entry_okD(7) [OF ok]
  have ne: "rt_path_list rt \<noteq> []" using up entry_okD(6) [OF ok] by blast
  show ?thesis
  proof (cases "paths_avoiding nb rt = []")
    case False
    with up c pe ev show ?thesis by (auto simp: link_failure_entry_def Let_def broken_def)
  next
    case True
    have b: "broken nb rt" using True ne by (simp add: broken_def)
    let ?n = "max (rt_seqno rt + 1) (rt_highest_seqno_heard rt)"
    have "odd_or_zero ?n" using broken_seqno [OF ok] up ev by simp
    then obtain re' where r: "re_push (rt_dst rt) ?n re = Inr re'" "re_dsts re' = re_dsts re @ [rt_dst rt]"
      using re_push_dsts [OF re room] up by blast
    have "rt_path_list (rt_down E ((path_delete nb rt)\<lparr>rt_seqno := n\<rparr>)) = []"
      "rt_path_list (rt_down E ((path_delete nb rt)\<lparr>rt_seqno := n, rt_error := False\<rparr>)) = []" for n
      using up by (auto intro: rt_down_paths)
    with up pe ev True b r show ?thesis
      by (cases "rt_error rt") (simp_all add: link_failure_entry_def Let_def)
  qed
qed

lemma link_failure_walk_spec:
  assumes "\<forall>rt\<in>set t. entry_ok m rt" and "re_ok re"
    and "unat (DestCount re) + up_count t \<le> EAMRP_MAX_ERRORS"
  shows "\<exists>re' t'. link_failure_walk E nb re t = Inr (re', t') \<and> re_ok re'
    \<and> map rt_path_list t' = map (paths_avoiding nb) t
    \<and> re_dsts re' = re_dsts re @ map rt_dst (filter (\<lambda>rt. broken nb rt \<and> rt_error rt) t)
    \<and> map (\<lambda>rt. rt_flags rt = RTF_UP) t' = map (\<lambda>rt. rt_flags rt = RTF_UP \<and> \<not> broken nb rt) t"
  using assms
proof (induction t arbitrary: re)
  case (Cons rt t)
  obtain re1 rt1 where 1: "link_failure_entry E nb re rt = Inr (re1, rt1)" "rt_path_list rt1 = paths_avoiding nb rt"
    "re_dsts re1 = re_dsts re @ (if broken nb rt \<and> rt_error rt then [rt_dst rt] else [])"
    "rt_flags rt1 = RTF_UP \<longleftrightarrow> rt_flags rt = RTF_UP \<and> \<not> broken nb rt"
    using link_failure_entry_spec [of m rt re E nb] Cons.prems by fastforce
  have room: "rt_flags rt = RTF_UP \<longrightarrow> unat (DestCount re) < EAMRP_MAX_ERRORS" using Cons.prems(3) by auto
  have 2: "re_ok re1" "unat (DestCount re1) \<le> of_bool (rt_flags rt = RTF_UP) + unat (DestCount re)"
    using link_failure_entry_ok [of m rt re "{}" nb E] room Cons.prems(1,2) 1(1)
    by (cases "rt_flags rt = RTF_UP"; simp)+
  obtain re2 t2 where 3: "link_failure_walk E nb re1 t = Inr (re2, t2)" "re_ok re2"
    "map rt_path_list t2 = map (paths_avoiding nb) t"
    "re_dsts re2 = re_dsts re1 @ map rt_dst (filter (\<lambda>rt. broken nb rt \<and> rt_error rt) t)"
    "map (\<lambda>rt. rt_flags rt = RTF_UP) t2 = map (\<lambda>rt. rt_flags rt = RTF_UP \<and> \<not> broken nb rt) t"
    using Cons.IH [OF _ 2(1)] Cons.prems 2(2) by fastforce
  from 1 3 show ?case by simp
qed simp

lemma re_dsts_count:
  assumes "re_ok re" shows "DestCount re > 0 \<longleftrightarrow> re_dsts re \<noteq> []"
  using assms by (cases "DestCount re = 0") (auto simp: re_dsts_def re_ok_def word_greater_zero_iff
      unat_eq_zero EAMRP_MAX_ERRORS_def)

lemma sendError_out:
  "\<exists>t. out (sendError E re j s) = out s @ [Scheduled (packet_alloc\<lparr>ch_ptype := PT_EAMRP,
     ch_size := IP_HDR_LEN E + re_size re, ch_iface := - 2, ch_error := 0, ch_addr_type := NS_AF_NONE,
     ch_next_hop := 0, ch_prev_hop := index s, ch_direction := DOWN, ih_saddr := index s,
     ih_daddr := IP_BROADCAST, ih_sport := RT_PORT, ih_dport := RT_PORT, ih_ttl := 1, hdr := Rerr re\<rparr>) t]"
  by (rule exI [of _ "if j then 1 / 100 * rnd E (draws s) else 0"]) (simp add: sendError_def Let_def)

text \<open>
  C12. When a link fails, \<^verbatim>\<open>handle_link_failure\<close> removes exactly the paths through that
  neighbour, in every entry; an entry goes down exactly when that leaves it without a path;
  one error message is broadcast, listing exactly the entries that went down and had the
  error flag, and none is sent when there is no such entry. At most 100 routes may be up.
\<close>

theorem link_failure_exact:
  assumes inv: "node_inv s" and len: "up_count (rtable s) \<le> EAMRP_MAX_ERRORS"
  shows "\<exists>s' e. handle_link_failure E nb s = Inr s'
    \<and> map rt_path_list (rtable s') = map (paths_avoiding nb) (rtable s)
    \<and> map (\<lambda>rt. rt_flags rt = RTF_UP) (rtable s')
        = map (\<lambda>rt. rt_flags rt = RTF_UP \<and> \<not> broken nb rt) (rtable s)
    \<and> out s' = out s @ [e]
    \<and> (let lost = map rt_dst (filter (\<lambda>rt. broken nb rt \<and> rt_error rt) (rtable s)) in
       if lost = [] then \<exists>p. e = Freed p
       else \<exists>p t re. e = Scheduled p t \<and> hdr p = Rerr re \<and> re_dsts re = lost \<and> ih_ttl p = 1
          \<and> ih_daddr p = IP_BROADCAST)"
proof -
  obtain re t where w: "link_failure_walk E nb re_empty (rtable s) = Inr (re, t)" "re_ok re"
    "map rt_path_list t = map (paths_avoiding nb) (rtable s)"
    "re_dsts re = map rt_dst (filter (\<lambda>rt. broken nb rt \<and> rt_error rt) (rtable s))"
    "map (\<lambda>rt. rt_flags rt = RTF_UP) t = map (\<lambda>rt. rt_flags rt = RTF_UP \<and> \<not> broken nb rt) (rtable s)"
    using link_failure_walk_spec [of "rtable s" "eamrp_max_paths s" re_empty E nb] len node_invD(3) [OF inv]
    by (auto simp: table_ok_def re_dsts_def)
  show ?thesis
  proof (cases "re_dsts re = []")
    case True
    with re_dsts_count [OF w(2)] w show ?thesis
      by (simp add: handle_link_failure_def Let_def)
  next
    case False
    obtain tm where o: "out (sendError E re False (s\<lparr>rtable := t\<rparr>)) = out s @ [Scheduled (packet_alloc\<lparr>ch_ptype := PT_EAMRP,
     ch_size := IP_HDR_LEN E + re_size re, ch_iface := - 2, ch_error := 0, ch_addr_type := NS_AF_NONE,
     ch_next_hop := 0, ch_prev_hop := index s, ch_direction := DOWN, ih_saddr := index s,
     ih_daddr := IP_BROADCAST, ih_sport := RT_PORT, ih_dport := RT_PORT, ih_ttl := 1, hdr := Rerr re\<rparr>) tm]"
      using sendError_out [of E re False "s\<lparr>rtable := t\<rparr>"] by auto
    with False re_dsts_count [OF w(2)] w(1,3-5) show ?thesis
      by (simp add: handle_link_failure_def Let_def)
  qed
qed

theorem link_failure_exact_witness:
  "\<exists>s' e. handle_link_failure (demo_env 3) 1 demo_node = Inr s'
    \<and> map (map nexthop \<circ> rt_path_list) (rtable s') = [[2]] \<and> out s' = out demo_node @ [e] \<and> (\<exists>p. e = Freed p)"
proof -
  have c: "paths_avoiding 1 demo_route = [new_path 2 3 20 12 1]"
    by (simp add: paths_avoiding_def demo_route_def path_insert_def new_rt_entry_def new_path_def)
  then have b: "\<not> broken 1 demo_route" by (simp add: broken_def)
  obtain s' e where s: "handle_link_failure (demo_env 3) 1 demo_node = Inr s'"
    "map rt_path_list (rtable s') = map (paths_avoiding 1) (rtable demo_node)" "out s' = out demo_node @ [e]"
    "\<exists>p. e = Freed p"
    using link_failure_exact [OF demo_node_inv, of "demo_env 3" 1] b
    by (auto simp: EAMRP_MAX_ERRORS_def up_count_def)
  have "map (map nexthop \<circ> rt_path_list) (rtable s') = map (map nexthop) (map rt_path_list (rtable s'))" by simp
  also have "\<dots> = [[2]]" unfolding s(2) by (simp add: c)
  finally show ?thesis using s by auto
qed

section \<open>Route requests\<close>

lemma latency_const:
  "entry_ok m rt \<Longrightarrow> PerHopTime (Some rt) = NODE_TRAVERSAL_TIME"
  by (simp add: PerHopTime_def entry_okD(11) Let_def)

text \<open>
  The per-hop time never depends on measured latencies: the history of an entry is never
  written, so the estimate is always \<^verbatim>\<open>NODE_TRAVERSAL_TIME\<close>.
\<close>

lemma per_hop_time_constant:
  assumes "node_inv s" and "rt_lookup d (rtable s) = Some rt"
  shows "PerHopTime (Some rt) = 3 / 100"
  using latency_const [OF table_entry(1) [OF node_invD(3) [OF assms(1)] assms(2)]]
  by (simp add: NODE_TRAVERSAL_TIME_def)

text \<open>
  C32. The expanding ring never starts at \<^verbatim>\<open>TTL_START\<close>: the last hop count of an entry is at
  least one, so the TTL of a request is two more than the larger of the last TTL and that hop
  count, or the network diameter from seven on; the first request for a new destination goes
  through the whole network.
\<close>

theorem request_ttl:
  assumes "node_inv s" and "rt_lookup d (rtable s) = Some rt"
  shows "fst (ring_ttl rt) =
      (let last = max (rt_req_last_ttl rt) (rt_last_hop_count rt) in if last < 7 then last + 2 else 30)
    \<and> fst (ring_ttl (new_rt_entry g)) = 30"
proof -
  have "1 \<le> rt_last_hop_count rt"
    using entry_okD(4) [OF table_entry(1) [OF node_invD(3) [OF assms(1)] assms(2)]] .
  then show ?thesis
    by (simp add: ring_ttl_def Let_def TTL_THRESHOLD_def TTL_INCREMENT_def NETWORK_DIAMETER_def
        new_rt_entry_def INFINITY2_def max_def)
qed

theorem request_ttl_witness:
  "fst (ring_ttl demo_route) = 5 \<and> fst (ring_ttl (new_rt_entry 7)) = 30"
  using request_ttl [OF demo_node_inv, of 5 demo_route 7]
  by (simp add: demo_route_def path_insert_def new_rt_entry_def)

lemma req_timeout_range:
  assumes "entry_ok m rt" and "0 < ttl"
  shows "now E < req_timeout E ttl rt" "req_timeout E ttl rt \<le> now E + 1"
proof -
  have u: "0 < (unsigned n :: real)" if "0 < n" for n :: u8
    using that unat_gt_0 [of n] of_nat_0_less_iff [of "unat n", where 'a = real] by simp
  then have "0 < real_of_int ttl * c" "0 < real_of_int ttl * c * unsigned (rt_req_cnt rt)"
    if "0 < c" "0 < rt_req_cnt rt" for c
    using assms(2) that by simp_all
  with u assms(2) show "now E < req_timeout E ttl rt" "req_timeout E ttl rt \<le> now E + 1"
    by (simp_all add: req_timeout_def latency_const [OF assms(1)] Let_def NODE_TRAVERSAL_TIME_def
        MAX_RREQ_TIMEOUT_def)
qed

text \<open>
  C22. Requests are rate limited: when \<^verbatim>\<open>sendRequest\<close> sends one, it is the only output, it is
  broadcast with a new broadcast ID and the next even sequence number, and until some time
  within the next second every further call for that destination only frees its packet.
\<close>

theorem requests_are_rate_limited:
  assumes inv: "node_inv s" and rt: "rt_lookup d (rtable s) = Some rt"
    and down: "rt_flags rt \<noteq> RTF_UP" and idle: "rt_req_timeout rt \<le> now E" and cnt: "rt_req_cnt rt \<le> RREQ_RETRIES"
  shows "\<exists>s1 p rq T. sendRequest E d s = Inr s1 \<and> out s1 = out s @ [Scheduled p 0] \<and> hdr p = Rreq rq
    \<and> rq_dst rq = d \<and> rq_src rq = index s \<and> rq_src_seqno rq = seqno s + 2 \<and> rq_bcast_id rq = of_int (bid s)
    \<and> seqno s1 = seqno s + 2 \<and> bid s1 = bid s + 1 \<and> now E < T \<and> T \<le> now E + 1
    \<and> (\<forall>E'. now E' < T \<longrightarrow> sendRequest E' d s1 = Inr (emit (Freed packet_alloc) s1))"
proof -
  note e = table_entry [OF node_invD(3) [OF inv] rt]
  obtain ttl rt1 where r: "ring_ttl rt = (ttl, rt1)" by (cases "ring_ttl rt")
  note r1 = ring_ttl_entry [OF e(1) r]
  let ?T = "req_timeout E ttl rt1"
  let ?rt2 = "rt1\<lparr>rt_req_timeout := ?T, rt_expire := 0\<rparr>"
  let ?p = "rreq_packet E d ?rt2 ttl s"
  let ?s1 = "emit (Scheduled ?p 0) (s\<lparr>rtable := rt_put ?rt2 (rtable s), bid := bid s + 1, seqno := seqno s + 2\<rparr>)"
  have send: "sendRequest E d s = Inr ?s1"
    using rt down idle not_less [THEN iffD2, OF cnt] r node_invD(1) [OF inv]
    by (simp add: sendRequest_def Let_def)
  have look: "rt_lookup d (rtable ?s1) = Some ?rt2"
    using rtl.lookup_put_same [of ?rt2 "rtable s" rt] rt e(2) r1(2) by simp
  have "sendRequest E' d ?s1 = Inr (emit (Freed packet_alloc) ?s1)" if "now E' < ?T" for E'
    using look that down r1(3) by (simp add: sendRequest_def del: emit_sel)
  moreover obtain rq where "hdr ?p = Rreq rq" "rq_dst rq = d" "rq_src rq = index s"
      "rq_src_seqno rq = seqno s + 2" "rq_bcast_id rq = of_int (bid s)"
    by (simp add: rreq_packet_def Let_def)
  ultimately show ?thesis
    using send req_timeout_range [OF r1(1,5), of E]
    by (intro exI [of _ ?s1] exI [of _ ?p] exI [of _ rq] exI [of _ ?T]) (simp del: uniform_simp)
qed

lemma new_rt_entry_sel [simp]:
  "rt_flags (new_rt_entry g) = RTF_DOWN" "rt_req_timeout (new_rt_entry g) = 0"
  "rt_req_cnt (new_rt_entry g) = 0" "rt_hops (new_rt_entry g) = g" "rt_path_list (new_rt_entry g) = []"
  by (simp_all add: new_rt_entry_def)

definition searching_node :: eamrp where
  "searching_node = demo_node\<lparr>rtable := [(new_rt_entry 0)\<lparr>rt_dst := 5, rt_req_cnt := 4\<rparr>, (new_rt_entry 0)\<lparr>rt_dst := 6\<rparr>]\<rparr>"

lemma searching_node_sel [simp]:
  "rtable searching_node = [(new_rt_entry 0)\<lparr>rt_dst := 5, rt_req_cnt := 4\<rparr>, (new_rt_entry 0)\<lparr>rt_dst := 6\<rparr>]"
  by (simp add: searching_node_def)

lemma searching_node_inv: "node_inv searching_node"
  unfolding searching_node_def
proof (rule node_inv_rtable [OF demo_node_inv])
  have "entry_ok m ((new_rt_entry 0)\<lparr>rt_dst := 5, rt_req_cnt := 4\<rparr>)" for m
    using new_entry_ok [of 0 m 5] by (simp add: INFINITY2_def)
  moreover have "entry_ok m ((new_rt_entry 0)\<lparr>rt_dst := 6\<rparr>)" for m
    by (rule new_entry_ok) (simp add: INFINITY2_def)
  ultimately show "table_ok (eamrp_max_paths demo_node)
      [(new_rt_entry 0)\<lparr>rt_dst := 5, rt_req_cnt := 4\<rparr>, (new_rt_entry 0)\<lparr>rt_dst := 6\<rparr>]"
    by (simp add: table_ok_def IP_BROADCAST_def)
qed

theorem requests_are_rate_limited_witness:
  "\<exists>s1 p rq T. sendRequest (demo_env 2) 6 searching_node = Inr s1
    \<and> out s1 = out searching_node @ [Scheduled p 0] \<and> hdr p = Rreq rq
    \<and> rq_dst rq = 6 \<and> rq_src rq = index searching_node \<and> rq_src_seqno rq = seqno searching_node + 2
    \<and> rq_bcast_id rq = of_int (bid searching_node)
    \<and> seqno s1 = seqno searching_node + 2 \<and> bid s1 = bid searching_node + 1
    \<and> now (demo_env 2) < T \<and> T \<le> now (demo_env 2) + 1
    \<and> (\<forall>E'. now E' < T \<longrightarrow> sendRequest E' 6 s1 = Inr (emit (Freed packet_alloc) s1))"
proof (rule requests_are_rate_limited [OF searching_node_inv, of 6 "(new_rt_entry 0)\<lparr>rt_dst := 6\<rparr>"])
  show "rt_lookup 6 (rtable searching_node) = Some ((new_rt_entry 0)\<lparr>rt_dst := 6\<rparr>)" by simp
  show "rt_flags ((new_rt_entry 0)\<lparr>rt_dst := 6\<rparr>) \<noteq> RTF_UP" by simp
  show "rt_req_timeout ((new_rt_entry 0)\<lparr>rt_dst := 6\<rparr>) \<le> now (demo_env 2)" by simp
  show "rt_req_cnt ((new_rt_entry 0)\<lparr>rt_dst := 6\<rparr>) \<le> RREQ_RETRIES" by (simp add: RREQ_RETRIES_def)
qed

text \<open>
  C23. After more than three unanswered requests \<^verbatim>\<open>sendRequest\<close> gives up: it drops every live
  packet buffered for the destination, in order, keeps the others, sends no request, and the
  count starts again.
\<close>

theorem request_gives_up:
  assumes inv: "node_inv s" and rt: "rt_lookup d (rtable s) = Some rt"
    and down: "rt_flags rt \<noteq> RTF_UP" and idle: "rt_req_timeout rt \<le> now E" and cnt: "RREQ_RETRIES < rt_req_cnt rt"
  shows "\<exists>s1. sendRequest E d s = Inr s1
    \<and> out s1 = out s @ map (\<lambda>p. Dropped p DROP_RTR_NO_ROUTE)
          (filter (\<lambda>p. ih_daddr p = d \<and> \<not> ch_ts p < now E) (rq_pkts (rqueue s))) @ [Freed packet_alloc]
    \<and> rq_pkts (rqueue s1) = filter (\<lambda>p. ih_daddr p \<noteq> d \<and> \<not> ch_ts p < now E) (rq_pkts (rqueue s))
    \<and> map_option rt_req_cnt (rt_lookup d (rtable s1)) = Some 0"
proof -
  note e = table_entry [OF node_invD(3) [OF inv] rt]
  let ?rt1 = "rt\<lparr>rt_req_timeout := now E + MAX_RREQ_TIMEOUT, rt_req_cnt := 0\<rparr>"
  have "rt_lookup d (rt_put ?rt1 (rtable s)) = Some ?rt1"
    using rtl.lookup_put_same [of ?rt1 "rtable s" rt] rt e(2) by simp
  moreover have "filter (\<lambda>p. P p \<and> \<not> ch_ts p < now E) ps = filter (\<lambda>p. \<not> rq_aged (now E) p \<and> P p) ps" for P ps
    by (auto simp: rq_aged_def intro: filter_cong)
  ultimately show ?thesis using rt down idle cnt e(2)
    by (simp add: sendRequest_def Let_def drain_drop_eq)
qed

theorem request_gives_up_witness:
  "\<exists>s1. sendRequest (demo_env 2) 5 searching_node = Inr s1
    \<and> out s1 = out searching_node @ map (\<lambda>p. Dropped p DROP_RTR_NO_ROUTE)
          (filter (\<lambda>p. ih_daddr p = 5 \<and> \<not> ch_ts p < now (demo_env 2)) (rq_pkts (rqueue searching_node))) @ [Freed packet_alloc]
    \<and> rq_pkts (rqueue s1) = filter (\<lambda>p. ih_daddr p \<noteq> 5 \<and> \<not> ch_ts p < now (demo_env 2)) (rq_pkts (rqueue searching_node))
    \<and> map_option rt_req_cnt (rt_lookup 5 (rtable s1)) = Some 0"
  by (rule request_gives_up [OF searching_node_inv, of 5 "(new_rt_entry 0)\<lparr>rt_dst := 5, rt_req_cnt := 4\<rparr>"])
    (simp_all add: RREQ_RETRIES_def)

lemma reply_seqno_ge:
  assumes "even own" and "own \<le> 0xfffffffc" and "wanted \<le> 0xfffffffc"
  shows "even (reply_seqno own wanted) \<and> own \<le> reply_seqno own wanted \<and> wanted \<le> reply_seqno own wanted"
proof (cases "own < wanted")
  case False
  with assms(1) show ?thesis by (simp add: reply_seqno_def)
next
  case True
  have u: "unat (n + 1) = Suc (unat n)" if "unat n < 4294967295" for n :: u32
    using that by (simp add: unat_word_ariths)
  have w: "unat wanted < 4294967293" using assms(3) unat_mono [of wanted 4294967293]
    by (simp add: word_le_nat_alt)
  have "unat (wanted + 1) = Suc (unat wanted)" "unat (wanted + 1 + 1) = Suc (Suc (unat wanted))"
    using u [of wanted] u [of "wanted + 1"] w by auto
  then have le: "wanted \<le> wanted + 1" "wanted \<le> wanted + 1 + 1" unfolding word_le_nat_alt by simp_all
  moreover have "own \<le> wanted + 1" "own \<le> wanted + 1 + 1"
    using order_trans [OF less_imp_le [OF True]] le by blast+
  moreover have "reply_seqno own wanted = wanted + 1 \<or> reply_seqno own wanted = wanted + 1 + 1"
    using True by (simp only: reply_seqno_def Let_def if_True split: if_split) blast
  ultimately show ?thesis by (metis reply_seqno_even)
qed



text \<open>
  C20. Reverse paths follow the newest sequence number: a newer request replaces all paths of
  the entry by the one it came along and brings the entry up with that number; a request with
  an older number is dropped and changes nothing.
\<close>

theorem newest_request_wins:
  "case rreq_reverse E m df me prev rq rt of
     Inl f \<Rightarrow> rt_seqno rt = rq_src_seqno rq
   | Inr (rt1, r) \<Rightarrow>
       (if rt_seqno rt < rq_src_seqno rq
        then r = Rev_path True \<and> rt_seqno rt1 = rq_src_seqno rq \<and> rt_flags rt1 = RTF_UP
          \<and> map (\<lambda>p. (nexthop p, lasthop p, hopcount p, path_expire p)) (rt_path_list rt1)
              = [(prev, rq_first_hop rq, of_int (uint (rq_hop_count rq) + 1), now E + 6)]
        else rt_seqno rt1 = rt_seqno rt \<and> (rq_src_seqno rq < rt_seqno rt \<longrightarrow> (rt1, r) = (rt, Rev_drop)))"
proof -
  have "rt_seqno (alternate_path E nh h lt lh rt) = rt_seqno rt" for nh h lt lh
    by (simp add: alternate_path_def Let_def path_insert_def)
  moreover have "rt_seqno (extend_path E lt path rt) = rt_seqno rt" for lt path
    by (simp add: extend_path_def path_put_def)
  ultimately show ?thesis
    by (auto simp: rreq_reverse_def fresh_path_def path_delete_all_def path_insert_def new_path_def
        hops_plus1_def REV_ROUTE_LIFE_def Let_def assertE_def bindE_def split: option.splits sum.splits)
qed

definition demo_request :: hdr_eamrp_request where
  "demo_request = \<lparr>rq_hop_count = 1, rq_bcast_id = 3, rq_dst = 7, rq_dst_seqno = 0, rq_src = 5,
     rq_src_seqno = 2, rq_timestamp = 0, rq_first_hop = 11\<rparr>"

theorem newest_request_wins_witness:
  "rreq_reverse (demo_env 3) 3 1 9 1 demo_request demo_route = Inr (demo_route, Rev_drop)"
proof -
  obtain rt1 r where r: "rreq_reverse (demo_env 3) 3 1 9 1 demo_request demo_route = Inr (rt1, r)"
    by (simp add: rreq_reverse_def demo_request_def)
  from newest_request_wins [where E = "demo_env 3" and m = 3 and df = 1 and me = 9 and prev = 1
      and rq = demo_request and rt = demo_route] r show ?thesis
    by (simp add: demo_request_def)
qed

section \<open>What a handler sends\<close>

text \<open>Forwarding a packet has one output: the packet itself, with the same type and header.\<close>

lemma forward_out:
  assumes "forward E r p delay s = Inr s'"
  shows "\<exists>e. out s' = out s @ [e] \<and> bihead s' = bihead s \<and> index s' = index s
    \<and> (\<forall>q t. e = Scheduled q t \<longrightarrow> ch_ptype q = ch_ptype p \<and> hdr q = hdr p)"
  using assms
  by (auto simp: forward_def bindE_def assertE_def Let_def split: if_splits option.splits sum.splits)

lemma forward_rqueue: "forward E r p delay s = Inr s' \<Longrightarrow> rqueue s' = rqueue s"
  by (auto simp: forward_def bindE_def assertE_def Let_def split: if_splits option.splits sum.splits)

definition no_routing_out :: "eamrp \<Rightarrow> eamrp \<Rightarrow> bool" where
  "no_routing_out s s' \<longleftrightarrow> (\<exists>es. out s' = out s @ es \<and>
     (\<forall>q t. Scheduled q t \<in> set es \<longrightarrow> ch_ptype q \<noteq> PT_EAMRP))"

lemma no_routing_out_refl [simp]: "no_routing_out s s"
  by (simp add: no_routing_out_def)

lemma no_routing_out_step:
  assumes "no_routing_out s t" and "out u = out t @ es" and "\<forall>q tm. Scheduled q tm \<in> set es \<longrightarrow> ch_ptype q \<noteq> PT_EAMRP"
  shows "no_routing_out s u"
proof -
  obtain es0 where "out t = out s @ es0" "\<forall>q t. Scheduled q t \<in> set es0 \<longrightarrow> ch_ptype q \<noteq> PT_EAMRP"
    using assms(1) unfolding no_routing_out_def by blast
  with assms(2,3) show ?thesis
    unfolding no_routing_out_def by (intro exI [of _ "es0 @ es"]) (metis append.assoc Un_iff set_append)
qed

lemma flush_buffer_out:
  assumes buf: "buffer_ok (rqueue s)" and f: "flush_buffer E d s = Inr s'"
  shows "no_routing_out s s' \<and> bihead s' = bihead s \<and> index s' = index s"
proof -
  let ?act = "\<lambda>p (u, t). case rt_lookup d (rtable t) of None \<Rightarrow> Inl Null_deref
    | Some rt1 \<Rightarrow> if rt_flags rt1 = RTF_UP
        then bindE (forward E (Some d) p NO_EAMRP_DELAY t) (\<lambda>t1. Inr (u, t1)) else Inr (u, t)"
  let ?I = "\<lambda>x::unit \<times> eamrp. buffer_ok (rqueue (snd x)) \<and> no_routing_out s (snd x)
      \<and> bihead (snd x) = bihead s \<and> index (snd x) = index s"
  have fwd: "safe UNIV (\<lambda>t1. no_routing_out s t1 \<and> bihead t1 = bihead s \<and> index t1 = index s \<and> rqueue t1 = rqueue t)
      (forward E (Some d) p NO_EAMRP_DELAY t)"
    if t: "no_routing_out s t" "bihead t = bihead s" "index t = index s" and p: "ch_ptype p \<noteq> PT_EAMRP" for p t
  proof (cases "forward E (Some d) p NO_EAMRP_DELAY t")
    case (Inr t1)
    obtain e where e: "out t1 = out t @ [e]" "\<forall>q t. e = Scheduled q t \<longrightarrow> ch_ptype q = ch_ptype p"
      "bihead t1 = bihead t" "index t1 = index t" using forward_out [OF Inr] by blast
    then have "no_routing_out s t1" using p by (intro no_routing_out_step [OF t(1)]) auto
    with e t forward_rqueue [OF Inr] Inr show ?thesis by simp
  qed simp
  have "safe UNIV (\<lambda>x. ?I x \<and> rqueue (snd x) = rqueue t) (?act p (u, t))"
    if "?I (u, t)" "ch_ptype p \<noteq> PT_EAMRP" for p u t
    using that fwd [of t p] by (auto simp: safe_if elim!: safe_mono split: option.split)
  then have dr: "safe UNIV ?I (drain_all E d ?act () (s\<lparr>rtable := t\<rparr>))" for t
    using buf by (intro drain_all_ok) (auto simp: no_routing_out_def)
  have post: "?I (u, s')" if "drain_all E d ?act () (s\<lparr>rtable := t\<rparr>) = Inr (u, s')" for t u
    by (rule safe_InrD [OF dr that])
  consider "s' = s" | t u where "drain_all E d ?act () (s\<lparr>rtable := t\<rparr>) = Inr (u, s')"
    using f by (auto simp: flush_buffer_def bindE_def split: option.splits if_splits sum.splits)
  then show ?thesis by cases (use post in auto)
qed

text \<open>The packets for the destination are gone after the loop over them.\<close>

lemma drain_none_left:
  assumes "\<And>p a t a' t'. act p (a, t) = Inr (a', t') \<Longrightarrow> rqueue t' = rqueue t"
  shows "drain n clock d act (a, s) = Inr (a', s') \<Longrightarrow> \<not> rq_find d (rqueue s')"
proof (induction n arbitrary: a s)
  case 0
  obtain r q where r: "rq_deque_dst clock d (rqueue s) = (r, q)" by (cases "rq_deque_dst clock d (rqueue s)")
  with 0 sb.deq_None [of clock d "rqueue s" q] show ?case
    by (subst (asm) drain.simps) (auto simp: rq_find_iff split: option.splits)
next
  case (Suc n)
  obtain r q where r: "rq_deque_dst clock d (rqueue s) = (r, q)" by (cases "rq_deque_dst clock d (rqueue s)")
  show ?case
  proof (cases r)
    case None
    with r Suc.prems sb.deq_None [of clock d "rqueue s" q] show ?thesis
      by (subst (asm) drain.simps) (auto simp: rq_find_iff)
  next
    case (Some p)
    with r Suc.prems obtain x where "act p (a, s\<lparr>rqueue := q\<rparr>) = Inr x" "drain n clock d act x = Inr (a', s')"
      by (subst (asm) drain.simps) (auto simp: bindE_def split: sum.splits)
    then show ?thesis using Suc.IH by (cases x) auto
  qed
qed



lemma rreq_fresh_route_out:
  assumes "rreq_fresh_route E p rq hr rt s = Inr s'"
  shows "\<exists>es. out s' = out s @ es \<and> (\<forall>q t. Scheduled q t \<in> set es \<longrightarrow> (\<exists>rp. hdr q = Rrep rp))"
  using assms
  by (auto simp: rreq_fresh_route_def bindE_def assertE_def Let_def sendReply_def
      split: if_splits option.splits sum.splits)

lemma rreq_answer_killed_out:
  assumes "rreq_answer E p rq True hr s = Inr s'" and "rq_dst rq \<noteq> index s"
  shows "\<exists>es. out s' = out s @ es \<and> (\<forall>q t. Scheduled q t \<in> set es \<longrightarrow> (\<exists>rp. hdr q = Rrep rp))"
  using assms rreq_fresh_route_out [of E p rq hr _ s s']
  by (auto simp: rreq_answer_def split: option.splits if_splits)

lemma bindE_InrD: "bindE m f = Inr y \<Longrightarrow> \<exists>x. m = Inr x \<and> f x = Inr y"
  by (cases m) simp_all

lemma ensure_rt_frame:
  "ensure_rt E d s = Inr s' \<Longrightarrow> out s' = out s \<and> rqueue s' = rqueue s \<and> bihead s' = bihead s \<and> index s' = index s"
  by (auto simp: ensure_rt_def rt_add_def assertE_def bindE_def split: option.splits sum.splits if_splits)

lemma rreq_continue_killed_out:
  assumes "rreq_continue E p rq True res s = Inr s'" and "buffer_ok (rqueue s)" and "rq_dst rq \<noteq> index s"
  shows "\<exists>es. out s' = out s @ es \<and>
    (\<forall>q t. Scheduled q t \<in> set es \<and> ch_ptype q = PT_EAMRP \<longrightarrow> (\<exists>rp. hdr q = Rrep rp))"
proof (cases "snd res")
  case Rev_drop
  with assms(1) show ?thesis by (auto simp: rreq_continue_def Let_def)
next
  case (Rev_path hr)
  let ?s1 = "s\<lparr>rtable := rt_put (fst res) (rtable s)\<rparr>"
  obtain s2 where 2: "flush_buffer E (rq_src rq) ?s1 = Inr s2" "rreq_answer E p rq True hr s2 = Inr s'"
    using assms(1) Rev_path by (auto simp: rreq_continue_def Let_def dest!: bindE_InrD)
  have f: "no_routing_out ?s1 s2" "index s2 = index s"
    using flush_buffer_out [OF _ 2(1)] assms(2) by auto
  obtain es where es: "out s2 = out s @ es" "\<forall>q t. Scheduled q t \<in> set es \<longrightarrow> ch_ptype q \<noteq> PT_EAMRP"
    using f(1) by (auto simp: no_routing_out_def)
  obtain fs where fs: "out s' = out s2 @ fs" "\<forall>q t. Scheduled q t \<in> set fs \<longrightarrow> (\<exists>rp. hdr q = Rrep rp)"
    using rreq_answer_killed_out [OF 2(2)] assms(3) f(2) by auto
  from es fs show ?thesis by (intro exI [of _ "es @ fs"]) auto
qed

text \<open>
  C13. A duplicate request is never propagated: when its broadcast ID is cached and this node
  is not the destination, the only routing message the handler can send is a reply.
\<close>

theorem duplicate_request_not_propagated:
  assumes buf: "buffer_ok (rqueue s)" and dup: "id_get (rq_src rq, rq_bcast_id rq) (bihead s) \<noteq> None"
    and dst: "rq_dst rq \<noteq> index s" and r: "recvRequest E p rq s = Inr s'"
  shows "\<exists>es. out s' = out s @ es \<and>
    (\<forall>q t. Scheduled q t \<in> set es \<and> ch_ptype q = PT_EAMRP \<longrightarrow> (\<exists>rp. hdr q = Rrep rp))"
proof (cases "rq_src rq = index s")
  case True
  with r show ?thesis by (auto simp: recvRequest_def)
next
  case False
  let ?rq = "if rq_hop_count rq = 0 then rq\<lparr>rq_first_hop := index s\<rparr> else rq"
  have kill: "(id_get (rq_src rq, rq_bcast_id rq) (bihead s) \<noteq> None) = True" using dup by simp
  have "bindE (ensure_rt E (rq_src ?rq) s) (rreq_process E (p\<lparr>hdr := Rreq ?rq\<rparr>) ?rq True) = Inr s'"
    using r False unfolding recvRequest_def Let_def kill by simp
  then obtain s2 where 2: "ensure_rt E (rq_src ?rq) s = Inr s2"
    "rreq_process E (p\<lparr>hdr := Rreq ?rq\<rparr>) ?rq True s2 = Inr s'" by (blast dest: bindE_InrD)
  note f = ensure_rt_frame [OF 2(1)]
  obtain res where "rreq_continue E (p\<lparr>hdr := Rreq ?rq\<rparr>) ?rq True res s2 = Inr s'"
    using 2(2) unfolding rreq_process_def by (auto split: option.splits dest!: bindE_InrD)
  from rreq_continue_killed_out [OF this] f buf dst show ?thesis by simp
qed

definition seen_node :: eamrp where
  "seen_node = demo_node\<lparr>bihead := id_insert 2 5 3 []\<rparr>"

lemma seen_node_sel [simp]:
  "rtable seen_node = [demo_route]" "bihead seen_node = id_insert 2 5 3 []" "index seen_node = 9"
  "rqueue seen_node = rqueue demo_node"
  by (simp_all add: seen_node_def)

theorem duplicate_request_not_propagated_witness:
  "\<exists>s'. recvRequest (demo_env 3) packet_alloc demo_request seen_node = Inr s' \<and>
    (\<exists>es. out s' = out seen_node @ es \<and>
    (\<forall>q t. Scheduled q t \<in> set es \<and> ch_ptype q = PT_EAMRP \<longrightarrow> (\<exists>rp. hdr q = Rrep rp)))"
proof -
  obtain s' where r: "recvRequest (demo_env 3) packet_alloc demo_request seen_node = Inr s'"
    by (simp add: recvRequest_def Let_def ensure_rt_def rreq_process_def rreq_reverse_def rreq_continue_def demo_request_def)
  have b: "buffer_ok (rqueue seen_node)" using node_invD(4) [OF demo_node_inv] by simp
  from duplicate_request_not_propagated [OF b _ _ r] r show ?thesis by (auto simp: demo_request_def)
qed

end
