(* ===== verification/AgentFlow.thy ===== *)
theory AgentFlow
  imports AgentProps
begin

text \<open>
  Where packets and paths end up: replies pass a node once per request, no data packet is lost
  silently on reception, and the timers leave no expired path and no path or queued packet of
  a neighbour that went silent.
\<close>

section \<open>Replies\<close>

lemma upd_rt_frame:
  "upd_rt d f s = Inr s' \<Longrightarrow> out s' = out s \<and> bihead s' = bihead s \<and> index s' = index s \<and> rqueue s' = rqueue s"
  by (auto simp: upd_rt_def split: option.splits)

lemma rrep_send_out:
  assumes "rrep_send E p rp path rt s = Inr s'"
  shows "bihead s' = bihead s \<and> (\<exists>e. out s' = out s @ [e])"
proof -
  obtain s1 s2 q where "upd_rt (ih_daddr p) (set_head_expire (now E + ACTIVE_ROUTE_TIMEOUT)) s = Inr s1"
    "upd_rt (rp_dst rp) (\<lambda>r. r\<lparr>rt_error := True\<rparr>) s1 = Inr s2" "forward E (Some (ih_daddr p)) q NO_EAMRP_DELAY s2 = Inr s'"
    using assms by (auto simp: rrep_send_def Let_def dest!: bindE_InrD split: option.splits)
  with upd_rt_frame forward_out show ?thesis by metis
qed

lemma no_routing_freed: "no_routing_out s t \<Longrightarrow> no_routing_out s (emit (Freed p) t)"
  by (rule no_routing_out_step [of _ _ _ "[Freed p]"]) simp_all

lemma rrep_relay_out:
  assumes "rrep_relay E p rp s = Inr s'" and "k = (ih_daddr p, rp_bcast_id rp)"
  shows "s' = emit (Freed p) s \<or> (\<exists>b e. id_get k (bihead s) = Some b \<and> bi_count b = 0
     \<and> id_get k (bihead s') = Some (b\<lparr>bi_count := 1\<rparr>) \<and> out s' = out s @ [e])"
proof (cases "s' = emit (Freed p) s")
  case False
  then obtain b path rt s1 where b: "id_get k (bihead s) = Some b" "bi_count b = 0"
    and u: "upd_rt (rp_dst rp) (advertise E) (s\<lparr>bihead := id_put (b\<lparr>bi_count := 1\<rparr>) (bihead s)\<rparr>) = Inr s1"
    and r: "rrep_send E p rp path rt s1 = Inr s'"
    using assms by (auto simp: rrep_relay_def Let_def dest!: bindE_InrD split: option.splits if_splits)
  have key: "(bi_src b, bi_id b) = k" by (rule ids.lookup_key [OF b(1)])
  have "id_get k (id_put (b\<lparr>bi_count := 1\<rparr>) (bihead s)) = Some (b\<lparr>bi_count := 1\<rparr>)"
    using ids.lookup_put_same [of "b\<lparr>bi_count := 1\<rparr>" "bihead s" b] b(1) key by simp
  with upd_rt_frame [OF u] rrep_send_out [OF r] b show ?thesis by auto
qed simp

lemma rrep_continue_out:
  assumes buf: "buffer_ok (rqueue s)" and c: "rrep_continue E p rp (rt, ok) s = Inr s'"
  shows "no_routing_out s s' \<or> ih_daddr p \<noteq> index s \<and> (\<exists>b es e. out s' = out s @ es @ [e]
     \<and> id_get (ih_daddr p, rp_bcast_id rp) (bihead s) = Some b \<and> bi_count b = 0
     \<and> id_get (ih_daddr p, rp_bcast_id rp) (bihead s') = Some (b\<lparr>bi_count := 1\<rparr>))"
proof -
  let ?s1 = "s\<lparr>rtable := rt_put rt (rtable s)\<rparr>"
  have start: "no_routing_out s ?s1" by (simp add: no_routing_out_def)
  consider "s' = emit (Freed p) ?s1"
    | t where "flush_buffer E (rp_dst rp) ?s1 = Inr t"
        "ih_daddr p = index s \<and> s' = emit (Freed p) t \<or> ih_daddr p \<noteq> index s \<and> rrep_relay E p rp t = Inr s'"
    using c by (auto simp: rrep_continue_def Let_def dest!: bindE_InrD split: if_splits)
  then show ?thesis
  proof cases
    case 1
    with no_routing_freed [OF start] show ?thesis by simp
  next
    case 2
    have t: "no_routing_out s t" "bihead t = bihead s"
      using flush_buffer_out [OF _ 2(1)] buf by (auto simp: no_routing_out_def)
    then obtain es where "out t = out s @ es" by (auto simp: no_routing_out_def)
    with 2(2) rrep_relay_out [OF _ refl, of E p rp t s'] no_routing_freed [OF t(1)] t(2) show ?thesis by auto
  qed
qed


definition demo_reply :: hdr_eamrp_reply where
  "demo_reply = \<lparr>rp_hop_count = 1, rp_dst = 5, rp_dst_seqno = 2, rp_src = 4, rp_lifetime = 10, rp_timestamp = 0,
     rp_bcast_id = 3, rp_first_hop = 14\<rparr>"


section \<open>No data packet is lost silently\<close>

text \<open>
  What identifies a packet on its way: all fields but those the agent and the link layer rewrite
  (size, time to live, next hop, direction, time stamp, salvage count, callback).
\<close>

definition content :: "packet \<Rightarrow> packet_t \<times> int \<times> nsaddr \<times> nsaddr \<times> int \<times> int \<times> hdr_all_eamrp" where
  "content p = (ch_ptype p, ch_uid p, ih_saddr p, ih_daddr p, ih_sport p, ih_dport p, hdr p)"

text \<open>The packet an output hands on or drops with a reason; a silent release is none.\<close>

fun event_packet :: "event \<Rightarrow> packet option" where
  "event_packet (Scheduled p t) = Some p"
| "event_packet (Dropped p why) = Some p"
| "event_packet (To_dmux p) = Some p"
| "event_packet _ = None"

definition accounted :: "packet \<Rightarrow> eamrp \<Rightarrow> eamrp \<Rightarrow> bool" where
  "accounted p s s' \<longleftrightarrow> (\<exists>es. out s' = out s @ es \<and>
     ((\<exists>e\<in>set es. \<exists>q. event_packet e = Some q \<and> content q = content p)
      \<or> (\<exists>q\<in>set (rq_pkts (rqueue s')). content q = content p)))"

lemma content_frame [simp]:
  "content (p\<lparr>ch_size := a\<rparr>) = content p" "content (p\<lparr>ih_ttl := b\<rparr>) = content p"
  "content (p\<lparr>ch_xmit_failure := c\<rparr>) = content p" "content (p\<lparr>ch_eamrp_salvage_count := d\<rparr>) = content p"
  "content (p\<lparr>ch_ts := t\<rparr>) = content p" "content (p\<lparr>ch_next_hop := n\<rparr>) = content p"
  "content (p\<lparr>ch_direction := u\<rparr>) = content p" "content (p\<lparr>ch_addr_type := w\<rparr>) = content p"
  by (simp_all add: content_def)

lemma accounted_content: "content q = content p \<Longrightarrow> accounted q s s' = accounted p s s'"
  by (simp add: accounted_def)

lemma accounted_emit: "event_packet e = Some q \<Longrightarrow> content q = content p \<Longrightarrow> out s' = out s @ [e] \<Longrightarrow> accounted p s s'"
  by (auto simp: accounted_def)

lemma forward_accounted: "forward E r p delay s = Inr s' \<Longrightarrow> accounted p s s'"
proof -
  assume "forward E r p delay s = Inr s'"
  then have "\<exists>e. out s' = out s @ [e] \<and> (\<exists>q. event_packet e = Some q \<and> content q = content p)"
    by (auto simp: forward_def assertE_def Let_def split: if_splits option.splits)
  then show ?thesis by (auto simp: accounted_def)
qed

lemma fold_drops_out:
  "out (fold (\<lambda>(r, why). emit (Dropped r why)) ds s) = out s @ map (\<lambda>(r, why). Dropped r why) ds
   \<and> rqueue (fold (\<lambda>(r, why). emit (Dropped r why)) ds s) = rqueue s
   \<and> rtable (fold (\<lambda>(r, why). emit (Dropped r why)) ds s) = rtable s"
  by (induction ds arbitrary: s) auto

lemma buffer_packet_keeps:
  assumes "buffer_packet E p s = Inr s'"
  shows "p\<lparr>ch_ts := now E + rq_timeout (rqueue s)\<rparr> \<in> set (rq_pkts (rqueue s')) \<and> rtable s' = rtable s
    \<and> (\<exists>es. out s' = out s @ es)"
  using assms fold_drops_out
  by (auto simp: buffer_packet_def rq_enque_def Let_def dest!: bindE_InrD)

text \<open>A live buffered packet survives a search for its route, or is dropped with a reason.\<close>

lemma sendRequest_keeps:
  assumes f: "sendRequest E d s = Inr s'" and p: "p \<in> set (rq_pkts (rqueue s))" "\<not> rq_aged (now E) p"
  shows "accounted p s s'"
proof -
  obtain rt where rt: "rt_lookup d (rtable s) = Some rt"
    using f by (auto simp: sendRequest_def split: option.splits)
  obtain ttl rt1 where r: "ring_ttl rt = (ttl, rt1)" by (cases "ring_ttl rt")
  consider es where "out s' = out s @ es" "rqueue s' = rqueue s"
    | t t' where "drain_drop E (rt_dst rt) DROP_RTR_NO_ROUTE (s\<lparr>rtable := t\<rparr>) = Inr t'" "s' = emit (Freed packet_alloc) t'"
    using f rt r by (auto simp: sendRequest_def Let_def assertE_def dest!: bindE_InrD split: if_splits)
  then show ?thesis
  proof cases
    case 1
    with p(1) show ?thesis by (auto simp: accounted_def)
  next
    case 2
    with p show ?thesis by (cases "ih_daddr p = rt_dst rt") (auto simp: accounted_def drain_drop_eq Let_def)
  qed
qed

lemma accounted_trans:
  "out t = out s @ es \<Longrightarrow> accounted p t s' \<Longrightarrow> accounted p s s'"
  unfolding accounted_def by (metis append.assoc in_set_conv_decomp)

lemma resolve_with_accounted:
  assumes buf: "buffer_ok (rqueue s)" and dst: "rt_dst rt = ih_daddr p" and f: "resolve_with E p rt s = Inr s'"
  shows "accounted p s s'"
proof -
  have T: "0 \<le> rq_timeout (rqueue s)" using buf by (simp add: buffer_ok_def EAMRP_RTQ_TIMEOUT_def)
  consider (fwd) "forward E (Some (rt_dst rt)) p NO_EAMRP_DELAY s = Inr s'"
    | (req) s1 where "buffer_packet E p s = Inr s1" "sendRequest E (rt_dst rt) s1 = Inr s'"
    | (buf) "buffer_packet E p s = Inr s'"
    | (err) re where "s' = emit (Dropped p DROP_RTR_NO_ROUTE) (sendError E re False s)"
    using f by (auto simp: resolve_with_def assertE_def dest!: bindE_InrD split: if_splits)
  then show ?thesis
  proof cases
    case fwd
    then show ?thesis by (rule forward_accounted)
  next
    case req
    let ?p = "p\<lparr>ch_ts := now E + rq_timeout (rqueue s)\<rparr>"
    have k: "?p \<in> set (rq_pkts (rqueue s1))" using buffer_packet_keeps [OF req(1)] by blast
    obtain es where es: "out s1 = out s @ es" using buffer_packet_keeps [OF req(1)] by blast
    have "\<not> rq_aged (now E) ?p" using T by (simp add: rq_aged_def)
    from sendRequest_keeps [OF req(2) k this] have "accounted p s1 s'"
      using accounted_content [of ?p p s1 s'] by simp
    with es show ?thesis by (rule accounted_trans)
  next
    case buf
    have k: "p\<lparr>ch_ts := now E + rq_timeout (rqueue s)\<rparr> \<in> set (rq_pkts (rqueue s'))"
      using buffer_packet_keeps [OF buf] by blast
    obtain es where "out s' = out s @ es" using buffer_packet_keeps [OF buf] by blast
    moreover have "\<exists>q\<in>set (rq_pkts (rqueue s')). content q = content p" by (rule bexI [OF _ k]) simp
    ultimately show ?thesis by (auto simp: accounted_def)
  next
    case err
    obtain e where "out (sendError E re False s) = out s @ [e]" using sendError_out by blast
    with err show ?thesis by (auto simp: accounted_def)
  qed
qed

lemma rt_resolve_accounted:
  assumes buf: "buffer_ok (rqueue s)" and f: "rt_resolve E p s = Inr s'"
  shows "accounted p s s'"
proof -
  let ?p = "p\<lparr>ch_xmit_failure := Some Eamrp_rt_failed_callback\<rparr>"
  obtain s1 rt where e: "ensure_rt E (ih_daddr p) s = Inr s1" and rt: "rt_lookup (ih_daddr p) (rtable s1) = Some rt"
    and r: "resolve_with E ?p rt s1 = Inr s'"
    using f by (auto simp: rt_resolve_def Let_def dest!: bindE_InrD split: option.splits)
  note fr = ensure_rt_frame [OF e]
  have "accounted ?p s1 s'"
    by (rule resolve_with_accounted [OF _ _ r]) (use fr buf rtl.lookup_key [OF rt] in simp_all)
  then have "accounted p s1 s'" using accounted_content [of ?p p s1 s'] by simp
  then show ?thesis by (rule accounted_trans [of s1 s "[]", rotated]) (simp add: fr)
qed

text \<open>
  C14. No packet of an application is lost silently when the agent receives it: it is handed to
  the next hop, to the node itself or to the neighbourhood, or dropped with a reason, or it is
  in the send buffer. In particular a search that gives up reports every packet it drops.
\<close>

theorem data_packets_accounted:
  assumes inv: "node_inv s" and data: "ch_ptype p \<noteq> PT_EAMRP" and r: "recv E p s = Inr s'"
  shows "\<exists>es. out s' = out s @ es \<and>
    ((\<exists>e\<in>set es. \<exists>q. event_packet e = Some q \<and> content q = content p)
     \<or> (\<exists>q\<in>set (rq_pkts (rqueue s')). content q = content p))"
proof -
  consider q why where "s' = emit (Dropped q why) s" "content q = content p"
    | q where "recv_deliver E q s = Inr s'" "content q = content p"
    using r data by (auto simp: recv_def assertE_def Let_def split: if_splits)
  then have "accounted p s s'"
  proof cases
    case 1
    then show ?thesis by (auto simp: accounted_def)
  next
    case 2
    have "accounted q s s'"
      using 2(1) node_invD(4) [OF inv]
      by (auto simp: recv_deliver_def intro: forward_accounted rt_resolve_accounted split: if_splits)
    then show ?thesis using accounted_content [OF 2(2)] by blast
  qed
  then show ?thesis by (simp add: accounted_def)
qed

theorem data_packets_accounted_witness:
  "\<exists>s' es. recv (demo_env 3) (demo_data\<lparr>ih_saddr := 4, ih_ttl := 1\<rparr>) demo_node = Inr s' \<and> out s' = out demo_node @ es
    \<and> ((\<exists>e\<in>set es. \<exists>q. event_packet e = Some q \<and> ih_daddr q = 5) \<or> (\<exists>q\<in>set (rq_pkts (rqueue s')). ih_daddr q = 5))"
proof -
  let ?p = "demo_data\<lparr>ih_saddr := 4, ih_ttl := 1\<rparr>"
  have sel: "ch_ptype ?p = PT_CBR" "ih_saddr ?p = 4" "ih_ttl ?p = 1" "ih_daddr ?p = 5" "target demo_node"
    by (simp_all add: demo_data_def demo_node_def connected_node_def)
  then obtain s' where r: "recv (demo_env 3) ?p demo_node = Inr s'"
    by (simp add: recv_def assertE_def Let_def)
  have data: "ch_ptype ?p \<noteq> PT_EAMRP" using sel by simp
  have c: "content q = content ?p \<Longrightarrow> ih_daddr q = 5" for q using sel by (simp add: content_def)
  from data_packets_accounted [OF demo_node_inv data r] r c show ?thesis by blast
qed

section \<open>The routing table timer\<close>

definition unexpired :: "time \<Rightarrow> eamrp_rt_entry \<Rightarrow> bool" where
  "unexpired clock rt \<longleftrightarrow> (\<forall>p\<in>set (rt_path_list rt). clock \<le> path_expire p)"

lemma unexpired_purged: "unexpired clock (path_purge clock rt)"
  by (auto simp: unexpired_def path_purge_filter)

lemma unexpired_nil: "rt_path_list rt = [] \<Longrightarrow> unexpired clock rt"
  by (simp add: unexpired_def)

lemma ring_ttl_paths: "ring_ttl rt = (ttl, rt') \<Longrightarrow> rt_path_list rt' = rt_path_list rt \<and> rt_dst rt' = rt_dst rt"
  by (auto simp: ring_ttl_def Let_def split: if_splits prod.splits)

text \<open>A search for a route changes one entry, and no path of it.\<close>

lemma sendRequest_table:
  assumes "sendRequest E d s = Inr s'"
  shows "\<exists>rt rt'. rt_lookup d (rtable s) = Some rt \<and> rtable s' = rt_put rt' (rtable s) \<and> rt_dst rt' = d
    \<and> rt_path_list rt' = rt_path_list rt"
proof -
  obtain rt where rt: "rt_lookup d (rtable s) = Some rt"
    using assms by (auto simp: sendRequest_def split: option.splits)
  obtain ttl rt1 where r: "ring_ttl rt = (ttl, rt1)" by (cases "ring_ttl rt")
  note k = rtl.lookup_key [OF rt] ring_ttl_paths [OF r]
  have "rtable s' = rt_put rt (rtable s) \<or> rtable s' = rt_put (rt\<lparr>rt_req_timeout := now E + MAX_RREQ_TIMEOUT, rt_req_cnt := 0\<rparr>) (rtable s)
      \<or> rtable s' = rt_put (rt1\<lparr>rt_req_timeout := req_timeout E ttl rt1, rt_expire := 0\<rparr>) (rtable s)"
    using assms rt r rtl.put_id [OF rt]
    by (auto simp: sendRequest_def Let_def assertE_def drain_drop_eq dest!: bindE_InrD split: if_splits)
  with rt k show ?thesis by fastforce
qed

text \<open>What one step of the purge leaves of the table, once the clock has started.\<close>

lemma rt_purge_step_table:
  assumes inv: "node_inv s" and clock: "0 < now E" and f: "rt_purge_step E d (dl, s) = Inr (dl', s')"
  shows "\<exists>rt'. rtable s' = rt_put rt' (rtable s) \<and> rt_dst rt' = d \<and> unexpired (now E) rt'"
proof -
  obtain rt where rt: "rt_lookup d (rtable s) = Some rt"
    using f by (auto simp: rt_purge_step_def split: option.splits)
  note ok = table_entry(1) [OF node_invD(3) [OF inv] rt] and dst = rtl.lookup_key [OF rt]
  let ?rt1 = "path_purge (now E) rt"
  let ?s1 = "s\<lparr>rtable := rt_put ?rt1 (rtable s)\<rparr>"
  show ?thesis
  proof (cases "rt_flags rt = RTF_UP")
    case up: True
    have ex: "rt_expire rt < now E" using entry_okD(3) [OF ok] clock by simp
    consider "s' = ?s1" | s2 g where "drain_drop E d DROP_RTR_RTEXPIRE ?s1 = Inr s2"
        "upd_rt d (\<lambda>r. rt_down E (g r)) s2 = Inr s'" "\<And>r. rt_dst (g r) = rt_dst r" "\<And>r. rt_flags (g r) = rt_flags r"
      using f rt up ex by (fastforce simp: rt_purge_step_def Let_def dest!: bindE_InrD split: if_splits)
    then show ?thesis
    proof cases
      case 1
      with dst unexpired_purged show ?thesis by (intro exI [of _ ?rt1]) simp
    next
      case 2
      have "rt_lookup d (rtable s2) = Some ?rt1" "rtable s2 = rtable ?s1"
        using 2(1) rt dst by (auto simp: drain_drop_eq Let_def rtl.lookup_put)
      then have "rtable s' = rt_put (rt_down E (g ?rt1)) (rt_put ?rt1 (rtable s))"
        using 2(2) by (auto simp: upd_rt_def)
      moreover have "rt_path_list (rt_down E (g ?rt1)) = []" using up 2(4) by (intro rt_down_paths) simp
      ultimately show ?thesis
        using dst 2(3) by (intro exI [of _ "rt_down E (g ?rt1)"]) (simp add: unexpired_nil rt_down_def path_delete_all_def)
    qed
  next
    case down: False
    then have nil: "rt_path_list rt = []" using entry_okD(6) [OF ok] by blast
    consider "sendRequest E d s = Inr s'" | "s' = s"
      using f rt down by (auto simp: rt_purge_step_def dest!: bindE_InrD split: if_splits)
    then show ?thesis
    proof cases
      case 1
      obtain rt0 rt' where "rt_lookup d (rtable s) = Some rt0" "rtable s' = rt_put rt' (rtable s)" "rt_dst rt' = d"
        "rt_path_list rt' = rt_path_list rt0" using sendRequest_table [OF 1] by blast
      with rt nil show ?thesis by (intro exI [of _ rt']) (simp add: unexpired_nil)
    next
      case 2
      with rtl.put_id [OF rt] dst nil show ?thesis by (intro exI [of _ rt]) (simp add: unexpired_nil)
    qed
  qed
qed

lemma set_rt_put:
  "distinct (map rt_dst t) \<Longrightarrow> r \<in> set (rt_put rt' t) \<Longrightarrow> r = rt' \<or> r \<in> set t \<and> rt_dst r \<noteq> rt_dst rt'"
proof (induction t)
  case (Cons a t)
  show ?case
  proof (cases "rt_dst a = rt_dst rt'")
    case True
    then have "r = rt' \<or> r \<in> set t" using Cons.prems(2) by simp
    moreover have "rt_dst r \<noteq> rt_dst rt'" if "r \<in> set t"
      using Cons.prems(1) True imageI [OF that, of rt_dst] by auto
    ultimately show ?thesis by auto
  qed (use Cons in auto)
qed simp

lemma rt_purge_fold_unexpired:
  assumes "foldE (rt_purge_step E) ds (dl, s) = Inr (dl', s')" and "node_inv s" and "0 < now E"
    and "\<forall>rt\<in>set (rtable s). rt_dst rt \<notin> set ds \<longrightarrow> unexpired (now E) rt"
  shows "\<forall>rt\<in>set (rtable s'). unexpired (now E) rt"
  using assms
proof (induction ds arbitrary: dl s)
  case Nil
  then show ?case by simp
next
  case (Cons d ds)
  then obtain dl1 s1 where st: "rt_purge_step E d (dl, s) = Inr (dl1, s1)"
    and rest: "foldE (rt_purge_step E) ds (dl1, s1) = Inr (dl', s')" by (auto dest!: bindE_InrD)
  obtain rt where rt: "rt_lookup d (rtable s) = Some rt"
    using st by (auto simp: rt_purge_step_def split: option.splits)
  obtain rt' where t: "rtable s1 = rt_put rt' (rtable s)" "rt_dst rt' = d" "unexpired (now E) rt'"
    using rt_purge_step_table [OF Cons.prems(2,3) st] by blast
  have inv1: "node_inv s1" using safe_InrD [OF rt_purge_step_ok [OF Cons.prems(2) rt] st] by simp
  have dist: "distinct (map rt_dst (rtable s))" using node_invD(3) [OF Cons.prems(2)] by (simp add: table_ok_def)
  have "\<forall>r\<in>set (rtable s1). rt_dst r \<notin> set ds \<longrightarrow> unexpired (now E) r"
    using set_rt_put [OF dist] t Cons.prems(4) by fastforce
  then show ?case by (rule Cons.IH [OF rest inv1 Cons.prems(3)])
qed

text \<open>
  C19. The routing table timer leaves no expired path: once the simulation clock has left zero,
  every path that remains after \<^verbatim>\<open>rt_purge\<close> is still valid, in every entry, also in the entries
  after one whose buffered packets were dropped or searched for.
\<close>

theorem purge_leaves_unexpired:
  assumes inv: "node_inv s" and clock: "0 < now E" and f: "rt_purge E s = Inr s'"
  shows "\<forall>rt\<in>set (rtable s'). \<forall>p\<in>set (rt_path_list rt). now E \<le> path_expire p"
proof -
  obtain dl where "foldE (rt_purge_step E) (map rt_dst (rtable s)) (0, s) = Inr (dl, s')"
    using f by (auto simp: rt_purge_def dest!: bindE_InrD)
  from rt_purge_fold_unexpired [OF this inv clock] show ?thesis by (simp add: unexpired_def)
qed

theorem purge_leaves_unexpired_witness:
  "\<exists>s'. rt_purge (demo_env 15) demo_node = Inr s' \<and> (\<forall>rt\<in>set (rtable s'). \<forall>p\<in>set (rt_path_list rt). 15 \<le> path_expire p)"
proof -
  obtain s' where r: "rt_purge (demo_env 15) demo_node = Inr s'"
    using safe_no_faultD [OF rt_purge_ok [OF demo_node_inv, of "demo_env 15"]] by blast
  from purge_leaves_unexpired [OF demo_node_inv _ r] r show ?thesis by simp
qed

section \<open>The neighbour timer\<close>

definition routes_via :: "nsaddr \<Rightarrow> eamrp \<Rightarrow> bool" where
  "routes_via a s \<longleftrightarrow> (\<exists>rt\<in>set (rtable s). a \<in> nexthop ` set (rt_path_list rt))"

definition queued_for :: "nsaddr \<Rightarrow> eamrp \<Rightarrow> bool" where
  "queued_for a s \<longleftrightarrow> (\<exists>q p. ifqueue s = Some q \<and> p \<in> set (q_packets q) \<and> ch_next_hop p = a)"

lemma link_failure_entry_paths:
  assumes ok: "entry_ok m rt" and f: "link_failure_entry E nb re rt = Inr (re', rt')"
  shows "rt_path_list rt' = paths_avoiding nb rt"
proof (cases "rt_flags rt = RTF_UP \<and> path_lookup nb rt \<noteq> None")
  case False
  then have "paths_avoiding nb rt = rt_path_list rt"
    using entry_okD(6) [OF ok] path_lookup_cut [of nb rt] by (auto simp: paths_avoiding_def)
  moreover have "rt' = rt" using False f by (auto simp: link_failure_entry_def split: if_splits)
  ultimately show ?thesis by simp
next
  case up: True
  note c = path_delete_cut [OF entry_okD(1) [OF ok], of nb]
  note pe = path_empty_ok [OF paths_ok_delete [OF entry_okD(1) [OF ok]], of nb, unfolded c]
  have down: "rt_path_list (rt_down E ((path_delete nb rt)\<lparr>rt_seqno := n\<rparr>)) = []"
    "rt_path_list (rt_down E ((path_delete nb rt)\<lparr>rt_seqno := n, rt_error := False\<rparr>)) = []" for n
    using up by (auto intro: rt_down_paths)
  show ?thesis
    using f up pe c down
    by (auto simp: link_failure_entry_def Let_def assertE_def dest!: bindE_InrD split: if_splits)
qed

lemma link_failure_walk_paths:
  "\<forall>rt\<in>set t. entry_ok m rt \<Longrightarrow> link_failure_walk E nb re t = Inr (re', t') \<Longrightarrow>
     map rt_path_list t' = map (paths_avoiding nb) t"
proof (induction t arbitrary: re re' t')
  case (Cons rt t)
  then obtain re1 rt1 t1 where "link_failure_entry E nb re rt = Inr (re1, rt1)"
    "link_failure_walk E nb re1 t = Inr (re', t1)" "t' = rt1 # t1" by (auto dest!: bindE_InrD)
  with Cons link_failure_entry_paths [of m rt E nb re re1 rt1] show ?case by simp
qed simp

lemma routes_via_paths: "routes_via a s \<longleftrightarrow> (\<exists>ps\<in>set (map rt_path_list (rtable s)). a \<in> nexthop ` set ps)"
  by (simp add: routes_via_def)

lemma routes_via_frame [simp]:
  "routes_via a (emit e s) = routes_via a s" "queued_for a (emit e s) = queued_for a s"
  "routes_via a (sendError E re j s) = routes_via a s" "queued_for a (sendError E re j s) = queued_for a s"
  "routes_via a (s\<lparr>ifqueue := f\<rparr>) = routes_via a s" "queued_for a (s\<lparr>rtable := t\<rparr>) = queued_for a s"
  by (simp_all add: routes_via_def queued_for_def)

lemma handle_link_failure_via:
  assumes inv: "node_inv s" and f: "handle_link_failure E nb s = Inr s'"
  shows "routes_via a s' \<longleftrightarrow> routes_via a s \<and> a \<noteq> nb" and "queued_for a s' = queued_for a s"
proof -
  obtain re t where w: "link_failure_walk E nb re_empty (rtable s) = Inr (re, t)"
    and s': "s' = (if DestCount re > 0 then sendError E re False (s\<lparr>rtable := t\<rparr>)
        else emit (Freed (packet_alloc\<lparr>hdr := Rerr re\<rparr>)) (s\<lparr>rtable := t\<rparr>))"
    using f by (auto simp: handle_link_failure_def Let_def dest!: bindE_InrD)
  have "\<forall>rt\<in>set (rtable s). entry_ok (eamrp_max_paths s) rt" using node_invD(3) [OF inv] by (simp add: table_ok_def)
  note p = link_failure_walk_paths [OF this w]
  have "routes_via a s' = routes_via a (s\<lparr>rtable := t\<rparr>)" by (simp add: s')
  then show "routes_via a s' \<longleftrightarrow> routes_via a s \<and> a \<noteq> nb"
    unfolding routes_via_paths using p by (auto simp: paths_avoiding_def)
  show "queued_for a s' = queued_for a s" by (simp add: s')
qed

definition hops_table :: "eamrp \<Rightarrow> nsaddr list list" where
  "hops_table s = map (\<lambda>rt. map nexthop (rt_path_list rt)) (rtable s)"

lemma routes_via_hops: "routes_via a s \<longleftrightarrow> (\<exists>l\<in>set (hops_table s). a \<in> set l)"
  by (simp add: routes_via_def hops_table_def)

lemma set_head_expire_hops [simp]: "map nexthop (rt_path_list (set_head_expire t rt)) = map nexthop (rt_path_list rt)"
  by (simp add: set_head_expire_def split: list.split)

lemma forward_hops:
  assumes "forward E r p delay s = Inr s'" shows "hops_table s' = hops_table s \<and> ifqueue s' = ifqueue s"
proof -
  have put: "map (\<lambda>rt. map nexthop (rt_path_list rt)) (rt_put rt' (rtable s)) = hops_table s"
    if "rt_lookup d (rtable s) = Some rt" "rt_dst rt' = rt_dst rt" "map nexthop (rt_path_list rt') = map nexthop (rt_path_list rt)"
    for d rt rt'
    using that rtl.lookup_key [OF that(1)] by (simp add: hops_table_def rt_put_map [of rt' "rtable s" rt])
  have dst: "rt_dst (set_head_expire t rt) = rt_dst rt" for t rt by (simp add: set_head_expire_def split: list.split)
  show ?thesis
  proof (cases r)
    case None
    with assms show ?thesis by (auto simp: forward_def assertE_def hops_table_def Let_def split: if_splits)
  next
    case (Some d)
    show ?thesis
    proof (cases "rt_lookup d (rtable s)")
      case None
      with assms Some show ?thesis by (auto simp: forward_def hops_table_def split: if_splits)
    next
      fix rt assume rt: "rt_lookup d (rtable s) = Some rt"
      have "rtable s' = rtable s \<or> (\<exists>rt'. rtable s' = rt_put rt' (rtable s) \<and> rt_dst rt' = rt_dst rt
          \<and> map nexthop (rt_path_list rt') = map nexthop (rt_path_list rt))" and "ifqueue s' = ifqueue s"
        using assms Some rt dst by (auto simp: forward_def assertE_def Let_def split: if_splits option.splits)
      with put [OF rt] show ?thesis by (auto simp: hops_table_def)
    qed
  qed
qed

lemma salvage_hops: "salvage why E p s = Inr s' \<Longrightarrow> hops_table s' = hops_table s \<and> ifqueue s' = ifqueue s"
  by (auto simp: salvage_def hops_table_def dest: forward_hops split: if_splits option.splits)

lemma salvage_loop_hops:
  "salvage_loop n why E nb s = Inr s' \<Longrightarrow> pq_lawful (pq E) \<Longrightarrow>
     hops_table s' = hops_table s \<and> (queued_for a s' \<longrightarrow> queued_for a s)"
proof (induction n arbitrary: s)
  case 0
  then obtain q where "ifqueue s = Some q" "s' = s\<lparr>ifqueue := Some (q\<lparr>q_packets := remove_first (\<lambda>p. ch_next_hop p = nb) (q_packets q)\<rparr>)\<rparr>"
    by (subst (asm) salvage_loop.simps) (auto simp: pq_filter_nexthop_lawful split: option.splits)
  then show ?case by (auto simp: hops_table_def queued_for_def dest: in_remove_firstD)
next
  case (Suc n)
  obtain q where q: "ifqueue s = Some q" using Suc.prems(1)
    by (subst (asm) salvage_loop.simps) (auto split: option.splits)
  let ?q = "q\<lparr>q_packets := remove_first (\<lambda>p. ch_next_hop p = nb) (q_packets q)\<rparr>"
  have sub: "queued_for a (s\<lparr>ifqueue := Some ?q\<rparr>) \<longrightarrow> queued_for a s"
    using q by (auto simp: queued_for_def dest: in_remove_firstD)
  consider "s' = s\<lparr>ifqueue := Some ?q\<rparr>"
    | p s1 where "salvage why E p (s\<lparr>ifqueue := Some ?q\<rparr>) = Inr s1" "salvage_loop n why E nb s1 = Inr s'"
    using Suc.prems q by (subst (asm) salvage_loop.simps)
      (auto simp: pq_filter_nexthop_lawful dest!: bindE_InrD split: option.splits)
  then show ?case
  proof cases
    case 1
    with sub show ?thesis by (simp add: hops_table_def)
  next
    case 2
    from salvage_hops [OF 2(1)] have "hops_table s1 = hops_table s" "queued_for a s1 = queued_for a (s\<lparr>ifqueue := Some ?q\<rparr>)"
      by (simp_all add: hops_table_def queued_for_def)
    with Suc.IH [OF 2(2) Suc.prems(2)] sub show ?thesis by simp
  qed
qed

text \<open>Giving up a neighbour removes what goes through it and adds nothing.\<close>

lemma nb_delete_gone:
  assumes inv: "node_inv s" and E: "env_ok E" and f: "nb_delete E a s = Inr s'"
  shows "\<not> routes_via a s' \<and> \<not> queued_for a s'"
    and "(routes_via b s' \<longrightarrow> routes_via b s) \<and> (queued_for b s' \<longrightarrow> queued_for b s)"
proof -
  let ?s1 = "s\<lparr>seqno := seqno s + 2, nbhead := remove_first (\<lambda>nb. nb_addr nb = a) (nbhead s)\<rparr>"
  have law: "pq_lawful (pq E)" using E by (simp add: env_ok_def)
  obtain s2 n where h: "handle_link_failure E a ?s1 = Inr s2" and l: "salvage_loop n DROP_RTR_HELLO E a s2 = Inr s'"
    using f by (auto simp: nb_delete_def Let_def assertE_def dest!: bindE_InrD split: if_splits)
  have inv1: "node_inv ?s1"
    using inv by (intro node_inv_nbhead node_inv_seqno) (simp_all add: node_invD distinct_map_remove_first)
  have same: "routes_via c ?s1 = routes_via c s" "queued_for c ?s1 = queued_for c s" for c
    by (simp_all add: routes_via_def queued_for_def)
  have r: "routes_via c s' \<longleftrightarrow> routes_via c s \<and> c \<noteq> a" "queued_for c s' \<longrightarrow> queued_for c s" for c
    using handle_link_failure_via [OF inv1 h, of c] salvage_loop_hops [OF l law, of c] same [of c]
    by (simp_all add: routes_via_hops)
  have "\<not> queued_for a s'"
    using safe_InrD [OF nb_delete_ok [OF inv E] f] by (auto simp: queued_for_def)
  with r show "\<not> routes_via a s' \<and> \<not> queued_for a s'" by blast
  show "(routes_via b s' \<longrightarrow> routes_via b s) \<and> (queued_for b s' \<longrightarrow> queued_for b s)" using r by blast
qed

lemma nb_purge_gone:
  assumes "foldE (\<lambda>nb t. if nb_expire nb \<le> now E then nb_delete E (nb_addr nb) t else Inr t) nbs s = Inr s'"
    and "node_inv s" and "env_ok E"
  shows "(routes_via b s' \<longrightarrow> routes_via b s) \<and> (queued_for b s' \<longrightarrow> queued_for b s)
    \<and> (\<forall>nb\<in>set nbs. nb_expire nb \<le> now E \<longrightarrow> \<not> routes_via (nb_addr nb) s' \<and> \<not> queued_for (nb_addr nb) s')"
  using assms
proof (induction nbs arbitrary: s b)
  case Nil
  then show ?case by simp
next
  case (Cons nb nbs)
  let ?f = "\<lambda>nb t. if nb_expire nb \<le> now E then nb_delete E (nb_addr nb) t else Inr t"
  obtain s1 where s1: "?f nb s = Inr s1" and rest: "foldE ?f nbs s1 = Inr s'"
    using Cons.prems(1) by (auto dest!: bindE_InrD)
  show ?case
  proof (cases "nb_expire nb \<le> now E")
    case True
    then have d: "nb_delete E (nb_addr nb) s = Inr s1" using s1 by simp
    have "node_inv s1" using safe_InrD [OF nb_delete_ok [OF Cons.prems(2,3)] d] by simp
    from Cons.IH [OF rest this Cons.prems(3)] nb_delete_gone [OF Cons.prems(2,3) d]
    show ?thesis unfolding list.set by blast
  next
    case False
    then have "s1 = s" using s1 by simp
    with Cons.IH [OF rest _ Cons.prems(3)] Cons.prems(2) False show ?thesis by simp
  qed
qed



end
