(* ===== verification/PacketPool.thy ===== *)
theory PacketPool
  imports RQueuePtr
begin

text \<open>
  The packet memory of \<^verbatim>\<open>common/packet.h\<close>: \<^verbatim>\<open>Packet::alloc\<close>, \<^verbatim>\<open>free\<close>, \<^verbatim>\<open>copy\<close>, \<^verbatim>\<open>refcopy\<close> and
  the user data, over an explicit store of packet cells with the free list threaded through
  \<^verbatim>\<open>next_\<close>. Address \<open>0\<close> is null and \<^verbatim>\<open>new Packet\<close> takes the next unused address.
\<close>

section \<open>User data\<close>

text \<open>
  An \<^verbatim>\<open>AppData\<close> is the \<^verbatim>\<open>PacketData\<close> of this file, its length with its bytes, or data of some
  other type, of which only the size is used. Fresh bytes are uninitialised: the argument \<open>junk\<close>.
\<close>

datatype AppData = PacketData int "u8 list option" | OtherData int

definition PacketData_new :: "(nat \<Rightarrow> u8) \<Rightarrow> int \<Rightarrow> AppData" where
  "PacketData_new junk sz = PacketData sz (if sz > 0 then Some (map junk [0..<nat sz]) else None)"

fun appdata_copy :: "AppData \<Rightarrow> AppData" where
  "appdata_copy (PacketData n d) = PacketData n (if n > 0 then map_option (take (nat n)) d else None)"
| "appdata_copy (OtherData n) = OtherData n"

fun appdata_size :: "AppData \<Rightarrow> int" where
  "appdata_size (PacketData n d) = n"
| "appdata_size (OtherData n) = n"

section \<open>Cells\<close>

text \<open>
  \<open>bits\<close> are the headers, \<open>options\<close> what the DCCP header points to, \<open>ev_uid\<close> and \<open>ev_time\<close>
  the fields of the base class \<^verbatim>\<open>Event\<close>.
\<close>

record cell =
  bits :: packet
  options :: "u8 list option"
  user_data :: "AppData option"
  fflag :: bool
  ref_count :: int
  next_cell :: ptr
  ev_uid :: int
  ev_time :: time

record pool =
  cell_at :: "ptr \<Rightarrow> cell"
  free_head :: ptr
  brk :: ptr

datatype pool_fault = Not_freed | Has_data | In_event_queue | Not_PacketData

definition assert_pool :: "pool_fault \<Rightarrow> bool \<Rightarrow> pool_fault + unit" where
  "assert_pool f b = (if b then Inr () else Inl f)"

definition upd_cell :: "ptr \<Rightarrow> (cell \<Rightarrow> cell) \<Rightarrow> pool \<Rightarrow> pool" where
  "upd_cell p f h = h\<lparr>cell_at := (cell_at h)(p := f (cell_at h p))\<rparr>"

definition Packet_init :: "cell \<Rightarrow> cell" where
  "Packet_init c = c\<lparr>bits := packet_init, options := None\<rparr>"

text \<open>The constructor leaves \<^verbatim>\<open>fflag_\<close> and the header bits unset: \<open>junk_cell\<close>.\<close>

definition Packet_new :: "cell \<Rightarrow> cell" where
  "Packet_new junk_cell =
     junk_cell\<lparr>user_data := None, ref_count := 0, next_cell := 0, ev_uid := 0, ev_time := 0\<rparr>"

section \<open>Operations\<close>

definition alloc :: "cell \<Rightarrow> pool \<Rightarrow> pool_fault + ptr \<times> pool" where
  "alloc junk_cell h =
     bindE
       (if free_head h \<noteq> 0 then
          (let p = free_head h in
           bindE (assert_pool Not_freed (\<not> fflag (cell_at h p))) (\<lambda>_.
           let h1 = h\<lparr>free_head := next_cell (cell_at h p)\<rparr> in
           bindE (assert_pool Has_data (user_data (cell_at h1 p) = None)) (\<lambda>_.
             Inr (p, upd_cell p (\<lambda>c. c\<lparr>ev_uid := 0, ev_time := 0\<rparr>) h1))))
        else
          (let p = brk h in
           Inr (p, upd_cell p (\<lambda>_. Packet_new junk_cell) (h\<lparr>brk := brk h + 1\<rparr>))))
       (\<lambda>(p, h1).
          Inr (p, upd_cell p (\<lambda>c0. let c = Packet_init c0 in
            c\<lparr>bits := (bits c)\<lparr>ch_next_hop := - 2, ch_last_hop := - 2, ch_direction := DOWN\<rparr>,
              fflag := True, next_cell := 0\<rparr>) h1))"

definition allocdata :: "(nat \<Rightarrow> u8) \<Rightarrow> ptr \<Rightarrow> int \<Rightarrow> pool \<Rightarrow> pool_fault + pool" where
  "allocdata junk p n h =
     bindE (assert_pool Has_data (user_data (cell_at h p) = None)) (\<lambda>_.
       Inr (upd_cell p (\<lambda>c. c\<lparr>user_data := Some (PacketData_new junk n)\<rparr>) h))"

definition alloc_n :: "cell \<Rightarrow> (nat \<Rightarrow> u8) \<Rightarrow> int \<Rightarrow> pool \<Rightarrow> pool_fault + ptr \<times> pool" where
  "alloc_n junk_cell junk n h =
     bindE (alloc junk_cell h) (\<lambda>(p, h1).
       if n > 0 then bindE (allocdata junk p n h1) (\<lambda>h2. Inr (p, h2)) else Inr (p, h1))"

text \<open>
  Both clearing the headers and \<^verbatim>\<open>delete\<close> end the life of DCCP options; a copy of a packet gets
  its own options, as it gets its own data.
\<close>

definition free :: "ptr \<Rightarrow> pool \<Rightarrow> pool_fault + pool" where
  "free p h =
     (let c = cell_at h p in
      if fflag c then
        if ref_count c = 0 then
          bindE (assert_pool In_event_queue (ev_uid c \<le> 0)) (\<lambda>_.
            Inr ((upd_cell p (\<lambda>c. (Packet_init (c\<lparr>user_data := None\<rparr>))
                    \<lparr>next_cell := free_head h, fflag := False\<rparr>) h)\<lparr>free_head := p\<rparr>))
        else Inr (upd_cell p (\<lambda>c. c\<lparr>ref_count := ref_count c - 1\<rparr>) h)
      else Inr h)"

definition refcopy :: "ptr \<Rightarrow> pool \<Rightarrow> pool" where
  "refcopy p h = upd_cell p (\<lambda>c. c\<lparr>ref_count := ref_count c + 1\<rparr>) h"

definition copy :: "cell \<Rightarrow> ptr \<Rightarrow> pool \<Rightarrow> pool_fault + ptr \<times> pool" where
  "copy junk_cell p h =
     bindE (alloc junk_cell h) (\<lambda>(q, h1).
       let c = cell_at h1 p in
       Inr (q, upd_cell q (\<lambda>d. d\<lparr>bits := bits c, options := options c,
         user_data := (case user_data c of None \<Rightarrow> user_data d | Some a \<Rightarrow> Some (appdata_copy a))\<rparr>) h1))"

definition setdata :: "ptr \<Rightarrow> AppData option \<Rightarrow> pool \<Rightarrow> pool" where
  "setdata p d h = upd_cell p (\<lambda>c. c\<lparr>user_data := d\<rparr>) h"

definition initdata :: "ptr \<Rightarrow> pool \<Rightarrow> pool" where
  "initdata p h = upd_cell p (\<lambda>c. c\<lparr>user_data := None\<rparr>) h"

definition datalen :: "ptr \<Rightarrow> pool \<Rightarrow> int" where
  "datalen p h = (case user_data (cell_at h p) of None \<Rightarrow> 0 | Some a \<Rightarrow> appdata_size a)"

definition accessdata :: "ptr \<Rightarrow> pool \<Rightarrow> pool_fault + u8 list option" where
  "accessdata p h =
     (case user_data (cell_at h p) of
        None \<Rightarrow> Inr None
      | Some (PacketData n d) \<Rightarrow> Inr d
      | Some (OtherData n) \<Rightarrow> Inl Not_PacketData)"

section \<open>The invariant of the pool\<close>

text \<open>
  The free list holds exactly the allocated cells whose flag is off, each once, with cleared
  headers, without data and without references.
\<close>

definition live :: "ptr \<Rightarrow> pool \<Rightarrow> bool" where
  "live p h \<longleftrightarrow> 0 < p \<and> p < brk h \<and> fflag (cell_at h p)"

definition blank :: "cell \<Rightarrow> bool" where
  "blank c \<longleftrightarrow> \<not> fflag c \<and> user_data c = None \<and> ref_count c = 0 \<and> bits c = packet_init \<and> options c = None"

definition pool_ok :: "pool \<Rightarrow> ptr list \<Rightarrow> bool" where
  "pool_ok h fs \<longleftrightarrow> chain (\<lambda>p. next_cell (cell_at h p)) (free_head h) fs \<and> distinct fs \<and> 0 < brk h
     \<and> (\<forall>p. 0 < p \<and> p < brk h \<and> \<not> fflag (cell_at h p) \<longleftrightarrow> p \<in> set fs)
     \<and> (\<forall>p\<in>set fs. blank (cell_at h p)) \<and> (\<forall>p. live p h \<longrightarrow> 0 \<le> ref_count (cell_at h p))"

definition pool_inv :: "pool \<Rightarrow> bool" where
  "pool_inv h \<longleftrightarrow> (\<exists>fs. pool_ok h fs)"

lemma upd_cell_sel [simp]:
  "cell_at (upd_cell p f h) q = (if q = p then f (cell_at h p) else cell_at h q)"
  "free_head (upd_cell p f h) = free_head h" "brk (upd_cell p f h) = brk h"
  by (simp_all add: upd_cell_def)

lemma chain_cells_cong:
  "(\<And>q. q \<in> set ps \<Longrightarrow> nx q = nx' q) \<Longrightarrow> chain nx p ps = chain nx' p ps"
  by (induction ps arbitrary: p) auto

lemma live_not_free: "pool_ok h fs \<Longrightarrow> live p h \<Longrightarrow> p \<notin> set fs"
  by (auto simp: pool_ok_def live_def)

text \<open>Writing to a live packet keeps the invariant as long as the flag stays on.\<close>

lemma pool_ok_upd_live:
  assumes ok: "pool_ok h fs" and p: "live p h"
    and f: "fflag (f (cell_at h p))" "0 \<le> ref_count (f (cell_at h p))"
  shows "pool_ok (upd_cell p f h) fs"
proof -
  have n: "p \<notin> set fs" by (rule live_not_free [OF ok p])
  have "chain (\<lambda>q. next_cell (cell_at (upd_cell p f h) q)) (free_head h) fs
      = chain (\<lambda>q. next_cell (cell_at h q)) (free_head h) fs"
    using n by (intro chain_cells_cong) auto
  with ok p f n show ?thesis by (auto simp: pool_ok_def live_def)
qed

lemma pool_inv_upd_live:
  "pool_inv h \<Longrightarrow> live p h \<Longrightarrow> fflag (f (cell_at h p)) \<Longrightarrow> 0 \<le> ref_count (f (cell_at h p)) \<Longrightarrow>
     pool_inv (upd_cell p f h)"
  unfolding pool_inv_def using pool_ok_upd_live by blast

text \<open>What \<^verbatim>\<open>alloc\<close> returns, and from where.\<close>

definition allocated :: "ptr \<Rightarrow> pool \<Rightarrow> pool \<Rightarrow> bool" where
  "allocated p h h' \<longleftrightarrow> \<not> live p h \<and> live p h' \<and> bits (cell_at h' p) = packet_alloc
     \<and> options (cell_at h' p) = None \<and> user_data (cell_at h' p) = None \<and> ref_count (cell_at h' p) = 0
     \<and> ev_uid (cell_at h' p) = 0 \<and> (\<forall>q. q \<noteq> p \<longrightarrow> cell_at h' q = cell_at h q) \<and> brk h \<le> brk h'"

lemma alloc_reuses:
  assumes ok: "pool_ok h (p # fs)"
  shows "\<exists>h'. alloc j h = Inr (p, h') \<and> pool_ok h' fs \<and> allocated p h h'"
proof -
  let ?c = "cell_at h p"
  have c: "free_head h = p" "p \<noteq> 0" "blank ?c" "p \<notin> set fs" "0 < p" "p < brk h"
    and ch: "chain (\<lambda>q. next_cell (cell_at h q)) (next_cell ?c) fs"
    using ok by (auto simp: pool_ok_def)
  let ?f = "\<lambda>c0. let c = Packet_init c0 in
      c\<lparr>bits := (bits c)\<lparr>ch_next_hop := - 2, ch_last_hop := - 2, ch_direction := DOWN\<rparr>, fflag := True, next_cell := 0\<rparr>"
  let ?h = "upd_cell p ?f (upd_cell p (\<lambda>c. c\<lparr>ev_uid := 0, ev_time := 0\<rparr>) (h\<lparr>free_head := next_cell ?c\<rparr>))"
  have "alloc j h = Inr (p, ?h)"
    using c by (simp add: alloc_def Let_def assert_pool_def blank_def)
  moreover have "chain (\<lambda>q. next_cell (cell_at ?h q)) (free_head ?h) fs"
    using ch c(4) by (subst chain_cells_cong [where nx' = "\<lambda>q. next_cell (cell_at h q)"]) auto
  then have "pool_ok ?h fs"
    using ok c by (auto simp: pool_ok_def blank_def live_def Let_def Packet_init_def)
  moreover have "allocated p h ?h"
    using c by (auto simp: allocated_def live_def blank_def Let_def Packet_init_def packet_alloc_def)
  ultimately show ?thesis by blast
qed

lemma alloc_grows:
  assumes ok: "pool_ok h []"
  shows "\<exists>h'. alloc j h = Inr (brk h, h') \<and> pool_ok h' [] \<and> allocated (brk h) h h'"
proof -
  have c: "free_head h = 0" "0 < brk h" and all: "\<forall>p. 0 < p \<and> p < brk h \<longrightarrow> fflag (cell_at h p)"
    using ok by (auto simp: pool_ok_def)
  obtain h' where h': "alloc j h = Inr (brk h, h')"
    using c by (simp add: alloc_def Let_def)
  then have "pool_ok h' [] \<and> allocated (brk h) h h'"
    using ok c all
    by (auto simp: alloc_def Let_def pool_ok_def allocated_def live_def Packet_new_def Packet_init_def packet_alloc_def
        less_Suc_eq) (metis neq0_conv)
  with h' show ?thesis by blast
qed

lemma alloc_ok:
  assumes "pool_inv h"
  shows "\<exists>p h'. alloc j h = Inr (p, h') \<and> pool_inv h' \<and> allocated p h h'"
proof -
  obtain fs where fs: "pool_ok h fs" using assms by (auto simp: pool_inv_def)
  show ?thesis
  proof (cases fs)
    case Nil
    with alloc_grows [of h j] fs show ?thesis unfolding pool_inv_def by blast
  next
    case (Cons p ps)
    with alloc_reuses [of h p ps j] fs show ?thesis unfolding pool_inv_def by blast
  qed
qed

lemma free_ok:
  assumes inv: "pool_inv h" and p: "0 < p" "p < brk h" and uid: "ev_uid (cell_at h p) \<le> 0"
  shows "\<exists>h'. free p h = Inr h' \<and> pool_inv h' \<and> brk h' = brk h \<and> (\<forall>q. q \<noteq> p \<longrightarrow> cell_at h' q = cell_at h q)
    \<and> (live p h' \<longleftrightarrow> live p h \<and> 0 < ref_count (cell_at h p))"
proof (cases "live p h")
  case False
  with p have "free p h = Inr h" by (auto simp: free_def live_def Let_def)
  with False inv show ?thesis by blast
next
  case live: True
  obtain fs where ok: "pool_ok h fs" using inv by (auto simp: pool_inv_def)
  have n: "p \<notin> set fs" by (rule live_not_free [OF ok live])
  have r: "0 \<le> ref_count (cell_at h p)" using ok live by (auto simp: pool_ok_def)
  show ?thesis
  proof (cases "ref_count (cell_at h p) = 0")
    case False
    let ?h = "upd_cell p (\<lambda>c. c\<lparr>ref_count := ref_count c - 1\<rparr>) h"
    have "free p h = Inr ?h" using False live by (simp add: free_def live_def Let_def)
    moreover have "pool_inv ?h" using False live r by (intro pool_inv_upd_live inv) (auto simp: live_def)
    ultimately show ?thesis using False live r by (auto simp: live_def)
  next
    case True
    let ?h = "(upd_cell p (\<lambda>c. (Packet_init (c\<lparr>user_data := None\<rparr>))
        \<lparr>next_cell := free_head h, fflag := False\<rparr>) h)\<lparr>free_head := p\<rparr>"
    have "free p h = Inr ?h" using True live uid by (simp add: free_def live_def Let_def assert_pool_def)
    moreover have "chain (\<lambda>q. next_cell (cell_at ?h q)) (free_head h) fs"
      using ok n by (subst chain_cells_cong [where nx' = "\<lambda>q. next_cell (cell_at h q)"]) (auto simp: pool_ok_def)
    then have "pool_ok ?h (p # fs)"
      using ok n p True by (auto simp: pool_ok_def blank_def Packet_init_def live_def)
    ultimately show ?thesis using True by (auto simp: pool_inv_def live_def)
  qed
qed

end
