(* ===== verification/PoolProps.thy ===== *)
theory PoolProps
  imports PacketPool
begin

text \<open>
  What the packet memory of \<^verbatim>\<open>common/packet.h\<close> promises to its clients: no operation sequence of
  a client that respects the flag corrupts the free list, an allocated packet is blank and
  nobody else's, references delay the release, and copies are independent.
\<close>

section \<open>Clients of the pool\<close>

text \<open>
  The steps a client makes: allocate, free any packet ever allocated that is not scheduled
  (even twice), share, copy, replace the data, write the headers, and the scheduler's stamp.
\<close>

inductive pool_step :: "pool \<Rightarrow> pool \<Rightarrow> bool" where
  alloc_step: "alloc j h = Inr (p, h') \<Longrightarrow> pool_step h h'"
| alloc_n_step: "alloc_n j junk n h = Inr (p, h') \<Longrightarrow> pool_step h h'"
| free_step: "0 < p \<Longrightarrow> p < brk h \<Longrightarrow> ev_uid (cell_at h p) \<le> 0 \<Longrightarrow> free p h = Inr h' \<Longrightarrow> pool_step h h'"
| refcopy_step: "live p h \<Longrightarrow> pool_step h (refcopy p h)"
| copy_step: "live p h \<Longrightarrow> copy j p h = Inr (q, h') \<Longrightarrow> pool_step h h'"
| setdata_step: "live p h \<Longrightarrow> pool_step h (setdata p d h)"
| header_step: "live p h \<Longrightarrow> pool_step h (upd_cell p (\<lambda>c. c\<lparr>bits := b, options := os\<rparr>) h)"
| schedule_step: "live p h \<Longrightarrow> pool_step h (upd_cell p (\<lambda>c. c\<lparr>ev_uid := u, ev_time := t\<rparr>) h)"

definition pool_new :: pool where
  "pool_new = \<lparr>cell_at = (\<lambda>_. \<lparr>bits = packet_init, options = None, user_data = None, fflag = False,
     ref_count = 0, next_cell = 0, ev_uid = 0, ev_time = 0\<rparr>), free_head = 0, brk = 1\<rparr>"

inductive pool_reach :: "pool \<Rightarrow> bool" where
  pool_start: "pool_reach pool_new"
| pool_next: "pool_reach h \<Longrightarrow> pool_step h h' \<Longrightarrow> pool_reach h'"

lemma pool_new_inv: "pool_inv pool_new"
  by (auto simp: pool_inv_def pool_ok_def pool_new_def live_def intro!: exI [of _ "[]"])

lemma live_refs: "pool_inv h \<Longrightarrow> live p h \<Longrightarrow> 0 \<le> ref_count (cell_at h p)"
  by (auto simp: pool_inv_def pool_ok_def)

lemma live_flag: "live p h \<Longrightarrow> fflag (cell_at h p)"
  by (simp add: live_def)

lemma copy_ok:
  assumes inv: "pool_inv h" and p: "live p h"
  shows "\<exists>q h'. copy j p h = Inr (q, h') \<and> pool_inv h' \<and> live q h' \<and> \<not> live q h \<and> q \<noteq> p
    \<and> bits (cell_at h' q) = bits (cell_at h p) \<and> options (cell_at h' q) = options (cell_at h p)
    \<and> user_data (cell_at h' q) = map_option appdata_copy (user_data (cell_at h p))
    \<and> ref_count (cell_at h' q) = 0 \<and> (\<forall>r. r \<noteq> q \<longrightarrow> cell_at h' r = cell_at h r)"
proof -
  obtain q h1 where a: "alloc j h = Inr (q, h1)" "pool_inv h1" "allocated q h h1"
    using alloc_ok [OF inv] by blast
  have ne: "q \<noteq> p" "cell_at h1 p = cell_at h p" using a(3) p by (auto simp: allocated_def)
  let ?f = "\<lambda>d. d\<lparr>bits := bits (cell_at h p), options := options (cell_at h p),
      user_data := (case user_data (cell_at h p) of None \<Rightarrow> user_data d | Some x \<Rightarrow> Some (appdata_copy x))\<rparr>"
  have "copy j p h = Inr (q, upd_cell q ?f h1)" using a(1) ne by (simp add: copy_def Let_def)
  moreover have "pool_inv (upd_cell q ?f h1)"
    using a(3) by (intro pool_inv_upd_live a(2)) (auto simp: allocated_def live_def)
  ultimately show ?thesis using a(3) ne
    by (intro exI [of _ q] exI [of _ "upd_cell q ?f h1"]) (auto simp: allocated_def live_def split: option.split)
qed

lemma allocdata_ok:
  assumes "pool_inv h" "live p h" "user_data (cell_at h p) = None"
  shows "\<exists>h'. allocdata junk p n h = Inr h' \<and> pool_inv h'"
proof -
  let ?f = "\<lambda>c. c\<lparr>user_data := Some (PacketData_new junk n)\<rparr>"
  have "pool_inv (upd_cell p ?f h)"
    using live_refs [OF assms(1,2)] live_flag [OF assms(2)] by (intro pool_inv_upd_live assms(1,2)) auto
  with assms show ?thesis by (simp add: allocdata_def assert_pool_def)
qed

lemma alloc_n_ok: "pool_inv h \<Longrightarrow> \<exists>p h'. alloc_n j junk n h = Inr (p, h') \<and> pool_inv h'"
proof -
  assume inv: "pool_inv h"
  obtain p h1 where a: "alloc j h = Inr (p, h1)" "pool_inv h1" "allocated p h h1" using alloc_ok [OF inv] by blast
  with allocdata_ok [of h1 p junk n] show ?thesis by (auto simp: alloc_n_def allocated_def)
qed

lemma pool_step_inv: "pool_step h h' \<Longrightarrow> pool_inv h \<Longrightarrow> pool_inv h'"
proof (induction rule: pool_step.induct)
  case (alloc_step j h p h')
  with alloc_ok [of h j] show ?case by auto
next
  case (alloc_n_step j junk n h p h')
  with alloc_n_ok [of h j junk n] show ?case by auto
next
  case (free_step p h h')
  with free_ok [of h p] show ?case by auto
next
  case (copy_step p h j q h')
  with copy_ok [of h p j] show ?case by auto
next
  case (refcopy_step p h)
  then show ?case
    using live_refs [of h p] live_flag [of p h] by (simp add: refcopy_def pool_inv_upd_live)
next
  case (setdata_step p h d)
  then show ?case
    using live_refs [of h p] live_flag [of p h] by (simp add: setdata_def pool_inv_upd_live)
next
  case (header_step p h b os)
  then show ?case
    using live_refs [of h p] live_flag [of p h] by (simp add: pool_inv_upd_live)
next
  case (schedule_step p h u t)
  then show ?case
    using live_refs [of h p] live_flag [of p h] by (simp add: pool_inv_upd_live)
qed

lemma pool_reach_inv: "pool_reach h \<Longrightarrow> pool_inv h"
  by (induction rule: pool_reach.induct) (auto intro: pool_new_inv pool_step_inv)

section \<open>Allocation\<close>

text \<open>
  C36. \<^verbatim>\<open>Packet::alloc\<close> never fails its assertions, whatever its clients did before, including
  freeing a packet twice: it returns a packet that was not in use, with cleared headers but for
  the three fields it sets, without data and references, and touches no other packet.
\<close>

theorem alloc_is_fresh:
  assumes "pool_reach h"
  shows "\<exists>p h'. alloc j h = Inr (p, h') \<and> pool_reach h' \<and> \<not> live p h \<and> live p h'
    \<and> bits (cell_at h' p) = packet_init\<lparr>ch_next_hop := - 2, ch_last_hop := - 2, ch_direction := DOWN\<rparr>
    \<and> user_data (cell_at h' p) = None \<and> ref_count (cell_at h' p) = 0 \<and> ev_uid (cell_at h' p) = 0
    \<and> (\<forall>q. q \<noteq> p \<longrightarrow> cell_at h' q = cell_at h q)"
proof -
  obtain p h' where a: "alloc j h = Inr (p, h')" "allocated p h h'"
    using alloc_ok [OF pool_reach_inv [OF assms]] by blast
  then show ?thesis
    using pool_reach.pool_next [OF assms pool_step.alloc_step [OF a(1)]]
    by (auto simp: allocated_def packet_alloc_def)
qed

definition demo_cell :: cell where
  "demo_cell = \<lparr>bits = packet_init\<lparr>ih_ttl := 9\<rparr>, options = Some [1], user_data = Some (OtherData 3), fflag = False,
     ref_count = 5, next_cell = 4, ev_uid = 2, ev_time = 1\<rparr>"

lemma demo_alloc_1: "alloc demo_cell pool_new = Inr (1, snd (projr (alloc demo_cell pool_new)))"
  by (simp add: alloc_def pool_new_def Let_def)

theorem alloc_is_fresh_witness:
  "\<exists>h'. alloc demo_cell pool_new = Inr (1, h') \<and> live 1 h' \<and> user_data (cell_at h' 1) = None"
  using alloc_is_fresh [OF pool_start, of demo_cell] demo_alloc_1 by auto

section \<open>Release\<close>

fun free_times :: "nat \<Rightarrow> ptr \<Rightarrow> pool \<Rightarrow> pool_fault + pool" where
  "free_times 0 p h = Inr h"
| "free_times (Suc n) p h = bindE (free p h) (free_times n p)"

lemma free_shared:
  "live p h \<Longrightarrow> int n \<le> ref_count (cell_at h p) \<Longrightarrow>
     free_times n p h = Inr (upd_cell p (\<lambda>c. c\<lparr>ref_count := ref_count c - int n\<rparr>) h)"
proof (induction n arbitrary: h)
  case 0
  then show ?case by (simp add: upd_cell_def)
next
  case (Suc n)
  let ?h = "upd_cell p (\<lambda>c. c\<lparr>ref_count := ref_count c - 1\<rparr>) h"
  have "free p h = Inr ?h" using Suc.prems by (simp add: free_def live_def Let_def)
  moreover have "free_times n p ?h = Inr (upd_cell p (\<lambda>c. c\<lparr>ref_count := ref_count c - int n\<rparr>) ?h)"
    using Suc.prems by (intro Suc.IH) (auto simp: live_def)
  ultimately show ?case by (simp add: upd_cell_def algebra_simps)
qed

text \<open>
  C37. References: a packet shared n times survives n calls of \<^verbatim>\<open>Packet::free\<close> and is released by
  the next one; a further \<^verbatim>\<open>free\<close> of the released packet changes nothing.
\<close>

theorem references_delay_release:
  assumes reach: "pool_reach h" and p: "live p h" "ev_uid (cell_at h p) \<le> 0"
    and n: "n = nat (ref_count (cell_at h p))"
  shows "\<exists>h1 h2. free_times n p h = Inr h1 \<and> live p h1 \<and> bits (cell_at h1 p) = bits (cell_at h p)
    \<and> free p h1 = Inr h2 \<and> \<not> live p h2 \<and> free_head h2 = p \<and> free p h2 = Inr h2"
proof -
  have r: "0 \<le> ref_count (cell_at h p)" by (rule live_refs [OF pool_reach_inv [OF reach] p(1)])
  let ?h = "upd_cell p (\<lambda>c. c\<lparr>ref_count := ref_count c - int n\<rparr>) h"
  have "free_times n p h = Inr ?h" using n r p(1) by (intro free_shared) auto
  then show ?thesis
    using n r p by (auto simp: live_def free_def Let_def assert_pool_def Packet_init_def)
qed

text \<open>The pool after node code allocated packet 1 and shared it once.\<close>

definition shared_pool :: pool where
  "shared_pool = refcopy 1 (snd (projr (alloc demo_cell pool_new)))"

lemma shared_pool_reach: "pool_reach shared_pool" "live 1 shared_pool"
proof -
  have l: "live 1 (snd (projr (alloc demo_cell pool_new)))"
    by (simp add: alloc_def pool_new_def Let_def live_def)
  have "pool_reach (snd (projr (alloc demo_cell pool_new)))"
    by (rule pool_next [OF pool_start alloc_step [OF demo_alloc_1]])
  then show "pool_reach shared_pool" unfolding shared_pool_def by (rule pool_next) (rule refcopy_step [OF l])
  show "live 1 shared_pool" using l by (simp add: shared_pool_def live_def refcopy_def)
qed

lemma shared_pool_cell [unfolded One_nat_def, simp]:
  "ref_count (cell_at shared_pool 1) = 1" "ev_uid (cell_at shared_pool 1) = 0" "user_data (cell_at shared_pool 1) = None"
  by (simp_all add: shared_pool_def refcopy_def alloc_def pool_new_def Let_def Packet_new_def Packet_init_def)

theorem references_delay_release_witness:
  "\<exists>h1 h2. free 1 shared_pool = Inr h1 \<and> live 1 h1 \<and> free 1 h1 = Inr h2 \<and> \<not> live 1 h2 \<and> free 1 h2 = Inr h2"
proof -
  have "free_times 1 1 shared_pool = free 1 shared_pool" by (cases "free 1 shared_pool") simp_all
  then show ?thesis
    using references_delay_release [OF shared_pool_reach, of 1] by auto
qed

section \<open>Copies\<close>



end
