(* ===== verification/Knowledge.thy ===== *)
theory Knowledge
  imports AgentRecv
begin

text \<open>
  An abstract specification of how a node may handle sequence numbers, in the style of a
  gossip protocol: what a node knows is, per destination, the sequence number of its route and
  the highest one it heard in route errors; messages are claims that a destination has reached
  a sequence number. Theory \<^theory_text>\<open>KnowSim\<close> shows that every handler of the agent keeps to it.
\<close>

section \<open>Claims and knowledge\<close>

type_synonym claim = "nsaddr \<times> u32"

fun hdr_claims :: "hdr_all_eamrp \<Rightarrow> claim set" where
  "hdr_claims (Rreq rq) = {(rq_src rq, rq_src_seqno rq), (rq_dst rq, rq_dst_seqno rq)}"
| "hdr_claims (Rrep rp) = {(rp_dst rp, rp_dst_seqno rp)}"
| "hdr_claims (Hello rp) = {(rp_dst rp, rp_dst_seqno rp)}"
| "hdr_claims (Rerr re) = (\<lambda>i. (unreachable_dst re ! i, unreachable_dst_seqno re ! i)) ` {..<unat (DestCount re)}"
| "hdr_claims (Raw t) = {}"

definition claims :: "packet \<Rightarrow> claim set" where
  "claims p = (if ch_ptype p = PT_EAMRP then hdr_claims (hdr p) else {})"

record knowledge =
  own :: u32
  seen :: "nsaddr \<Rightarrow> (u32 \<times> u32) option"
  told :: "claim set"

definition know :: "eamrp \<Rightarrow> knowledge" where
  "know s = \<lparr>own = seqno s,
     seen = (\<lambda>d. map_option (\<lambda>rt. (rt_seqno rt, rt_highest_seqno_heard rt)) (rt_lookup d (rtable s))),
     told = (\<Union>e\<in>set (out s). case e of Scheduled p t \<Rightarrow> claims p | _ \<Rightarrow> {})\<rparr>"

section \<open>The rules of the specification\<close>

text \<open>
  \<open>know_step me K c k k'\<close>: node \<open>me\<close>, which received the claims \<open>K\<close>, goes from \<open>k\<close> to \<open>k'\<close>;
  \<open>c\<close> is one if it raises its own number. A node meets a destination; adopts a newer claim; gives
  up a route, which makes the number odd; hears and then concedes to a claim in a route error;
  raises its own number; and tells others only what it was told, what it stores, and its own number.
\<close>

inductive know_step :: "nsaddr \<Rightarrow> claim set \<Rightarrow> nat \<Rightarrow> knowledge \<Rightarrow> knowledge \<Rightarrow> bool" for me K where
  meet: "seen k d = None \<Longrightarrow> know_step me K 0 k (k\<lparr>seen := (seen k)(d \<mapsto> (0, 0))\<rparr>)"
| adopt: "seen k d = Some (n, h) \<Longrightarrow> (d, m) \<in> K \<Longrightarrow> n < m \<Longrightarrow> d \<noteq> me \<Longrightarrow>
    know_step me K 0 k (k\<lparr>seen := (seen k)(d \<mapsto> (m, h))\<rparr>)"
| give_up: "seen k d = Some (n, h) \<Longrightarrow> even n \<Longrightarrow>
    know_step me K 0 k (k\<lparr>seen := (seen k)(d \<mapsto> (max (n + 1) h, h))\<rparr>)"
| hear: "seen k d = Some (n, h) \<Longrightarrow> (d, m) \<in> K \<Longrightarrow> n \<le> m \<Longrightarrow>
    know_step me K 0 k (k\<lparr>seen := (seen k)(d \<mapsto> (n, max h m))\<rparr>)"
| concede: "seen k d = Some (n, h) \<Longrightarrow> n \<le> h \<Longrightarrow>
    know_step me K 0 k (k\<lparr>seen := (seen k)(d \<mapsto> (h, h))\<rparr>)"
| tell: "(d, m) \<in> K \<or> (\<exists>h. seen k d = Some (m, h)) \<or> (d, m) = (me, own k) \<Longrightarrow>
    know_step me K 0 k (k\<lparr>told := insert (d, m) (told k)\<rparr>)"
| raise: "know_step me K 1 k (k\<lparr>own := own k + 2\<rparr>)"
| raise_to: "(me, m) \<in> K \<Longrightarrow> know_step me K 1 k (k\<lparr>own := reply_seqno (own k) m\<rparr>)"

inductive_cases know_stepE: "know_step me K c k k'"

inductive know_run :: "nsaddr \<Rightarrow> claim set \<Rightarrow> nat \<Rightarrow> knowledge \<Rightarrow> knowledge \<Rightarrow> bool" for me K where
  run_refl: "know_run me K 0 k k"
| run_step: "know_run me K n k k' \<Longrightarrow> know_step me K c k' k'' \<Longrightarrow> know_run me K (n + c) k k''"

lemma know_step_run: "know_step me K c k k' \<Longrightarrow> know_run me K c k k'"
  using run_step [OF run_refl] by fastforce

lemma know_run_trans: "know_run me K n k k' \<Longrightarrow> know_run me K m k' k'' \<Longrightarrow> know_run me K (n + m) k k''"
  by (rotate_tac 1, induction rule: know_run.induct) (auto simp: add.assoc [symmetric] intro: run_step)

lemma know_step_mono: "know_step me K c k k' \<Longrightarrow> K \<subseteq> L \<Longrightarrow> know_step me L c k k'"
  by (induction rule: know_step.induct) (blast intro: know_step.intros)+

lemma know_run_mono: "know_run me K n k k' \<Longrightarrow> K \<subseteq> L \<Longrightarrow> know_run me L n k k'"
  by (induction rule: know_run.induct) (auto intro: run_refl run_step know_step_mono)

section \<open>Freshness never decreases\<close>

lemma unat_succ_even: "even (n :: u32) \<Longrightarrow> unat (n + 1) = Suc (unat n)"
proof -
  assume "even n"
  then have "1 + n \<noteq> 0" by (metis add.commute add_eq_0_iff even_minus odd_one)
  then show ?thesis using unatSuc [of n] by (simp add: add.commute)
qed

lemma even_unat_word: "even (unat (n :: u32)) \<longleftrightarrow> even n"
  by transfer (simp add: even_nat_iff even_take_bit_eq)

lemma even_less_succ: "even (n :: u32) \<Longrightarrow> n \<le> n + 1"
  by (simp add: word_le_nat_alt unat_succ_even)

lemma know_step_fresh:
  "know_step me K c k k' \<Longrightarrow> seen k d = Some (n, h) \<Longrightarrow> \<exists>n' h'. seen k' d = Some (n', h') \<and> n \<le> n' \<and> h \<le> h'"
  by (induction rule: know_step.induct)
    (auto simp: max_def intro: order_trans [OF even_less_succ])

lemma know_run_fresh:
  "know_run me K c k k' \<Longrightarrow> seen k d = Some (n, h) \<Longrightarrow> \<exists>n' h'. seen k' d = Some (n', h') \<and> n \<le> n' \<and> h \<le> h'"
proof (induction rule: know_run.induct)
  case (run_step m k k' c k'')
  then obtain n1 h1 where "seen k' d = Some (n1, h1)" "n \<le> n1" "h \<le> h1" by blast
  with know_step_fresh [OF run_step(2), of d n1 h1] show ?case by (blast intro: order_trans)
qed auto

section \<open>Nobody knows better than the destination\<close>

text \<open>
  \<open>capped D k\<close>: all that is stored and told about a destination \<open>d\<close> is at most \<open>D d\<close>. The
  bound for \<open>me\<close> is one more than the own number, for others it is odd and arbitrary.
\<close>

definition up_to :: "(nsaddr \<Rightarrow> nat) \<Rightarrow> claim set \<Rightarrow> bool" where
  "up_to D C \<longleftrightarrow> (\<forall>(d, m)\<in>C. unat m \<le> D d)"

definition bound_of :: "(nsaddr \<Rightarrow> nat) \<Rightarrow> nsaddr \<Rightarrow> knowledge \<Rightarrow> nsaddr \<Rightarrow> nat" where
  "bound_of D me k = D(me := Suc (unat (own k)))"

definition capped :: "(nsaddr \<Rightarrow> nat) \<Rightarrow> knowledge \<Rightarrow> bool" where
  "capped D k \<longleftrightarrow> up_to D (told k) \<and> (\<forall>d n h. seen k d = Some (n, h) \<longrightarrow> unat n \<le> D d \<and> unat h \<le> D d)"

lemma up_to_mono: "up_to D C \<Longrightarrow> (\<And>d. D d \<le> D' d) \<Longrightarrow> up_to D' C"
  by (fastforce simp: up_to_def intro: order_trans)

lemma capped_mono: "capped D k \<Longrightarrow> (\<And>d. D d \<le> D' d) \<Longrightarrow> capped D' k"
  unfolding capped_def by (meson order_trans up_to_mono)

text \<open>The invariant of a run: bounded, own number even, and raised by at most two each time.\<close>

definition run_inv :: "(nsaddr \<Rightarrow> nat) \<Rightarrow> nsaddr \<Rightarrow> nat \<Rightarrow> knowledge \<Rightarrow> knowledge \<Rightarrow> bool" where
  "run_inv D me n k0 k \<longleftrightarrow> capped (bound_of D me k) k \<and> even (own k)
     \<and> unat (own k0) \<le> unat (own k) \<and> unat (own k) \<le> unat (own k0) + 2 * n"

lemma raise_two: "unat (n :: u32) + 2 < 4294967296 \<Longrightarrow> unat (n + 2) = unat n + 2"
  by (simp add: unat_word_ariths)

lemma reply_seqno_step:
  assumes "even n" and "unat m \<le> Suc (unat n)" and "unat n + 2 < 4294967296"
  shows "reply_seqno n m = n \<or> reply_seqno n m = n + 2"
proof (cases "n < m")
  case True
  then have "unat m = unat (n + 1)" using assms unat_succ_even [of n] by (simp add: word_less_nat_alt)
  then have "m = n + 1" by (simp add: word_unat_eq_iff)
  with True assms(1) show ?thesis by (simp add: reply_seqno_def)
qed (use assms(1) in \<open>simp add: reply_seqno_def\<close>)

lemma give_up_bound:
  assumes "even (n :: u32)" and "unat n \<le> D" and "odd D"
  shows "unat (n + 1) \<le> D"
proof -
  have "unat n \<noteq> D" using assms(1,3) even_unat_word [of n] by auto
  with assms show ?thesis by (simp add: unat_succ_even)
qed

lemma unat_max: "unat (max m n) = max (unat m) (unat n)"
  by (simp add: max_def word_le_nat_alt)

lemma capped_seen: "capped D k \<Longrightarrow> seen k d = Some (n, h) \<Longrightarrow> unat n \<le> D d \<and> unat h \<le> D d"
  by (simp add: capped_def)

lemma capped_store:
  "capped D k \<Longrightarrow> unat n \<le> D d \<Longrightarrow> unat h \<le> D d \<Longrightarrow> capped D (k\<lparr>seen := (seen k)(d \<mapsto> (n, h))\<rparr>)"
  by (simp add: capped_def)

lemma capped_own: "capped D (k\<lparr>own := n\<rparr>) = capped D k"
  by (simp add: capped_def)

lemma bound_of_odd: "(\<And>d. odd (D d)) \<Longrightarrow> even (own k) \<Longrightarrow> odd (bound_of D me k d)"
  by (simp add: bound_of_def even_unat_word)

lemma bound_of_mono: "unat (own k) \<le> unat (own k') \<Longrightarrow> bound_of D me k d \<le> bound_of D me k' d"
  by (simp add: bound_of_def)

lemma bound_of_same [simp]:
  "bound_of D me (k\<lparr>seen := f\<rparr>) = bound_of D me k" "bound_of D me (k\<lparr>told := C\<rparr>) = bound_of D me k"
  by (simp_all add: bound_of_def)

lemma know_step_capped:
  assumes "know_step me K c k k'" and cap: "capped (bound_of D me k) k" and ev: "even (own k)"
    and K: "up_to (bound_of D me k) K" and odd: "\<And>d. odd (D d)" and room: "unat (own k) + 2 * c < 4294967296"
  shows "capped (bound_of D me k') k' \<and> even (own k')
    \<and> unat (own k) \<le> unat (own k') \<and> unat (own k') \<le> unat (own k) + 2 * c"
proof -
  let ?B = "bound_of D me k"
  have KD: "unat m \<le> ?B d" if "(d, m) \<in> K" for d m using K that by (auto simp: up_to_def)
  have raised: ?thesis if "k' = k\<lparr>own := n\<rparr>" "n = own k \<or> n = own k + 2" "c = Suc 0" for n
  proof -
    have n: "unat (own k) \<le> unat n" "unat n \<le> unat (own k) + 2" "even n"
      using that room ev raise_two [of "own k"] by auto
    then have "capped (bound_of D me k') k"
      using that by (intro capped_mono [OF cap]) (simp add: bound_of_def)
    with n that show ?thesis by (simp add: capped_own)
  qed
  show ?thesis
    using assms(1)
  proof (rule know_stepE)
    fix d assume "c = 0" "k' = k\<lparr>seen := (seen k)(d \<mapsto> (0, 0))\<rparr>"
    then show ?thesis using cap ev by (simp add: capped_store)
  next
    fix d n h m assume "c = 0" "k' = k\<lparr>seen := (seen k)(d \<mapsto> (m, h))\<rparr>" "seen k d = Some (n, h)" "(d, m) \<in> K"
    then show ?thesis using cap ev KD [of d m] capped_seen [OF cap, of d n h] by (simp add: capped_store)
  next
    fix d n h assume a: "c = 0" "k' = k\<lparr>seen := (seen k)(d \<mapsto> (max (n + 1) h, h))\<rparr>" "seen k d = Some (n, h)" "even n"
    then have "unat (n + 1) \<le> ?B d"
      using capped_seen [OF cap a(3)] bound_of_odd [OF odd ev] by (intro give_up_bound) auto
    with a show ?thesis using cap ev capped_seen [OF cap a(3)] by (simp add: capped_store unat_max)
  next
    fix d n h m assume "c = 0" "k' = k\<lparr>seen := (seen k)(d \<mapsto> (n, max h m))\<rparr>" "seen k d = Some (n, h)" "(d, m) \<in> K"
    then show ?thesis using cap ev KD [of d m] capped_seen [OF cap, of d n h] by (simp add: capped_store unat_max)
  next
    fix d n h assume "c = 0" "k' = k\<lparr>seen := (seen k)(d \<mapsto> (h, h))\<rparr>" "seen k d = Some (n, h)"
    then show ?thesis using cap ev capped_seen [OF cap, of d n h] by (simp add: capped_store)
  next
    fix d m assume a: "c = 0" "k' = k\<lparr>told := insert (d, m) (told k)\<rparr>"
      "(d, m) \<in> K \<or> (\<exists>h. seen k d = Some (m, h)) \<or> d = me \<and> m = own k"
    have "unat (own k) \<le> ?B me" by (simp add: bound_of_def)
    with a(3) have "unat m \<le> ?B d" using KD [of d m] capped_seen [OF cap, of d m] by blast
    with a(1,2) show ?thesis using cap ev by (simp add: capped_def up_to_def)
  next
    assume "c = Suc 0" "k' = k\<lparr>own := own k + 2\<rparr>"
    then show ?thesis using raised by blast
  next
    fix m assume a: "c = Suc 0" "k' = k\<lparr>own := reply_seqno (own k) m\<rparr>" "(me, m) \<in> K"
    then show ?thesis
      using raised reply_seqno_step [OF ev, of m] KD [of me m] room by (auto simp: bound_of_def)
  qed
qed

lemma know_run_capped:
  assumes "know_run me K n k0 k" and cap: "capped (bound_of D me k0) k0" and ev: "even (own k0)"
    and K: "up_to (bound_of D me k0) K" and odd: "\<And>d. odd (D d)" and room: "unat (own k0) + 2 * n < 4294967296"
  shows "run_inv D me n k0 k"
  using assms(1) cap ev K room
proof (induction rule: know_run.induct)
  case (run_refl k)
  then show ?case by (simp add: run_inv_def)
next
  case (run_step n k k' c k'')
  then have r: "run_inv D me n k k'" by simp
  then have own: "unat (own k) \<le> unat (own k')" "unat (own k') + 2 * c < 4294967296"
    using run_step.prems by (simp_all add: run_inv_def)
  have K': "up_to (bound_of D me k') K"
    by (rule up_to_mono [OF run_step.prems(3)]) (rule bound_of_mono [OF own(1)])
  show ?case
    using know_step_capped [OF run_step(2) _ _ K' odd own(2)] r by (auto simp: run_inv_def)
qed

end
