(* ===== verification/KnowSim.thy ===== *)
theory KnowSim
  imports Knowledge Machine AgentProps
begin

text \<open>
  The simulation, first part: transmission, the node's own messages, broken routes and timers.
  Whatever call an agent handles, what it stores, tells and counts changes by the rules of
  \<^theory_text>\<open>Knowledge\<close>. \<open>knows K N s s'\<close> says so for a call that received the claims \<open>K\<close>, with at
  most \<open>N\<close> raises of the own number.
\<close>

section \<open>Runs between concrete states\<close>

definition knows :: "claim set \<Rightarrow> nat \<Rightarrow> eamrp \<Rightarrow> eamrp \<Rightarrow> bool" where
  "knows K N s s' \<longleftrightarrow> index s' = index s \<and> (\<exists>n\<le>N. know_run (index s) K n (know s) (know s'))"

lemma knows_frame: "index s' = index s \<Longrightarrow> know s' = know s \<Longrightarrow> knows K N s s'"
  unfolding knows_def by (metis run_refl le0)

lemma knows_step: "index s' = index s \<Longrightarrow> know_step (index s) K c (know s) (know s') \<Longrightarrow> c \<le> N \<Longrightarrow> knows K N s s'"
  unfolding knows_def by (metis know_step_run)

lemma knows_trans: "knows K N s t \<Longrightarrow> knows K M t u \<Longrightarrow> knows K (N + M) s u"
  unfolding knows_def by (metis know_run_trans add_mono)

lemma knows_trans0: "knows K 0 s t \<Longrightarrow> knows K M t u \<Longrightarrow> knows K M s u"
  using knows_trans [of K 0 s t M u] by simp

lemma knows_trans0r: "knows K N s t \<Longrightarrow> knows K 0 t u \<Longrightarrow> knows K N s u"
  using knows_trans [of K N s t 0 u] by simp

lemma knows_mono: "knows K N s t \<Longrightarrow> K \<subseteq> L \<Longrightarrow> N \<le> M \<Longrightarrow> knows L M s t"
  unfolding knows_def by (meson know_run_mono order_trans)

lemma knows_index: "knows K N s t \<Longrightarrow> index t = index s"
  by (simp add: knows_def)

section \<open>What is known\<close>

lemma know_frame [simp]:
  "know (s\<lparr>rqueue := q\<rparr>) = know s" "know (s\<lparr>bihead := b\<rparr>) = know s" "know (s\<lparr>nbhead := h\<rparr>) = know s"
  "know (s\<lparr>ifqueue := f\<rparr>) = know s" "know (s\<lparr>draws := d\<rparr>) = know s" "know (s\<lparr>bid := i\<rparr>) = know s"
  by (simp_all add: know_def)

lemma know_seqno [simp]: "know (s\<lparr>seqno := n\<rparr>) = (know s)\<lparr>own := n\<rparr>"
  by (simp add: know_def)

lemma know_emit:
  "know (emit e s) = (case e of Scheduled p t \<Rightarrow> (know s)\<lparr>told := claims p \<union> told (know s)\<rparr> | _ \<Rightarrow> know s)"
  by (auto simp: know_def emit_def split: event.split)

lemma know_emit_simps [simp]:
  "know (emit (Scheduled p t) s) = (know s)\<lparr>told := claims p \<union> told (know s)\<rparr>"
  "know (emit (Dropped p why) s) = know s" "know (emit (Freed p) s) = know s"
  "know (emit (To_dmux p) s) = know s" "know (emit (Timer_set tm t) s) = know s"
  by (simp_all add: know_emit)

lemma know_seen: "seen (know s) d = map_option (\<lambda>rt. (rt_seqno rt, rt_highest_seqno_heard rt)) (rt_lookup d (rtable s))"
  by (simp add: know_def)

lemma know_own [simp]: "own (know s) = seqno s"
  by (simp add: know_def)

lemma know_put:
  assumes "rt_lookup (rt_dst rt) (rtable s) \<noteq> None"
  shows "know (s\<lparr>rtable := rt_put rt (rtable s)\<rparr>) =
    (know s)\<lparr>seen := (seen (know s))(rt_dst rt \<mapsto> (rt_seqno rt, rt_highest_seqno_heard rt))\<rparr>"
  using assms by (auto simp: know_def rtl.lookup_put fun_eq_iff)

lemma know_put_same:
  assumes "rt_lookup d (rtable s) = Some r" and "rt_dst rt = d" and "rt_seqno rt = rt_seqno r"
    and "rt_highest_seqno_heard rt = rt_highest_seqno_heard r"
  shows "know (s\<lparr>rtable := rt_put rt (rtable s)\<rparr>) = know s"
  using assms know_put [of rt s] by (auto simp: know_seen fun_upd_idem)

text \<open>Claims a node may tell at any time: received, stored, or about itself.\<close>

definition tellable :: "claim set \<Rightarrow> eamrp \<Rightarrow> claim set \<Rightarrow> bool" where
  "tellable K s C \<longleftrightarrow> (\<forall>(d, m)\<in>C. (d, m) \<in> K \<or> (\<exists>rt. rt_lookup d (rtable s) = Some rt \<and> rt_seqno rt = m)
     \<or> (d, m) = (index s, seqno s))"

lemma know_tell:
  "finite C \<Longrightarrow> (\<forall>(d, m)\<in>C. (d, m) \<in> K \<or> (\<exists>h. seen k d = Some (m, h)) \<or> (d, m) = (me, own k)) \<Longrightarrow>
     know_run me K 0 k (k\<lparr>told := C \<union> told k\<rparr>)"
proof (induction C rule: finite_induct)
  case empty
  then show ?case by (simp add: run_refl)
next
  case (insert c C)
  obtain d m where c: "c = (d, m)" by (cases c)
  have "know_step me K 0 (k\<lparr>told := C \<union> told k\<rparr>) (k\<lparr>told := C \<union> told k\<rparr>\<lparr>told := insert (d, m) (told (k\<lparr>told := C \<union> told k\<rparr>))\<rparr>)"
    using insert.prems c by (intro know_step.tell) auto
  with insert have "know_run me K (0 + 0) k (k\<lparr>told := insert c C \<union> told k\<rparr>)"
    by (intro run_step [of me K 0]) (auto simp: c)
  then show ?case by simp
qed

lemma finite_claims [simp]: "finite (claims p)"
  by (cases "hdr p") (auto simp: claims_def)

lemma knows_send:
  assumes "tellable K s (claims p)" shows "knows K 0 s (emit (Scheduled p t) s)"
proof -
  have "\<forall>(d, m)\<in>claims p. (d, m) \<in> K \<or> (\<exists>h. seen (know s) d = Some (m, h)) \<or> (d, m) = (index s, own (know s))"
    using assms by (fastforce simp: tellable_def know_seen)
  then have "know_run (index s) K 0 (know s) ((know s)\<lparr>told := claims p \<union> told (know s)\<rparr>)"
    by (intro know_tell) simp_all
  then show ?thesis by (auto simp: knows_def)
qed

section \<open>Transmission\<close>

lemma set_head_expire_sel [simp]:
  "rt_dst (set_head_expire t rt) = rt_dst rt" "rt_seqno (set_head_expire t rt) = rt_seqno rt"
  "rt_highest_seqno_heard (set_head_expire t rt) = rt_highest_seqno_heard rt"
  by (simp_all add: set_head_expire_def split: list.split)

lemma know_put_seen:
  assumes "rt_lookup d (rtable s) = Some r" and "rt_dst rt = rt_dst r" and "rt_seqno rt = rt_seqno r"
    and "rt_highest_seqno_heard rt = rt_highest_seqno_heard r"
  shows "know (s\<lparr>rtable := rt_put rt (rtable s)\<rparr>) = know s"
  using know_put_same [OF assms(1) _ assms(3,4)] assms(2) rtl.lookup_key [OF assms(1)] by simp

lemma forward_route_know:
  assumes r: "rt_lookup d (rtable s) = Some rt" and f: "forward E (Some d) p delay s = Inr s'"
  shows "know s' = know s \<or> know s' = (know s)\<lparr>told := claims p \<union> told (know s)\<rparr>"
  using f know_put_seen [OF r, of "set_head_expire (now E + ACTIVE_ROUTE_TIMEOUT) rt"]
    know_put_seen [OF r, of "set_head_expire (now E + ACTIVE_ROUTE_TIMEOUT) rt\<lparr>rt_error := True\<rparr>"]
  by (auto simp: forward_def assertE_def Let_def r claims_def split: if_splits option.splits)

lemma forward_know:
  assumes f: "forward E r p delay s = Inr s'"
  shows "index s' = index s \<and> (know s' = know s \<or> know s' = (know s)\<lparr>told := claims p \<union> told (know s)\<rparr>)"
proof -
  have "index s' = index s" using forward_out [OF f] by blast
  moreover have "know s' = know s \<or> know s' = (know s)\<lparr>told := claims p \<union> told (know s)\<rparr>"
  proof (cases r)
    case None
    with f show ?thesis
      by (auto simp: forward_def assertE_def Let_def claims_def split: if_splits)
  next
    case (Some d)
    show ?thesis
    proof (cases "rt_lookup d (rtable s)")
      case None
      with f Some show ?thesis by (auto simp: forward_def split: if_splits)
    next
      fix rt assume "rt_lookup d (rtable s) = Some rt"
      with forward_route_know f Some show ?thesis by blast
    qed
  qed
  ultimately show ?thesis by blast
qed

lemma knows_forward:
  assumes f: "forward E r p delay s = Inr s'" and "tellable K s (claims p)"
  shows "knows K N s s'"
proof -
  have k: "knows K 0 s (emit (Scheduled p 0) s)" by (rule knows_send [OF assms(2)])
  have "knows K 0 s s'"
    using forward_know [OF f] knows_frame [of s' s K 0] k by (auto simp: knows_def)
  then show ?thesis by (rule knows_mono) simp_all
qed

lemma claims_data [simp]: "ch_ptype p \<noteq> PT_EAMRP \<Longrightarrow> claims p = {}"
  by (simp add: claims_def)

lemma forward_data_know:
  assumes "forward E r p delay s = Inr s'" and "ch_ptype p \<noteq> PT_EAMRP"
  shows "know s' = know s" "index s' = index s"
  using forward_know [OF assms(1)] assms(2) by auto

section \<open>The send buffer\<close>

lemma fold_drops_know:
  "know (fold (\<lambda>(r, why). emit (Dropped r why)) ds s) = know s
     \<and> index (fold (\<lambda>(r, why). emit (Dropped r why)) ds s) = index s"
  by (induction ds arbitrary: s) auto

lemma buffer_know: "buffer_packet E p s = Inr s' \<Longrightarrow> know s' = know s \<and> index s' = index s"
  by (auto simp: buffer_packet_def fold_drops_know dest!: bindE_InrD)

lemma drain_drop_know: "drain_drop E d why s = Inr s' \<Longrightarrow> know s' = know s \<and> index s' = index s"
  by (auto simp: drain_drop_eq Let_def know_def)

lemma drain_data_know:
  assumes buf: "buffer_ok (rqueue s)"
    and act: "\<And>p a t x. act p (a, t) = Inr x \<Longrightarrow> ch_ptype p \<noteq> PT_EAMRP \<Longrightarrow>
      know (snd x) = know t \<and> index (snd x) = index t \<and> rqueue (snd x) = rqueue t"
    and run: "drain_all E d act a s = Inr (a', s')"
  shows "know s' = know s \<and> index s' = index s"
proof -
  let ?I = "\<lambda>x. buffer_ok (rqueue (snd x)) \<and> know (snd x) = know s \<and> index (snd x) = index s"
  have "safe UNIV (\<lambda>x. ?I x \<and> rqueue (snd x) = rqueue t) (act p (a, t))"
    if "?I (a, t)" "ch_ptype p \<noteq> PT_EAMRP" for p a t
    using act [of p a t] that by (cases "act p (a, t)") auto
  then have "safe UNIV ?I (drain_all E d act a s)"
    using buf by (intro drain_all_ok) auto
  with run show ?thesis by simp
qed

lemma flush_know:
  assumes "flush_buffer E d s = Inr s'" and "buffer_ok (rqueue s)"
  shows "know s' = know s \<and> index s' = index s"
proof -
  let ?act = "\<lambda>p (u, t). case rt_lookup d (rtable t) of None \<Rightarrow> Inl Null_deref
    | Some rt1 \<Rightarrow> if rt_flags rt1 = RTF_UP
        then bindE (forward E (Some d) p NO_EAMRP_DELAY t) (\<lambda>t1. Inr (u, t1)) else Inr (u, t)"
  have act: "know (snd x) = know t \<and> index (snd x) = index t \<and> rqueue (snd x) = rqueue t"
    if "?act p (a, t) = Inr x" "ch_ptype p \<noteq> PT_EAMRP" for p t x and a :: unit
    using that
    by (auto dest!: bindE_InrD dest: forward_data_know forward_rqueue split: option.splits if_splits)
  show ?thesis
  proof (cases "\<exists>rt. rt_lookup d (rtable s) = Some rt \<and> rt_flags rt = RTF_UP")
    case True
    then obtain rt where rt: "rt_lookup d (rtable s) = Some rt" "rt_flags rt = RTF_UP" by blast
    let ?s = "s\<lparr>rtable := rt_put (reset_soft_state rt) (rtable s)\<rparr>"
    obtain u where "drain_all E d ?act () ?s = Inr (u, s')"
      using assms(1) rt by (auto simp: flush_buffer_def dest!: bindE_InrD)
    from drain_data_know [OF _ act this] assms(2)
    have "know s' = know ?s" "index s' = index s" by auto
    moreover have "know ?s = know s" by (rule know_put_seen [OF rt(1)]) (simp_all add: reset_soft_state_def)
    ultimately show ?thesis by simp
  qed (use assms(1) in \<open>auto simp: flush_buffer_def split: option.splits if_splits\<close>)
qed

section \<open>Messages of the node itself\<close>

lemma ring_ttl_seqno:
  "ring_ttl rt = (ttl, rt') \<Longrightarrow> rt_dst rt' = rt_dst rt \<and> rt_seqno rt' = rt_seqno rt
     \<and> rt_highest_seqno_heard rt' = rt_highest_seqno_heard rt"
  by (auto simp: ring_ttl_def Let_def split: if_splits prod.splits)

lemma knows_raise: "even (seqno s) \<Longrightarrow> knows K 1 s (s\<lparr>seqno := seqno s + 2\<rparr>)"
  using know_step.raise [of "index s" K "know s"] by (intro knows_step [of _ _ _ 1]) simp_all

lemma sendRequest_knows:
  assumes inv: "node_inv s" and f: "sendRequest E d s = Inr s'"
  shows "knows K 1 s s'"
proof -
  obtain rt where rt: "rt_lookup d (rtable s) = Some rt"
    using f by (auto simp: sendRequest_def split: option.splits)
  obtain ttl rt1 where r: "ring_ttl rt = (ttl, rt1)" by (cases "ring_ttl rt")
  note same [simp] = ring_ttl_seqno [OF r]
  let ?rt2 = "rt1\<lparr>rt_req_timeout := req_timeout E ttl rt1, rt_expire := 0\<rparr>"
  let ?s1 = "s\<lparr>rtable := rt_put ?rt2 (rtable s)\<rparr>"
  let ?s2 = "?s1\<lparr>bid := bid s + 1\<rparr>"
  let ?s3 = "?s2\<lparr>seqno := seqno ?s2 + 2\<rparr>"
  have k1: "know ?s1 = know s" using r by (intro know_put_seen [OF rt]) simp_all
  have dst: "rt_dst rt = d" by (rule rtl.lookup_key [OF rt])
  let ?r0 = "rt\<lparr>rt_req_timeout := now E + MAX_RREQ_TIMEOUT, rt_req_cnt := 0\<rparr>"
  have "know (s\<lparr>rtable := rt_put ?r0 (rtable s)\<rparr>) = know s"
    by (rule know_put_seen [OF rt]) simp_all
  with f rt r consider (same) "know s' = know s \<and> index s' = index s"
    | (sent) "s' = emit (Scheduled (rreq_packet E d ?rt2 ttl s) 0) ?s3"
    by (auto simp: sendRequest_def Let_def assertE_def dest!: bindE_InrD dest: drain_drop_know split: if_splits)
  then show ?thesis
  proof cases
    case same
    then show ?thesis by (blast intro: knows_frame)
  next
    case sent
    have "knows K 0 s ?s1" by (rule knows_frame) (simp_all add: k1)
    moreover have "knows K 0 ?s1 ?s2" by (rule knows_frame) simp_all
    moreover have "knows K 1 ?s2 ?s3" using node_invD(1) [OF inv] by (intro knows_raise) simp
    ultimately have a: "knows K 1 s ?s3" by (blast intro: knows_trans0)
    have "rt_lookup d (rtable ?s3) = Some ?rt2" using rt r dst by (simp add: rtl.lookup_put)
    then have "tellable K ?s3 (claims (rreq_packet E d ?rt2 ttl s))"
      by (auto simp: tellable_def claims_def rreq_packet_def Let_def)
    from knows_trans0r [OF a knows_send [OF this]] sent show ?thesis by simp
  qed
qed

lemma sendReply_knows:
  assumes "tellable K s {(rpdst, sq)}"
  shows "knows K N s (sendReply E ipdst hc rpdst sq lt ts nh b fh s)"
proof -
  have "knows K 0 s (sendReply E ipdst hc rpdst sq lt ts nh b fh s)"
    unfolding sendReply_def Let_def using assms by (intro knows_send) (simp add: claims_def)
  then show ?thesis by (rule knows_mono) simp_all
qed

lemma sendError_knows:
  assumes "tellable K s (hdr_claims (Rerr re))"
  shows "knows K N s (sendError E re jitter s)"
proof -
  have send: "knows K 0 s (emit (Scheduled p t) (s\<lparr>draws := n\<rparr>))" if "claims p = hdr_claims (Rerr re)" for p t n
  proof -
    have "knows K 0 s (s\<lparr>draws := n\<rparr>)" by (rule knows_frame) simp_all
    moreover have "tellable K (s\<lparr>draws := n\<rparr>) (claims p)" using assms that by (simp add: tellable_def)
    ultimately show ?thesis by (rule knows_trans0 [OF _ knows_send])
  qed
  have "knows K 0 s (sendError E re jitter s)"
    using send [of _ _ "draws s"] send
    by (cases jitter) (simp_all add: sendError_def Let_def claims_def)
  then show ?thesis by (rule knows_mono) simp_all
qed

lemma sendHello_knows: "knows K N s (sendHello E s)"
proof -
  have "knows K 0 s (sendHello E s)"
    unfolding sendHello_def Let_def by (intro knows_send) (simp add: claims_def tellable_def)
  then show ?thesis by (rule knows_mono) simp_all
qed

lemma ensure_knows: "ensure_rt E d s = Inr s' \<Longrightarrow> knows K N s s'"
proof (cases "rt_lookup d (rtable s)")
  case None
  assume e: "ensure_rt E d s = Inr s'"
  then have s': "s' = s\<lparr>rtable := (new_rt_entry (uninit16 E))\<lparr>rt_dst := d\<rparr> # rtable s\<rparr>"
    using None by (simp add: ensure_rt_def rt_add_def assertE_def)
  have "know s' = (know s)\<lparr>seen := (seen (know s))(d \<mapsto> (0, 0))\<rparr>"
    by (auto simp: s' know_def new_rt_entry_def fun_eq_iff)
  then have "know_step (index s) K 0 (know s) (know s')"
    using know_step.meet [of "know s" d] None by (simp add: know_seen)
  moreover have "index s' = index s" by (simp add: s')
  ultimately show ?thesis by (blast intro: knows_step)
qed (auto simp: ensure_rt_def intro: knows_frame)

section \<open>Routes that break\<close>

text \<open>What the rules allow for one entry that is given up.\<close>

definition gives_up :: "eamrp_rt_entry \<Rightarrow> eamrp_rt_entry \<Rightarrow> bool" where
  "gives_up rt rt' \<longleftrightarrow> rt_dst rt' = rt_dst rt \<and> rt_highest_seqno_heard rt' = rt_highest_seqno_heard rt
     \<and> (rt_seqno rt' = rt_seqno rt
        \<or> even (rt_seqno rt) \<and> rt_seqno rt' = max (rt_seqno rt + 1) (rt_highest_seqno_heard rt))"

lemma rt_down_sel [simp]:
  "rt_dst (rt_down E rt) = rt_dst rt" "rt_seqno (rt_down E rt) = rt_seqno rt"
  "rt_highest_seqno_heard (rt_down E rt) = rt_highest_seqno_heard rt" "rt_error (rt_down E rt) = rt_error rt"
  by (simp_all add: rt_down_def path_delete_all_def)

lemma re_push_claims:
  assumes "re_push d sq re = Inr re'" and "length (unreachable_dst re) = 100" and "length (unreachable_dst_seqno re) = 100"
  shows "hdr_claims (Rerr re') \<subseteq> insert (d, sq) (hdr_claims (Rerr re))"
    "length (unreachable_dst re') = 100" "length (unreachable_dst_seqno re') = 100"
proof -
  have l: "unat (DestCount re) < 100"
    and re': "re' = re\<lparr>unreachable_dst := (unreachable_dst re)[unat (DestCount re) := d],
                  unreachable_dst_seqno := (unreachable_dst_seqno re)[unat (DestCount re) := sq],
                  DestCount := DestCount re + 1\<rparr>"
    using assms(1) by (auto simp: re_push_def Let_def EAMRP_MAX_ERRORS_def split: if_splits)
  have "unat (DestCount re') = Suc (unat (DestCount re))"
    using l by (simp add: re' unat_u8_succ EAMRP_MAX_ERRORS_def)
  with assms(2,3) l show "hdr_claims (Rerr re') \<subseteq> insert (d, sq) (hdr_claims (Rerr re))"
    by (auto simp: re' nth_list_update less_Suc_eq)
  show "length (unreachable_dst re') = 100" "length (unreachable_dst_seqno re') = 100"
    using assms(2,3) by (simp_all add: re')
qed

lemma link_failure_entry_gives_up:
  assumes "link_failure_entry E nb re rt = Inr (re', rt')"
    and "length (unreachable_dst re) = 100" and "length (unreachable_dst_seqno re) = 100"
  shows "gives_up rt rt' \<and> hdr_claims (Rerr re') \<subseteq> insert (rt_dst rt', rt_seqno rt') (hdr_claims (Rerr re))
    \<and> length (unreachable_dst re') = 100 \<and> length (unreachable_dst_seqno re') = 100"
proof -
  consider "re' = re" "gives_up rt rt'"
    | "gives_up rt rt'" "re_push (rt_dst rt') (rt_seqno rt') re = Inr re'"
    using assms(1)
    by (auto simp: link_failure_entry_def gives_up_def Let_def assertE_def dest!: bindE_InrD split: if_splits)
  then show ?thesis
  proof cases
    case 1
    with assms(2,3) show ?thesis by blast
  next
    case 2
    with re_push_claims [OF 2(2) assms(2,3)] show ?thesis by blast
  qed
qed

lemma link_failure_walk_gives_up:
  "link_failure_walk E nb re rts = Inr (re', rts') \<Longrightarrow>
     length (unreachable_dst re) = 100 \<Longrightarrow> length (unreachable_dst_seqno re) = 100 \<Longrightarrow>
     list_all2 gives_up rts rts' \<and> hdr_claims (Rerr re') \<subseteq> hdr_claims (Rerr re) \<union> (\<lambda>rt. (rt_dst rt, rt_seqno rt)) ` set rts'"
proof (induction rts arbitrary: re re' rts')
  case Nil
  then show ?case by simp
next
  case (Cons rt rts)
  then obtain re1 rt1 rts1 where e: "link_failure_entry E nb re rt = Inr (re1, rt1)"
    and w: "link_failure_walk E nb re1 rts = Inr (re', rts1)" and r: "rts' = rt1 # rts1"
    by (auto dest!: bindE_InrD)
  note g = link_failure_entry_gives_up [OF e Cons.prems(2,3)]
  with Cons.IH [OF w] r show ?case by (auto simp del: hdr_claims.simps)
qed

lemma rt_put_append:
  "rt_dst rt' = rt_dst rt \<Longrightarrow> rt_dst rt \<notin> rt_dst ` set pre \<Longrightarrow> rt_put rt' (pre @ rt # rts) = pre @ rt' # rts"
proof (induction pre)
  case (Cons a pre)
  then have "rt_dst rt \<noteq> rt_dst a" "rt_dst rt \<notin> rt_dst ` set pre" by simp_all
  with not_sym [OF this(1)] Cons show ?case by simp
qed simp

lemma lookup_append:
  "rt_dst rt \<notin> rt_dst ` set pre \<Longrightarrow> rt_lookup (rt_dst rt) (pre @ rt # rts) = Some rt"
proof (induction pre)
  case (Cons a pre)
  then have "rt_dst rt \<noteq> rt_dst a" "rt_dst rt \<notin> rt_dst ` set pre" by simp_all
  with not_sym [OF this(1)] Cons show ?case by simp
qed simp

lemma gives_up_run:
  assumes "gives_up rt rt'" and "rt_dst rt \<notin> rt_dst ` set pre"
  shows "know_run me K 0 (know (s\<lparr>rtable := pre @ rt # rts\<rparr>)) (know (s\<lparr>rtable := pre @ rt' # rts\<rparr>))"
proof -
  let ?s = "s\<lparr>rtable := pre @ rt # rts\<rparr>"
  have l: "rt_lookup (rt_dst rt) (rtable ?s) = Some rt" by (simp add: lookup_append assms(2))
  have put: "s\<lparr>rtable := pre @ rt' # rts\<rparr> = ?s\<lparr>rtable := rt_put rt' (rtable ?s)\<rparr>"
    using assms by (simp add: rt_put_append gives_up_def)
  have dst: "rt_dst rt' = rt_dst rt" "rt_highest_seqno_heard rt' = rt_highest_seqno_heard rt"
    using assms(1) by (simp_all add: gives_up_def)
  consider "rt_seqno rt' = rt_seqno rt"
    | "even (rt_seqno rt)" "rt_seqno rt' = max (rt_seqno rt + 1) (rt_highest_seqno_heard rt)"
    using assms(1) by (auto simp: gives_up_def)
  then show ?thesis
  proof cases
    case 1
    then show ?thesis unfolding put using know_put_seen [OF l dst(1) _ dst(2)] by (simp add: run_refl)
  next
    case 2
    have "know (?s\<lparr>rtable := rt_put rt' (rtable ?s)\<rparr>) = (know ?s)\<lparr>seen := (seen (know ?s))
        (rt_dst rt \<mapsto> (max (rt_seqno rt + 1) (rt_highest_seqno_heard rt), rt_highest_seqno_heard rt))\<rparr>"
      using know_put [of rt' ?s] l dst 2 by simp
    then show ?thesis
      unfolding put using know_step_run [OF know_step.give_up [of "know ?s" "rt_dst rt" "rt_seqno rt"]] l 2(1)
      by (simp add: know_seen)
  qed
qed

lemma table_gives_up_run:
  "list_all2 gives_up rts rts' \<Longrightarrow> distinct (map rt_dst (pre @ rts)) \<Longrightarrow>
     know_run me K 0 (know (s\<lparr>rtable := pre @ rts\<rparr>)) (know (s\<lparr>rtable := pre @ rts'\<rparr>))"
proof (induction arbitrary: pre rule: list_all2_induct)
  case Nil
  then show ?case by (simp add: run_refl)
next
  case (Cons rt rts rt' rts')
  have g: "rt_dst rt' = rt_dst rt" using Cons.hyps(1) by (simp add: gives_up_def)
  have "know_run me K 0 (know (s\<lparr>rtable := pre @ rt # rts\<rparr>)) (know (s\<lparr>rtable := pre @ rt' # rts\<rparr>))"
    using Cons.prems by (intro gives_up_run Cons.hyps(1)) auto
  moreover have "know_run me K 0 (know (s\<lparr>rtable := (pre @ [rt']) @ rts\<rparr>)) (know (s\<lparr>rtable := (pre @ [rt']) @ rts'\<rparr>))"
    using Cons.prems g by (intro Cons.IH) auto
  ultimately show ?case using know_run_trans by fastforce
qed

lemma handle_link_failure_knows:
  assumes inv: "node_inv s" and f: "handle_link_failure E nb s = Inr s'"
  shows "knows K N s s'"
proof -
  obtain re t where w: "link_failure_walk E nb re_empty (rtable s) = Inr (re, t)"
    and s': "s' = (if DestCount re > 0 then sendError E re False (s\<lparr>rtable := t\<rparr>)
        else emit (Freed (packet_alloc\<lparr>hdr := Rerr re\<rparr>)) (s\<lparr>rtable := t\<rparr>))"
    using f by (auto simp: handle_link_failure_def Let_def dest!: bindE_InrD)
  have d: "distinct (map rt_dst (rtable s))" using node_invD(3) [OF inv] by (simp add: table_ok_def)
  have g: "list_all2 gives_up (rtable s) t" "hdr_claims (Rerr re) \<subseteq> (\<lambda>rt. (rt_dst rt, rt_seqno rt)) ` set t"
    using link_failure_walk_gives_up [OF w] by (auto simp: re_empty_def EAMRP_MAX_ERRORS_def)
  have "know_run (index s) K 0 (know s) (know (s\<lparr>rtable := t\<rparr>))"
    using table_gives_up_run [OF g(1), of "[]" "index s" K s] d by simp
  then have k: "knows K N s (s\<lparr>rtable := t\<rparr>)" by (auto simp: knows_def)
  have "map rt_dst t = map rt_dst (rtable s)"
    using g(1) by (auto simp: list_all2_conv_all_nth gives_up_def intro: nth_equalityI)
  then have "rt_lookup (rt_dst rt) t = Some rt" if "rt \<in> set t" for rt
    using rtl.lookup_distinct [of t rt] d that by simp
  then have "tellable K (s\<lparr>rtable := t\<rparr>) (hdr_claims (Rerr re))"
    using g(2) unfolding tellable_def by fastforce
  then have "knows K 0 (s\<lparr>rtable := t\<rparr>) (sendError E re False (s\<lparr>rtable := t\<rparr>))" by (rule sendError_knows)
  from knows_trans0r [OF k this] k knows_trans0r [OF k knows_frame] show ?thesis by (simp add: s')
qed

section \<open>Resolving and salvaging\<close>

lemma tellable_empty [simp]: "tellable K s {}"
  by (simp add: tellable_def)

lemma knows_forward_data: "forward E r p delay s = Inr s' \<Longrightarrow> ch_ptype p \<noteq> PT_EAMRP \<Longrightarrow> knows K N s s'"
  by (erule knows_forward) simp

lemma re_push_one:
  "re_push d sq re_empty = Inr re \<Longrightarrow> hdr_claims (Rerr re) \<subseteq> {(d, sq)}"
  using re_push_claims(1) [of d sq re_empty re] by (auto simp: re_empty_def EAMRP_MAX_ERRORS_def)

lemma tellable_mono: "tellable K s C \<Longrightarrow> D \<subseteq> C \<Longrightarrow> tellable K s D"
  by (fastforce simp: tellable_def)

lemma tellable_stored: "rt_lookup d (rtable s) = Some rt \<Longrightarrow> tellable K s {(d, rt_seqno rt)}"
  by (simp add: tellable_def)

lemma resolve_with_knows:
  assumes inv: "node_inv s" and rt: "rt_lookup (ih_daddr p) (rtable s) = Some rt"
    and p: "ih_daddr p \<noteq> IP_BROADCAST" "ch_ptype p \<noteq> PT_EAMRP" and f: "resolve_with E p rt s = Inr s'"
  shows "knows K 1 s s'"
proof -
  have dst: "rt_dst rt = ih_daddr p" by (rule rtl.lookup_key [OF rt])
  have buf: "node_inv s1" if "buffer_packet E p s = Inr s1" for s1
    using safe_InrD [OF buffer_packet_ok [OF inv p] that] by simp
  have k: "knows K 1 s s1" if "buffer_packet E p s = Inr s1" for s1
    using buffer_know [OF that] by (simp add: knows_frame)
  have k0: "knows K 0 s s1" if "buffer_packet E p s = Inr s1" for s1
    using buffer_know [OF that] by (simp add: knows_frame)
  consider (fwd) "forward E (Some (rt_dst rt)) p NO_EAMRP_DELAY s = Inr s'"
    | (req) s1 where "buffer_packet E p s = Inr s1" "sendRequest E (rt_dst rt) s1 = Inr s'"
    | (buf) "buffer_packet E p s = Inr s'"
    | (err) re where "re_push (rt_dst rt) (rt_seqno rt) re_empty = Inr re"
        "s' = emit (Dropped p DROP_RTR_NO_ROUTE) (sendError E re False s)"
    using f by (auto simp: resolve_with_def assertE_def dest!: bindE_InrD split: if_splits)
  then show ?thesis
  proof cases
    case fwd
    with p show ?thesis by (blast intro: knows_forward_data)
  next
    case req
    from knows_trans0 [OF k0 [OF req(1)] sendRequest_knows [OF buf [OF req(1)] req(2)]] show ?thesis .
  next
    case buf
    then show ?thesis by (rule k)
  next
    case err
    have "tellable K s (hdr_claims (Rerr re))"
      by (rule tellable_mono [OF tellable_stored [OF rt] re_push_one [OF err(1) [unfolded dst]]])
    then have "knows K 1 s (sendError E re False s)" by (rule sendError_knows)
    then show ?thesis by (rule knows_trans0r) (simp add: err(2) knows_frame)
  qed
qed

lemma rt_resolve_knows:
  assumes inv: "node_inv s" and E: "env_ok E" and p: "ih_daddr p \<noteq> IP_BROADCAST" "ch_ptype p \<noteq> PT_EAMRP"
    and f: "rt_resolve E p s = Inr s'"
  shows "knows K 1 s s'"
proof -
  let ?p = "p\<lparr>ch_xmit_failure := Some Eamrp_rt_failed_callback\<rparr>"
  obtain s1 rt where e: "ensure_rt E (ih_daddr p) s = Inr s1" and rt: "rt_lookup (ih_daddr p) (rtable s1) = Some rt"
    and r: "resolve_with E ?p rt s1 = Inr s'"
    using f by (auto simp: rt_resolve_def Let_def dest!: bindE_InrD split: option.splits)
  have inv1: "node_inv s1" using safe_InrD [OF ensure_rt_ok [OF inv E p(1)] e] by simp
  have "knows K 1 s1 s'" by (rule resolve_with_knows [OF inv1 _ _ _ r]) (use rt p in simp_all)
  then show ?thesis by (rule knows_trans0 [OF ensure_knows [OF e]])
qed

lemma data_not_eamrp: "DATA_PACKET t \<Longrightarrow> t \<noteq> PT_EAMRP"
  by (auto simp: DATA_PACKET_def)

lemma salvage_know: "salvage why E p s = Inr s' \<Longrightarrow> know s' = know s \<and> index s' = index s"
  using forward_data_know [of E "Some (ih_daddr p)" "p\<lparr>ch_eamrp_salvage_count := ch_eamrp_salvage_count p + 1\<rparr>"
      NO_EAMRP_DELAY s s'] data_not_eamrp [of "ch_ptype p"]
  by (auto simp: salvage_def split: if_splits option.splits)

lemma salvage_loop_know: "salvage_loop n why E nb s = Inr s' \<Longrightarrow> know s' = know s \<and> index s' = index s"
proof (induction n arbitrary: s)
  case 0
  then show ?case by (subst (asm) salvage_loop.simps) (auto split: option.splits prod.splits)
next
  case (Suc n)
  then show ?case
    by (subst (asm) (2) salvage_loop.simps)
      (fastforce dest!: bindE_InrD dest: salvage_know split: option.splits prod.splits)
qed

lemma nb_delete_knows:
  assumes inv: "node_inv s" and f: "nb_delete E a s = Inr s'"
  shows "knows K 1 s s'"
proof -
  let ?s1 = "s\<lparr>seqno := seqno s + 2\<rparr>"
  let ?s2 = "?s1\<lparr>nbhead := remove_first (\<lambda>nb. nb_addr nb = a) (nbhead s)\<rparr>"
  obtain s3 n where h: "handle_link_failure E a ?s2 = Inr s3" and l: "salvage_loop n DROP_RTR_HELLO E a s3 = Inr s'"
    using f by (auto simp: nb_delete_def Let_def assertE_def dest!: bindE_InrD split: if_splits)
  have inv2: "node_inv ?s2"
    using inv by (intro node_inv_nbhead node_inv_seqno) (simp_all add: node_invD distinct_map_remove_first)
  have "knows K 1 s ?s1" by (rule knows_raise [OF node_invD(1) [OF inv]])
  moreover have "knows K 0 ?s1 ?s2" by (rule knows_frame) simp_all
  moreover have "knows K 0 ?s2 s3" by (rule handle_link_failure_knows [OF inv2 h])
  moreover have "knows K 0 s3 s'" using salvage_loop_know [OF l] by (simp add: knows_frame)
  ultimately show ?thesis by (blast intro: knows_trans0r)
qed

section \<open>Timers\<close>

lemma foldE_knows:
  assumes step: "\<And>x y z. x \<in> set xs \<Longrightarrow> I y \<Longrightarrow> f x y = Inr z \<Longrightarrow> I z \<and> knows K 1 (g y) (g z)"
  shows "I y \<Longrightarrow> foldE f xs y = Inr z \<Longrightarrow> knows K (length xs) (g y) (g z)"
  using step
proof (induction xs arbitrary: y)
  case Nil
  then show ?case by (simp add: knows_frame)
next
  case (Cons x xs)
  then obtain y1 where y1: "f x y = Inr y1" "foldE f xs y1 = Inr z" by (auto dest!: bindE_InrD)
  have "I y1" "knows K 1 (g y) (g y1)" using Cons.prems(3) [OF _ Cons.prems(1) y1(1)] by simp_all
  moreover have "knows K (length xs) (g y1) (g z)"
    using Cons.prems(3) by (intro Cons.IH [OF \<open>I y1\<close> y1(2)]) auto
  ultimately show ?case using knows_trans by fastforce
qed

lemma nb_purge_knows:
  assumes inv: "node_inv s" and E: "env_ok E" and f: "nb_purge E s = Inr s'"
  shows "knows K (length (nbhead s)) s s'"
proof -
  let ?f = "\<lambda>nb t. if nb_expire nb \<le> now E then nb_delete E (nb_addr nb) t else Inr t"
  have step: "node_inv u \<and> knows K 1 t u" if "node_inv t" "?f nb t = Inr u" for nb t u
  proof (cases "nb_expire nb \<le> now E")
    case True
    then have d: "nb_delete E (nb_addr nb) t = Inr u" using that(2) by simp
    have "node_inv u" using safe_InrD [OF nb_delete_ok [OF that(1) E] d] by simp
    with nb_delete_knows [OF that(1) d] show ?thesis by blast
  qed (use that in \<open>auto intro: knows_frame\<close>)
  have "foldE ?f (nbhead s) s = Inr s'" using f by (simp add: nb_purge_def)
  then have "knows K (length (nbhead s)) (id s) (id s')"
    by (rule foldE_knows [of _ node_inv _ _ id, rotated 2]) (use inv step in \<open>simp_all only: id_apply\<close>)
  then show ?thesis by simp
qed

lemma odd_even_choice: "odd (n :: u32) \<Longrightarrow> (if even n then n + 1 else n) = n"
  by simp

lemma purge_down_knows:
  assumes inv: "node_inv s" and rt: "rt_lookup d (rtable s) = Some rt" and up: "rt_flags rt = RTF_UP"
    and dr: "drain_drop E d why (s\<lparr>rtable := rt_put (path_purge (now E) rt) (rtable s)\<rparr>) = Inr s2"
    and u: "upd_rt d (\<lambda>r. let n = max (rt_seqno r + 1) (rt_highest_seqno_heard r)
        in rt_down E (r\<lparr>rt_seqno := if even n then n + 1 else n\<rparr>)) s2 = Inr s'"
  shows "knows K N s s'"
proof -
  let ?rt1 = "path_purge (now E) rt"
  let ?s1 = "s\<lparr>rtable := rt_put ?rt1 (rtable s)\<rparr>"
  let ?n = "max (rt_seqno rt + 1) (rt_highest_seqno_heard rt)"
  have dst: "rt_dst rt = d" by (rule rtl.lookup_key [OF rt])
  have tbl: "rtable s2 = rtable ?s1" using dr by (auto simp: drain_drop_eq Let_def)
  have l: "rt_lookup d (rtable s2) = Some ?rt1" using rt dst by (simp add: tbl rtl.lookup_put)
  note ok = table_entry(1) [OF node_invD(3) [OF inv] rt]
  have ev: "even (rt_seqno rt)" by (rule entry_okD(7) [OF ok up])
  have "odd ?n" using ev entry_okD(10) [OF ok] by (intro max_odd_or_zero) (simp_all add: odd_or_zero_def)
  then have s': "s' = s2\<lparr>rtable := rt_put (rt_down E (?rt1\<lparr>rt_seqno := ?n\<rparr>)) (rtable s2)\<rparr>"
    using u l by (simp add: upd_rt_def Let_def odd_even_choice)
  have "know ?s1 = know s" by (rule know_put_seen [OF rt]) simp_all
  then have k2: "know s2 = know s" "index s2 = index s" using drain_drop_know [OF dr] by simp_all
  have "know s' = (know s2)\<lparr>seen := (seen (know s2))(d \<mapsto> (?n, rt_highest_seqno_heard rt))\<rparr>"
    unfolding s' using l dst by (subst know_put) simp_all
  then have "know_step (index s2) K 0 (know s2) (know s')"
    using know_step.give_up [of "know s2" d "rt_seqno rt" "rt_highest_seqno_heard rt"] l ev by (simp add: know_seen)
  then have "know_step (index s) K 0 (know s) (know s')" by (simp add: k2)
  moreover have "index s' = index s" using k2 by (simp add: s')
  ultimately show ?thesis by (blast intro: knows_step)
qed

lemma rt_purge_step_knows:
  assumes inv: "node_inv s" and f: "rt_purge_step E d (delay, s) = Inr (delay', s')"
  shows "knows K 1 s s'"
proof -
  obtain rt where rt: "rt_lookup d (rtable s) = Some rt"
    using f by (auto simp: rt_purge_step_def split: option.splits)
  let ?s1 = "s\<lparr>rtable := rt_put (path_purge (now E) rt) (rtable s)\<rparr>"
  let ?act = "\<lambda>p (dl, t). bindE (forward E (Some d) p dl t) (\<lambda>t1. Inr (dl + ARP_DELAY, t1))"
  have k1: "knows K 1 s ?s1" by (rule knows_frame) (simp_all add: know_put_seen [OF rt])
  consider (down) s2 where "rt_flags rt = RTF_UP" "drain_drop E d DROP_RTR_RTEXPIRE ?s1 = Inr s2"
      "upd_rt d (\<lambda>r. let n = max (rt_seqno r + 1) (rt_highest_seqno_heard r)
        in rt_down E (r\<lparr>rt_seqno := if even n then n + 1 else n\<rparr>)) s2 = Inr s'"
    | (purged) "s' = ?s1"
    | (fwd) "drain_all E d ?act delay s = Inr (delay', s')"
    | (req) "sendRequest E d s = Inr s'"
    | (idle) "s' = s"
    using f rt by (auto simp: rt_purge_step_def Let_def assertE_def dest!: bindE_InrD split: if_splits)
  then show ?thesis
  proof cases
    case down
    then show ?thesis by (rule purge_down_knows [OF inv rt])
  next
    case purged
    with k1 show ?thesis by simp
  next
    case fwd
    have act: "know (snd x) = know t \<and> index (snd x) = index t \<and> rqueue (snd x) = rqueue t"
      if "?act p (a, t) = Inr x" "ch_ptype p \<noteq> PT_EAMRP" for p a t x
      using that by (auto dest!: bindE_InrD dest: forward_data_know forward_rqueue)
    from drain_data_know [OF node_invD(4) [OF inv] act fwd] show ?thesis by (simp add: knows_frame)
  next
    case req
    then show ?thesis by (rule sendRequest_knows [OF inv])
  next
    case idle
    then show ?thesis by (simp add: knows_frame)
  qed
qed

lemma rt_purge_knows:
  assumes inv: "node_inv s" and f: "rt_purge E s = Inr s'"
  shows "knows K (length (rtable s)) s s'"
proof -
  obtain dl where fold: "foldE (rt_purge_step E) (map rt_dst (rtable s)) (0, s) = Inr (dl, s')"
    using f by (auto simp: rt_purge_def dest!: bindE_InrD)
  have step: "node_inv (snd z) \<and> knows K 1 (snd y) (snd z)"
    if "node_inv (snd y)" "rt_purge_step E d y = Inr z" for d y z
  proof -
    obtain dl1 t1 where y: "y = (dl1, t1)" by (cases y)
    obtain dl2 t2 where z: "z = (dl2, t2)" by (cases z)
    have st: "rt_purge_step E d (dl1, t1) = Inr (dl2, t2)" and t1: "node_inv t1" using that y z by simp_all
    obtain rt where "rt_lookup d (rtable t1) = Some rt"
      using st by (auto simp: rt_purge_step_def split: option.splits)
    from safe_InrD [OF rt_purge_step_ok [OF t1 this] st] have "node_inv t2" by simp
    with rt_purge_step_knows [OF t1 st] show ?thesis by (simp add: y z)
  qed
  have "knows K (length (map rt_dst (rtable s))) (snd (0 :: time, s)) (snd (dl, s'))"
    using fold by (rule foldE_knows [of _ "\<lambda>x. node_inv (snd x)" _ _ snd, rotated 2])
      (use inv step in \<open>simp_all only: snd_conv\<close>)
  then show ?thesis by simp
qed

lemma knows_emit_timer: "knows K N s (emit (Timer_set tm t) s)"
  by (rule knows_frame) simp_all

lemma hello_timer_knows: "hello_timer E s = Inr s' \<Longrightarrow> knows K N s s'"
proof -
  assume f: "hello_timer E s = Inr s'"
  let ?s1 = "if rt_has_active_route (rtable s) then sendHello E s else s"
  obtain t where s': "s' = emit (Timer_set Htimer t) (?s1\<lparr>draws := Suc (draws ?s1)\<rparr>)"
    using f by (auto simp: hello_timer_def Let_def dest!: bindE_InrD)
  have "knows K N s ?s1" by (auto intro: sendHello_knows knows_frame)
  moreover have "knows K 0 ?s1 s'" by (rule knows_frame) (simp_all add: s')
  ultimately show ?thesis by (rule knows_trans0r)
qed

end
