(* ===== verification/KnowRecv.thy ===== *)
theory KnowRecv
  imports KnowSim
begin

text \<open>
  The simulation, second part: the handlers of requests, replies, errors and hellos, the
  dispatch, and so every step of a node (\<open>node_step_knows\<close>).
\<close>

section \<open>Requests\<close>

lemma fresh_path_sel [simp]:
  "rt_dst (fresh_path E sq nh h lt lh rt) = rt_dst rt" "rt_seqno (fresh_path E sq nh h lt lh rt) = sq"
  "rt_highest_seqno_heard (fresh_path E sq nh h lt lh rt) = rt_highest_seqno_heard rt"
  "rt_dst (alternate_path E nh h lt lh rt) = rt_dst rt" "rt_seqno (alternate_path E nh h lt lh rt) = rt_seqno rt"
  "rt_highest_seqno_heard (alternate_path E nh h lt lh rt) = rt_highest_seqno_heard rt"
  "rt_dst (extend_path E lt path rt) = rt_dst rt" "rt_seqno (extend_path E lt path rt) = rt_seqno rt"
  "rt_highest_seqno_heard (extend_path E lt path rt) = rt_highest_seqno_heard rt"
  "rt_dst (advertise E rt) = rt_dst rt" "rt_seqno (advertise E rt) = rt_seqno rt"
  "rt_highest_seqno_heard (advertise E rt) = rt_highest_seqno_heard rt"
  by (simp_all add: fresh_path_def alternate_path_def extend_path_def advertise_def Let_def path_insert_def
      path_delete_all_def path_put_def)

text \<open>An entry either keeps its numbers or adopts a newer one it was told.\<close>

definition adopts :: "u32 \<Rightarrow> eamrp_rt_entry \<Rightarrow> eamrp_rt_entry \<Rightarrow> bool" where
  "adopts sq rt rt' \<longleftrightarrow> rt_dst rt' = rt_dst rt \<and> rt_highest_seqno_heard rt' = rt_highest_seqno_heard rt
     \<and> (rt_seqno rt' = rt_seqno rt \<or> rt_seqno rt < sq \<and> rt_seqno rt' = sq)"

lemma adopts_knows:
  assumes rt: "rt_lookup d (rtable s) = Some rt" and a: "adopts sq rt rt'" and K: "(d, sq) \<in> K" and d: "d \<noteq> index s"
  shows "knows K N s (s\<lparr>rtable := rt_put rt' (rtable s)\<rparr>)"
proof (cases "rt_seqno rt' = rt_seqno rt")
  case True
  with a show ?thesis by (intro knows_frame) (simp_all add: know_put_seen [OF rt] adopts_def)
next
  case False
  have dst: "rt_dst rt' = d" using a rtl.lookup_key [OF rt] by (simp add: adopts_def)
  have sq: "rt_seqno rt < sq" "rt_seqno rt' = sq" "rt_highest_seqno_heard rt' = rt_highest_seqno_heard rt"
    using a False by (auto simp: adopts_def)
  have "know (s\<lparr>rtable := rt_put rt' (rtable s)\<rparr>) = (know s)\<lparr>seen := (seen (know s))(d \<mapsto> (sq, rt_highest_seqno_heard rt))\<rparr>"
    using know_put [of rt' s] rt dst sq by simp
  then have "know_step (index s) K 0 (know s) (know (s\<lparr>rtable := rt_put rt' (rtable s)\<rparr>))"
    using know_step.adopt [of "know s" d "rt_seqno rt" "rt_highest_seqno_heard rt" sq K "index s"] rt sq K d
    by (simp add: know_seen)
  moreover have "index (s\<lparr>rtable := rt_put rt' (rtable s)\<rparr>) = index s" by simp
  ultimately show ?thesis by (blast intro: knows_step)
qed

lemma rreq_reverse_adopts:
  "rreq_reverse E m df me fr rq rt = Inr (rt', r) \<Longrightarrow> adopts (rq_src_seqno rq) rt rt'"
  by (auto simp: rreq_reverse_def adopts_def Let_def assertE_def split: if_splits option.splits)

lemma knows_freed: "knows K N s t \<Longrightarrow> knows K N s (emit (Freed p) t)"
  by (rule knows_trans0r [OF _ knows_frame]) simp_all

lemma rreq_at_destination_knows:
  assumes "(index s, rq_dst_seqno rq) \<in> K"
  shows "knows K 1 s (rreq_at_destination E p rq s)"
proof -
  let ?s1 = "s\<lparr>seqno := reply_seqno (seqno s) (rq_dst_seqno rq)\<rparr>"
  have "know_step (index s) K 1 (know s) (know ?s1)" using know_step.raise_to [OF assms, of "know s"] by simp
  then have "knows K 1 s ?s1" by (intro knows_step [of _ _ _ 1]) simp_all
  moreover have "tellable K ?s1 {(index ?s1, seqno ?s1)}" by (simp add: tellable_def)
  ultimately show ?thesis
    unfolding rreq_at_destination_def Let_def by (intro knows_freed) (blast intro: knows_trans0r sendReply_knows)
qed

lemma rreq_fresh_route_knows:
  assumes rt: "rt_lookup (rq_dst rq) (rtable s) = Some rt" and f: "rreq_fresh_route E p rq hr rt s = Inr s'"
  shows "knows K N s s'"
proof -
  let ?rt = "(advertise E rt)\<lparr>rt_error := True\<rparr>"
  consider "s' = emit (Freed p) s"
    | b hc lt lh where "s' = emit (Freed p) (sendReply E (rq_src rq) hc (rq_dst rq)
        (rt_seqno rt) lt (rq_timestamp rq) (ih_saddr p) (rq_bcast_id rq) lh
        (s\<lparr>bihead := id_put b (bihead s), rtable := rt_put ?rt (rtable s)\<rparr>))"
    using f by (auto simp: rreq_fresh_route_def Let_def assertE_def dest!: bindE_InrD split: if_splits option.splits)
  then show ?thesis
  proof cases
    case 1
    then show ?thesis by (simp add: knows_frame)
  next
    case 2
    let ?s1 = "s\<lparr>bihead := id_put b (bihead s)\<rparr>"
    let ?s2 = "?s1\<lparr>rtable := rt_put ?rt (rtable ?s1)\<rparr>"
    have l: "rt_lookup (rq_dst rq) (rtable ?s1) = Some rt" using rt by simp
    have "know ?s2 = know ?s1" by (rule know_put_seen [OF l]) simp_all
    then have k: "knows K N s ?s2" by (intro knows_frame) simp_all
    have "rt_lookup (rq_dst rq) (rtable ?s2) = Some ?rt"
      using l rtl.lookup_key [OF l] by (simp add: rtl.lookup_put)
    from tellable_stored [OF this] have "tellable K ?s2 {(rq_dst rq, rt_seqno rt)}" by simp
    from knows_trans0r [OF k sendReply_knows [OF this]] show ?thesis
      by (simp add: 2 knows_freed)
  qed
qed

lemma rreq_propagate_knows:
  assumes K: "hdr_claims (Rreq rq) \<subseteq> K" and f: "rreq_propagate E p rq s = Inr s'"
  shows "knows K N s s'"
proof -
  obtain rt0 where rt0: "rt_lookup (rq_src rq) (rtable s) = Some rt0"
    using f by (auto simp: rreq_propagate_def Let_def split: option.splits)
  let ?s1 = "s\<lparr>rtable := rt_put (advertise E rt0) (rtable s)\<rparr>"
  obtain q sq where fwd: "forward E None q EAMRP_DELAY ?s1 = Inr s'"
    and q: "claims q \<subseteq> {(rq_src rq, rq_src_seqno rq), (rq_dst rq, sq)}"
    and sq: "sq = rq_dst_seqno rq \<or> (\<exists>rt. rt_lookup (rq_dst rq) (rtable s) = Some rt \<and> rt_seqno rt = sq)"
    using f rt0 by (fastforce simp: rreq_propagate_def Let_def claims_def max_def split: option.splits if_splits)
  have "know ?s1 = know s" by (rule know_put_seen [OF rt0]) simp_all
  then have k: "knows K 0 s ?s1" "seen (know ?s1) = seen (know s)" by (simp_all add: knows_frame)
  have stored: "\<exists>rt. rt_lookup (rq_dst rq) (rtable ?s1) = Some rt \<and> rt_seqno rt = sq"
    if "\<exists>rt. rt_lookup (rq_dst rq) (rtable s) = Some rt \<and> rt_seqno rt = sq"
  proof -
    have "\<exists>h. seen (know ?s1) (rq_dst rq) = Some (sq, h)" using that k(2) by (auto simp: know_seen)
    then show ?thesis by (auto simp: know_seen)
  qed
  have "tellable K ?s1 {(rq_src rq, rq_src_seqno rq), (rq_dst rq, sq)}"
    using K sq stored by (auto simp: tellable_def)
  then have "knows K N ?s1 s'" by (intro knows_forward [OF fwd]) (rule tellable_mono [OF _ q])
  with k(1) show ?thesis by (rule knows_trans0)
qed

lemma rreq_answer_knows:
  assumes K: "hdr_claims (Rreq rq) \<subseteq> K" and f: "rreq_answer E p rq kill hr s = Inr s'"
  shows "knows K 1 s s'"
proof -
  have freed: "knows K 1 s (emit (Freed p) s)" by (simp add: knows_frame)
  show ?thesis
  proof (cases "rq_dst rq = index s")
    case True
    with K have "(index s, rq_dst_seqno rq) \<in> K" by auto
    moreover have "s' = rreq_at_destination E p rq s" using f True by (simp add: rreq_answer_def)
    ultimately show ?thesis by (blast intro: rreq_at_destination_knows)
  next
    case False
    show ?thesis
    proof (cases "rt_lookup (rq_dst rq) (rtable s)")
      case None
      with f False rreq_propagate_knows [OF K] freed show ?thesis by (simp add: rreq_answer_def split: if_splits)
    next
      case (Some rt)
      with f False rreq_propagate_knows [OF K] rreq_fresh_route_knows [OF Some] freed show ?thesis
        by (simp add: rreq_answer_def split: if_splits)
    qed
  qed
qed

lemma ensure_rt_rqueue: "ensure_rt E d s = Inr s' \<Longrightarrow> rqueue s' = rqueue s"
  by (auto simp: ensure_rt_def rt_add_def assertE_def split: if_splits option.splits dest!: bindE_InrD)

lemma recvRequest_knows:
  assumes inv: "node_inv s" and K: "hdr_claims (Rreq rq) \<subseteq> K" and f: "recvRequest E p rq s = Inr s'"
  shows "knows K 1 s s'"
proof (cases "rq_src rq = index s")
  case True
  then have "s' = emit (Freed p) s" using f by (simp add: recvRequest_def)
  then show ?thesis by (simp add: knows_frame)
next
  case False
  let ?kill = "id_get (rq_src rq, rq_bcast_id rq) (bihead s) \<noteq> None"
  let ?s1 = "if ?kill then s else s\<lparr>bihead := id_insert (now E) (rq_src rq) (rq_bcast_id rq) (bihead s)\<rparr>"
  let ?rq = "if rq_hop_count rq = 0 then rq\<lparr>rq_first_hop := index s\<rparr> else rq"
  let ?p = "p\<lparr>hdr := Rreq ?rq\<rparr>"
  have src: "rq_src ?rq = rq_src rq" "hdr_claims (Rreq ?rq) \<subseteq> K" using K by simp_all
  obtain s2 where e: "ensure_rt E (rq_src rq) ?s1 = Inr s2" and r: "rreq_process E ?p ?rq ?kill s2 = Inr s'"
    using f False by (auto simp: recvRequest_def Let_def src dest!: bindE_InrD)
  have s1: "knows K 0 s ?s1" "rqueue ?s1 = rqueue s" by (simp_all add: knows_frame)
  have k2: "knows K 0 s s2" by (rule knows_trans0 [OF s1(1) ensure_knows [OF e]])
  have q2: "rqueue s2 = rqueue s" using ensure_rt_rqueue [OF e] s1(2) by simp
  obtain rt0 rt1 o1 where rt0: "rt_lookup (rq_src ?rq) (rtable s2) = Some rt0"
    and rev: "rreq_reverse E (eamrp_max_paths s2) (eamrp_prim_alt_path_len_diff s2) (index s2) (ih_saddr ?p) ?rq rt0
      = Inr (rt1, o1)"
    and c: "rreq_continue E ?p ?rq ?kill (rt1, o1) s2 = Inr s'"
    using r by (auto simp: rreq_process_def dest!: bindE_InrD split: option.splits)
  let ?s3 = "s2\<lparr>rtable := rt_put rt1 (rtable s2)\<rparr>"
  have i2: "index s2 = index s" by (rule knows_index [OF k2])
  have "(rq_src ?rq, rq_src_seqno ?rq) \<in> K" using src by (auto split: if_splits)
  then have k3: "knows K 0 s ?s3"
    using adopts_knows [OF rt0 rreq_reverse_adopts [OF rev]] False i2 src(1) by (intro knows_trans0 [OF k2]) simp
  consider "s' = emit (Freed ?p) ?s3"
    | hr s4 where "flush_buffer E (rq_src ?rq) ?s3 = Inr s4" "rreq_answer E ?p ?rq ?kill hr s4 = Inr s'"
    using c by (auto simp: rreq_continue_def Let_def dest!: bindE_InrD split: rev_outcome.splits)
  then show ?thesis
  proof cases
    case 1
    with k3 show ?thesis by (auto intro: knows_freed knows_mono)
  next
    case 2
    have "know s4 = know ?s3 \<and> index s4 = index ?s3"
      using flush_know [OF 2(1)] node_invD(4) [OF inv] q2 by simp
    then have "knows K 0 ?s3 s4" by (simp add: knows_frame)
    from knows_trans0 [OF knows_trans0 [OF k3 this] rreq_answer_knows [OF src(2) 2(2)]] show ?thesis .
  qed
qed

section \<open>Replies\<close>

lemma rrep_forward_path_adopts:
  "rrep_forward_path E m df rp rt = Inr (rt', b) \<Longrightarrow> adopts (rp_dst_seqno rp) rt rt'"
  by (auto simp: rrep_forward_path_def adopts_def assertE_def split: if_splits option.splits)

lemma upd_rt_knows:
  assumes "upd_rt d g s = Inr t" and "\<And>rt. rt_dst (g rt) = rt_dst rt" and "\<And>rt. rt_seqno (g rt) = rt_seqno rt"
    and "\<And>rt. rt_highest_seqno_heard (g rt) = rt_highest_seqno_heard rt"
  shows "knows K N s t"
proof -
  obtain rt where rt: "rt_lookup d (rtable s) = Some rt" and t: "t = s\<lparr>rtable := rt_put (g rt) (rtable s)\<rparr>"
    using assms(1) by (auto simp: upd_rt_def split: option.splits)
  have "know t = know s" unfolding t by (rule know_put_seen [OF rt]) (simp_all add: assms)
  then show ?thesis by (simp add: knows_frame t)
qed

lemma rrep_send_knows:
  assumes K: "(rp_dst rp, rp_dst_seqno rp) \<in> K" and f: "rrep_send E p rp path rt s = Inr s'"
  shows "knows K N s s'"
proof -
  obtain s1 s2 q where s1: "upd_rt (ih_daddr p) (set_head_expire (now E + ACTIVE_ROUTE_TIMEOUT)) s = Inr s1"
    and s2: "upd_rt (rp_dst rp) (\<lambda>r. r\<lparr>rt_error := True\<rparr>) s1 = Inr s2"
    and fwd: "forward E (Some (ih_daddr p)) q NO_EAMRP_DELAY s2 = Inr s'"
    and q: "claims q \<subseteq> {(rp_dst rp, rp_dst_seqno rp)}"
    using f by (fastforce simp: rrep_send_def Let_def claims_def put_reply_def dest!: bindE_InrD
        split: option.splits hdr_all_eamrp.splits if_splits)
  have "knows K 0 s s1" by (rule upd_rt_knows [OF s1]) simp_all
  moreover have "knows K 0 s1 s2" by (rule upd_rt_knows [OF s2]) simp_all
  moreover have "knows K N s2 s'"
    using K by (intro knows_forward [OF fwd] tellable_mono [OF _ q]) (simp add: tellable_def)
  ultimately show ?thesis by (blast intro: knows_trans0)
qed

lemma rrep_relay_knows:
  assumes K: "(rp_dst rp, rp_dst_seqno rp) \<in> K" and f: "rrep_relay E p rp s = Inr s'"
  shows "knows K N s s'"
proof -
  consider (freed) "s' = emit (Freed p) s"
    | (sent) b s1 path rt where "upd_rt (rp_dst rp) (advertise E) (s\<lparr>bihead := id_put b (bihead s)\<rparr>) = Inr s1"
      "rrep_send E p rp path rt s1 = Inr s'"
    using f by (auto simp: rrep_relay_def Let_def dest!: bindE_InrD split: option.splits if_splits)
  then show ?thesis
  proof cases
    case freed
    then show ?thesis by (simp add: knows_frame)
  next
    case sent
    have "knows K 0 s (s\<lparr>bihead := id_put b (bihead s)\<rparr>)" by (rule knows_frame) simp_all
    moreover have "knows K 0 (s\<lparr>bihead := id_put b (bihead s)\<rparr>) s1" by (rule upd_rt_knows [OF sent(1)]) simp_all
    moreover have "knows K N s1 s'" by (rule rrep_send_knows [OF K sent(2)])
    ultimately show ?thesis by (blast intro: knows_trans0)
  qed
qed

lemma recvReply_knows:
  assumes buf: "buffer_ok (rqueue s)" and K: "(rp_dst rp, rp_dst_seqno rp) \<in> K" and f: "recvReply E p rp s = Inr s'"
  shows "knows K N s s'"
proof (cases "rp_dst rp = index s")
  case True
  then have "s' = emit (Freed p) s" using f by (simp add: recvReply_def)
  then show ?thesis by (simp add: knows_frame)
next
  case False
  obtain s1 rt rt1 b where e: "ensure_rt E (rp_dst rp) s = Inr s1"
    and rt: "rt_lookup (rp_dst rp) (rtable s1) = Some rt"
    and path: "rrep_forward_path E (eamrp_max_paths s1) (eamrp_prim_alt_path_len_diff s1) rp rt = Inr (rt1, b)"
    and c: "rrep_continue E p rp (rt1, b) s1 = Inr s'"
    using f False by (auto simp: recvReply_def rrep_process_def dest!: bindE_InrD split: option.splits)
  let ?s2 = "s1\<lparr>rtable := rt_put rt1 (rtable s1)\<rparr>"
  note k1 = ensure_knows [OF e, of K 0]
  have k2: "knows K N s ?s2"
    using adopts_knows [OF rt rrep_forward_path_adopts [OF path] K] False knows_index [OF k1]
    by (intro knows_trans0 [OF k1]) simp
  show ?thesis
  proof (cases b)
    case False
    then have "s' = emit (Freed p) ?s2" using c by (simp add: rrep_continue_def)
    with k2 show ?thesis by (simp add: knows_freed)
  next
    case True
    then obtain s3 where fl: "flush_buffer E (rp_dst rp) ?s2 = Inr s3"
      and r: "(if ih_daddr p = index s1 then Inr (emit (Freed p) s3) else rrep_relay E p rp s3) = Inr s'"
      using c by (auto simp: rrep_continue_def Let_def dest!: bindE_InrD)
    have "knows K 0 ?s2 s3" using flush_know [OF fl] buf ensure_rt_rqueue [OF e] by (simp add: knows_frame)
    then have k3: "knows K N s s3" by (rule knows_trans0r [OF k2])
    show ?thesis
    proof (cases "ih_daddr p = index s1")
      case True
      then have "s' = emit (Freed p) s3" using r by simp
      with k3 show ?thesis by (simp add: knows_freed)
    next
      case False
      then have "rrep_relay E p rp s3 = Inr s'" using r by simp
      from knows_trans0r [OF k3 rrep_relay_knows [OF K this]] show ?thesis .
    qed
  qed
qed

section \<open>Route errors\<close>

text \<open>What the rules allow for an entry the node heard an error about.\<close>

definition hears :: "u32 \<Rightarrow> eamrp_rt_entry \<Rightarrow> eamrp_rt_entry \<Rightarrow> bool" where
  "hears sq rt rt' \<longleftrightarrow> rt_dst rt' = rt_dst rt \<and> rt_seqno rt \<le> sq
     \<and> rt_highest_seqno_heard rt' = max (rt_highest_seqno_heard rt) sq
     \<and> (rt_seqno rt' = rt_seqno rt \<or> rt_seqno rt' = rt_highest_seqno_heard rt')"

lemma hears_knows:
  assumes rt: "rt_lookup d (rtable s) = Some rt" and h: "hears sq rt rt'" and K: "(d, sq) \<in> K"
  shows "knows K N s (s\<lparr>rtable := rt_put rt' (rtable s)\<rparr>)"
proof -
  let ?h = "max (rt_highest_seqno_heard rt) sq"
  let ?k = "(know s)\<lparr>seen := (seen (know s))(d \<mapsto> (rt_seqno rt, ?h))\<rparr>"
  let ?s = "s\<lparr>rtable := rt_put rt' (rtable s)\<rparr>"
  have dst: "rt_dst rt' = d" "rt_seqno rt \<le> sq" "rt_highest_seqno_heard rt' = ?h"
    using h rtl.lookup_key [OF rt] by (simp_all add: hears_def)
  have heard: "know_run (index s) K 0 (know s) ?k"
    using know_step.hear [of "know s" d "rt_seqno rt"] rt K dst by (intro know_step_run) (simp add: know_seen)
  have put: "know ?s = (know s)\<lparr>seen := (seen (know s))(d \<mapsto> (rt_seqno rt', ?h))\<rparr>"
    using know_put [of rt' s] rt dst by simp
  have "know_run (index s) K 0 (know s) (know ?s)"
  proof (cases "rt_seqno rt' = rt_seqno rt")
    case True
    then show ?thesis using heard put by simp
  next
    case False
    then have "rt_seqno rt' = ?h" using h dst by (simp add: hears_def)
    then have "know_run (index s) K 0 ?k (know ?s)"
      using know_step.concede [of ?k d "rt_seqno rt" ?h] dst(2) put by (intro know_step_run) (simp add: le_max_iff_disj)
    from know_run_trans [OF heard this] show ?thesis by simp
  qed
  then show ?thesis by (auto simp: knows_def)
qed

text \<open>The error under construction lists entries that are down, with the numbers they have.\<close>

definition lists_down :: "hdr_eamrp_error \<Rightarrow> eamrp \<Rightarrow> bool" where
  "lists_down re s \<longleftrightarrow> length (unreachable_dst re) = 100 \<and> length (unreachable_dst_seqno re) = 100
     \<and> (\<forall>(d, m)\<in>hdr_claims (Rerr re). \<exists>rt. rt_lookup d (rtable s) = Some rt \<and> rt_seqno rt = m \<and> rt_flags rt \<noteq> RTF_UP)"

lemma rerr_entry_hears:
  assumes "rerr_entry E a sq nre rt = Inr (nre', rt')"
    and l: "length (unreachable_dst nre) = 100" "length (unreachable_dst_seqno nre) = 100"
  shows "nre' = nre \<and> rt' = rt \<or> rt_flags rt = RTF_UP \<and> hears sq rt rt'
    \<and> (nre' = nre \<or> rt_flags rt' \<noteq> RTF_UP \<and> hdr_claims (Rerr nre') \<subseteq> insert (rt_dst rt', rt_seqno rt') (hdr_claims (Rerr nre)))
    \<and> length (unreachable_dst nre') = 100 \<and> length (unreachable_dst_seqno nre') = 100"
proof -
  have flags: "rt_flags (rt_down E r) \<noteq> RTF_UP" for r
    by (simp add: rt_down_def path_delete_all_def RTF_UP_def RTF_DOWN_def)
  consider "nre' = nre" "rt' = rt" | "nre' = nre" "rt_flags rt = RTF_UP" "hears sq rt rt'"
    | "rt_flags rt = RTF_UP" "hears sq rt rt'" "rt_flags rt' \<noteq> RTF_UP" "re_push (rt_dst rt') (rt_seqno rt') nre = Inr nre'"
    using assms(1) flags
    by (auto simp: rerr_entry_def hears_def Let_def assertE_def dest!: bindE_InrD split: if_splits)
  then show ?thesis
  proof cases
    case 3
    with re_push_claims [OF 3(4) l] show ?thesis by blast
  qed (use l in blast)+
qed

text \<open>The list of the next error stays true when an entry that was up has been changed.\<close>

lemma lists_down_put:
  assumes l: "lists_down nre s" and rt: "rt_lookup d (rtable s) = Some rt" "rt_flags rt = RTF_UP" "rt_dst rt' = d"
    and len: "length (unreachable_dst nre') = 100" "length (unreachable_dst_seqno nre') = 100"
    and new: "hdr_claims (Rerr nre') \<subseteq> hdr_claims (Rerr nre)
      \<or> rt_flags rt' \<noteq> RTF_UP \<and> hdr_claims (Rerr nre') \<subseteq> insert (d, rt_seqno rt') (hdr_claims (Rerr nre))"
  shows "lists_down nre' (s\<lparr>rtable := rt_put rt' (rtable s)\<rparr>)"
proof -
  let ?t = "rt_put rt' (rtable s)"
  have put: "rt_lookup c ?t = (if c = d then Some rt' else rt_lookup c (rtable s))" for c
    using rt(1,3) by (simp add: rtl.lookup_put)
  have old: "\<exists>r. rt_lookup c ?t = Some r \<and> rt_seqno r = m \<and> rt_flags r \<noteq> RTF_UP"
    if "(c, m) \<in> hdr_claims (Rerr nre)" for c m
    using l that rt(1,2) put [of c] by (fastforce simp: lists_down_def simp del: hdr_claims.simps)
  have "\<exists>r. rt_lookup c ?t = Some r \<and> rt_seqno r = m \<and> rt_flags r \<noteq> RTF_UP"
    if "(c, m) \<in> hdr_claims (Rerr nre')" for c m
  proof (cases "(c, m) \<in> hdr_claims (Rerr nre)")
    case False
    with that new have "c = d" "m = rt_seqno rt'" "rt_flags rt' \<noteq> RTF_UP" by blast+
    with put [of d] show ?thesis by simp
  qed (rule old)
  with len show ?thesis by (auto simp: lists_down_def simp del: hdr_claims.simps)
qed

lemma rerr_step_knows:
  assumes K: "hdr_claims (Rerr re) \<subseteq> K" and i: "i < unat (DestCount re)" and l: "lists_down nre s"
    and f: "rerr_step E a re i (nre, s) = Inr (nre', s')"
  shows "lists_down nre' s' \<and> knows K N s s'"
proof -
  let ?d = "unreachable_dst re ! i" and ?sq = "unreachable_dst_seqno re ! i"
  have get: "re_get re i = Inr (?d, ?sq)" using f by (auto simp: rerr_step_def re_get_def split: if_splits)
  have K': "(?d, ?sq) \<in> K" using K i by auto
  have len: "length (unreachable_dst nre) = 100" "length (unreachable_dst_seqno nre) = 100"
    using l by (simp_all add: lists_down_def)
  show ?thesis
  proof (cases "rt_lookup ?d (rtable s)")
    case None
    with f get l show ?thesis by (simp add: rerr_step_def knows_frame)
  next
    case rt: (Some rt)
    then obtain rt' where e: "rerr_entry E a ?sq nre rt = Inr (nre', rt')"
      and s': "s' = s\<lparr>rtable := rt_put rt' (rtable s)\<rparr>"
      using f get by (auto simp: rerr_step_def dest!: bindE_InrD)
    have dst: "rt_dst rt = ?d" by (rule rtl.lookup_key [OF rt])
    have "nre' = nre \<and> rt' = rt \<or> rt_flags rt = RTF_UP \<and> hears ?sq rt rt'" (is "?same \<or> ?heard")
      using rerr_entry_hears [OF e len] by blast
    then show ?thesis
    proof
      assume same: ?same
      have "rtable s' = rtable s" using same rtl.put_id [OF rt] by (simp add: s')
      moreover have "know s' = know s" using same by (simp add: s' know_put_seen [OF rt])
      ultimately show ?thesis using same l by (simp add: lists_down_def knows_frame s')
    next
      assume heard: ?heard
      then have dst': "rt_dst rt' = ?d" using dst by (simp add: hears_def)
      have "nre' = nre \<or> rt_flags rt' \<noteq> RTF_UP \<and> hdr_claims (Rerr nre') \<subseteq> insert (?d, rt_seqno rt') (hdr_claims (Rerr nre))
          \<and> length (unreachable_dst nre') = 100 \<and> length (unreachable_dst_seqno nre') = 100"
        using rerr_entry_hears [OF e len] dst' by auto
      then have "lists_down nre' s'"
        unfolding s' using len heard dst' by (intro lists_down_put [OF l rt]) (auto simp del: hdr_claims.simps)
      moreover have "knows K N s s'" unfolding s' using heard by (intro hears_knows [OF rt _ K']) simp
      ultimately show ?thesis by blast
    qed
  qed
qed

lemma recvError_knows:
  assumes K: "hdr_claims (Rerr re) \<subseteq> K" and f: "recvError E p re s = Inr s'"
  shows "knows K N s s'"
proof -
  let ?f = "rerr_step E (ih_saddr p) re"
  obtain nre s1 where w: "foldE ?f [0..<unat (DestCount re)] (re_empty, s) = Inr (nre, s1)"
    and s': "s' = emit (Freed p) (if DestCount nre > 0 then sendError E nre True s1
        else emit (Freed (packet_alloc\<lparr>hdr := Rerr nre\<rparr>)) s1)"
    using f by (auto simp: recvError_def dest!: bindE_InrD)
  have start: "lists_down re_empty s" by (simp add: lists_down_def re_empty_def EAMRP_MAX_ERRORS_def)
  let ?I = "\<lambda>(n, t). lists_down n t \<and> knows K 0 s t"
  have "safe UNIV ?I (?f i x)" if i: "i \<in> set [0..<unat (DestCount re)]" and x: "?I x" for i x
  proof -
    obtain n t where nt: "x = (n, t)" by (cases x)
    then have l: "lists_down n t" "knows K 0 s t" using x by simp_all
    show ?thesis
    proof (cases "?f i x")
      case (Inr y)
      obtain n' t' where y: "y = (n', t')" by (cases y)
      have "lists_down n' t' \<and> knows K 0 t t'"
        using i Inr by (intro rerr_step_knows [OF K _ l(1)]) (simp_all add: nt y)
      with knows_trans0 [OF l(2)] show ?thesis by (simp add: Inr y)
    qed simp
  qed
  moreover have "?I (re_empty, s)" using start knows_frame [of s s K 0] by simp
  ultimately have "safe UNIV ?I (foldE ?f [0..<unat (DestCount re)] (re_empty, s))" by (rule safe_foldE)
  then have s1: "lists_down nre s1" "knows K 0 s s1" using w by simp_all
  have "tellable K s1 (hdr_claims (Rerr nre))"
    using s1(1) unfolding lists_down_def tellable_def by (fastforce simp del: hdr_claims.simps)
  from sendError_knows [OF this] have e: "knows K N s1 (sendError E nre True s1)" .
  have "knows K N s1 (emit (Freed (packet_alloc\<lparr>hdr := Rerr nre\<rparr>)) s1)" by (rule knows_frame) simp_all
  with e have "knows K N s1 s'" by (simp add: s' knows_freed)
  from knows_trans0 [OF s1(2) this] show ?thesis .
qed

section \<open>Every step of a node\<close>

lemma nb_insert_know:
  "know (nb_insert E a s) = know s" "index (nb_insert E a s) = index s" "rqueue (nb_insert E a s) = rqueue s"
  by (simp_all add: nb_insert_def Let_def)

lemma recvHello_knows:
  assumes buf: "buffer_ok (rqueue s)" and K: "(rp_dst rp, rp_dst_seqno rp) \<in> K" and f: "recvHello E p rp s = Inr s'"
  shows "knows K N s s'"
proof -
  let ?nb = "\<lambda>nb. nb\<lparr>nb_expire := now E + 15 / 10 * ALLOWED_HELLO_LOSS * HELLO_INTERVAL\<rparr>"
  define s1 where "s1 = (case nb_lookup (rp_dst rp) s of None \<Rightarrow> nb_insert E (rp_dst rp) s
    | Some nb \<Rightarrow> s\<lparr>nbhead := nb_put (?nb nb) (nbhead s)\<rparr>)"
  let ?rp = "rp\<lparr>rp_src := ih_saddr p, rp_first_hop := index s\<rparr>"
  have s1: "know s1 = know s" "index s1 = index s" "rqueue s1 = rqueue s"
    using nb_insert_know [of E "rp_dst rp" s] by (simp_all add: s1_def split: option.split)
  have r: "recvReply E (put_reply ?rp (p\<lparr>ih_daddr := index s\<rparr>)) ?rp s1 = Inr s'"
    using f by (simp only: recvHello_def Let_def s1_def)
  have "knows K 0 s s1" using s1 by (simp add: knows_frame)
  moreover have "knows K N s1 s'" using buf K s1 by (intro recvReply_knows [OF _ _ r]) simp_all
  ultimately show ?thesis by (rule knows_trans0)
qed

lemma recvEAMRP_knows:
  assumes inv: "node_inv s" and f: "recvEAMRP E p s = Inr s'"
  shows "knows (hdr_claims (hdr p)) 1 s s'"
proof (cases "hdr p")
  case (Rreq rq)
  then have "recvRequest E p rq s = Inr s'" using f by (auto simp: recvEAMRP_def assertE_def split: if_splits)
  then show ?thesis unfolding Rreq by (intro recvRequest_knows [OF inv subset_refl])
next
  case (Rrep rp)
  then have "recvReply E p rp s = Inr s'" using f by (auto simp: recvEAMRP_def assertE_def split: if_splits)
  then show ?thesis using Rrep by (intro recvReply_knows [OF node_invD(4) [OF inv]]) simp_all
next
  case (Rerr re)
  then have "recvError E p re s = Inr s'" using f by (auto simp: recvEAMRP_def assertE_def split: if_splits)
  then show ?thesis unfolding Rerr by (intro recvError_knows [OF subset_refl])
next
  case (Hello rp)
  then have "recvHello E p rp s = Inr s'" using f by (auto simp: recvEAMRP_def assertE_def split: if_splits)
  then show ?thesis using Hello by (intro recvHello_knows [OF node_invD(4) [OF inv]]) simp_all
next
  case (Raw t)
  with f show ?thesis by (auto simp: recvEAMRP_def assertE_def split: if_splits)
qed

lemma recv_deliver_knows:
  assumes inv: "node_inv s" and E: "env_ok E" and p: "ch_ptype p \<noteq> PT_EAMRP" and f: "recv_deliver E p s = Inr s'"
  shows "knows K 1 s s'"
proof (cases "ih_daddr p = IP_BROADCAST")
  case True
  then have "forward E None p NO_EAMRP_DELAY s = Inr s'" using f by (simp add: recv_deliver_def)
  then show ?thesis using p by (rule knows_forward_data)
next
  case False
  then have r: "rt_resolve E p s = Inr s'" using f by (simp add: recv_deliver_def)
  have "knows K 1 s s'" by (rule rt_resolve_knows [OF inv E False p r])
  then show ?thesis .
qed

lemma recv_knows:
  assumes inv: "node_inv s" and E: "env_ok E" and f: "recv E p s = Inr s'"
  shows "knows (claims p) 1 s s'"
proof (cases "ch_ptype p = PT_EAMRP")
  case True
  then have "recvEAMRP E (p\<lparr>ih_ttl := ih_ttl p - 1\<rparr>) s = Inr s'"
    using f by (simp add: recv_def assertE_def split: if_splits)
  from recvEAMRP_knows [OF inv this] True show ?thesis by (simp add: claims_def)
next
  case False
  have drop: "knows (claims p) 1 s (emit (Dropped q why) s)" for q why by (rule knows_frame) simp_all
  consider q why where "s' = emit (Dropped q why) s"
    | q where "recv_deliver E q s = Inr s'" "ch_ptype q = ch_ptype p"
    using f False by (auto simp: recv_def assertE_def Let_def split: if_splits)
  then show ?thesis
  proof cases
    case 1
    with drop show ?thesis by simp
  next
    case 2
    with False show ?thesis by (intro recv_deliver_knows [OF inv E _ 2(1)]) simp
  qed
qed

fun heard :: "input \<Rightarrow> claim set" where
  "heard (Recv p) = claims p"
| "heard _ = {}"

text \<open>How often a step may raise the own number: once, or once per entry a timer looks at.\<close>

fun raises :: "input \<Rightarrow> eamrp \<Rightarrow> nat" where
  "raises Nb_expired s = length (nbhead s)"
| "raises Route_expired s = length (rtable s)"
| "raises _ s = 1"

lemma node_step_knows:
  assumes inv: "node_inv s" and E: "env_ok E" and f: "node_step E i s = Inr s'"
  shows "knows (heard i) (raises i s) s s'"
proof (cases i)
  case (Recv p)
  with f recv_knows [OF inv E] show ?thesis by simp
next
  case (Ll_failed p)
  with f have "s' = emit (Dropped p DROP_RTR_MAC_CALLBACK) s" by (simp add: rt_ll_failed_def)
  then show ?thesis by (simp add: knows_frame)
next
  case Bcast_expired
  with f have "s' = broadcast_timer E s" by simp
  then show ?thesis by (simp add: knows_frame broadcast_timer_def)
next
  case Hello_expired
  with f show ?thesis by (simp add: hello_timer_knows)
next
  case Nb_expired
  with f obtain s1 where "nb_purge E s = Inr s1" "s' = emit (Timer_set Ntimer HELLO_INTERVAL) s1"
    by (auto simp: neighbor_timer_def dest!: bindE_InrD)
  with knows_trans0r [OF nb_purge_knows [OF inv E] knows_emit_timer] Nb_expired show ?thesis by simp
next
  case Route_expired
  with f obtain s1 where "rt_purge E s = Inr s1" "s' = emit (Timer_set Rtimer FREQUENCY) s1"
    by (auto simp: route_cache_timer_def dest!: bindE_InrD)
  with knows_trans0r [OF rt_purge_knows [OF inv] knows_emit_timer] Route_expired show ?thesis by simp
next
  case (Repair_expired p)
  with f have "s' = emit (Freed p) s" using local_repair_timer_id [OF inv, of E p] by simp
  then show ?thesis by (simp add: knows_frame)
qed

end
