(* ===== verification/KnowNet.thy ===== *)
theory KnowNet
  imports KnowRecv
begin

text \<open>
  The simulation carried over to runs of a node and to the network: what is stored about a
  destination only gets fresher, and it never overtakes the destination's own number by more
  than the one step that marks a broken route.
\<close>

section \<open>Runs of a node\<close>

lemma know_run_own_entry:
  assumes "knows K N s s'" and "rt_lookup d (rtable s) = Some rt"
  shows "\<exists>rt'. rt_lookup d (rtable s') = Some rt' \<and> rt_seqno rt \<le> rt_seqno rt'
    \<and> rt_highest_seqno_heard rt \<le> rt_highest_seqno_heard rt'"
proof -
  obtain n where "know_run (index s) K n (know s) (know s')" using assms(1) by (auto simp: knows_def)
  from know_run_fresh [OF this, of d "rt_seqno rt" "rt_highest_seqno_heard rt"] assms(2)
  show ?thesis by (auto simp: know_seen)
qed

lemma node_run_fresh:
  assumes "node_run tr s = Inr s'" and "\<forall>(E, i)\<in>set tr. env_ok E \<and> input_ok i" and "node_inv s"
    and "rt_lookup d (rtable s) = Some rt"
  shows "\<exists>rt'. rt_lookup d (rtable s') = Some rt' \<and> rt_seqno rt \<le> rt_seqno rt'
    \<and> rt_highest_seqno_heard rt \<le> rt_highest_seqno_heard rt'"
  using assms
proof (induction tr arbitrary: s rt)
  case Nil
  then show ?case by (simp add: node_run_def)
next
  case (Cons Ei tr)
  obtain E i where Ei: "Ei = (E, i)" by (cases Ei)
  then have ok: "env_ok E" "input_ok i" using Cons.prems(2) by simp_all
  obtain s1 where s1: "node_step E i s = Inr s1" "node_run tr s1 = Inr s'"
    using Cons.prems(1) by (auto simp: node_run_def Ei simp del: node_step.simps dest!: bindE_InrD)
  obtain rt1 where rt1: "rt_lookup d (rtable s1) = Some rt1" "rt_seqno rt \<le> rt_seqno rt1"
      "rt_highest_seqno_heard rt \<le> rt_highest_seqno_heard rt1"
    using know_run_own_entry [OF node_step_knows [OF Cons.prems(3) ok(1) s1(1)] Cons.prems(4)] by blast
  have "\<exists>rt'. rt_lookup d (rtable s') = Some rt' \<and> rt_seqno rt1 \<le> rt_seqno rt'
      \<and> rt_highest_seqno_heard rt1 \<le> rt_highest_seqno_heard rt'"
    using Cons.prems(2) node_step_inv(1) [OF Cons.prems(3) ok s1(1)] by (intro Cons.IH [OF s1(2) _ _ rt1(1)]) simp_all
  with rt1(2,3) show ?case by (blast intro: order_trans)
qed

section \<open>The network\<close>

text \<open>
  A run in which no node is about to wrap its own number: one step raises it at most once per
  neighbour or per entry of the table.
\<close>

definition net_room :: "net \<Rightarrow> bool" where
  "net_room n \<longleftrightarrow> (\<forall>a. unat (seqno (nodes n a))
     + 2 * (1 + length (nbhead (nodes n a)) + length (rtable (nodes n a))) < 2 ^ 32)"

inductive room_reach :: "net \<Rightarrow> net \<Rightarrow> bool" for n0 where
  room_start: "room_reach n0 n0"
| room_step: "room_reach n0 n \<Longrightarrow> net_room n \<Longrightarrow> net_step n n' \<Longrightarrow> room_reach n0 n'"

lemma room_reach_net_reach: "room_reach n0 n \<Longrightarrow> net_reach n0 n"
  by (induction rule: room_reach.induct) (auto intro: net_reach.intros)

definition limit :: "net \<Rightarrow> nsaddr \<Rightarrow> nat" where
  "limit n d = Suc (unat (seqno (nodes n d)))"

definition net_capped :: "net \<Rightarrow> bool" where
  "net_capped n \<longleftrightarrow> (\<forall>a. index (nodes n a) = a \<and> even (seqno (nodes n a)) \<and> capped (limit n) (know (nodes n a)))
     \<and> (\<forall>p\<in>air n. up_to (limit n) (claims p))"

lemma sent_told: "p \<in> sent s \<Longrightarrow> claims p \<subseteq> told (know s)"
proof -
  assume "p \<in> sent s"
  then obtain t where "Scheduled p t \<in> set (out s)" by (auto simp: sent_def)
  then show ?thesis unfolding know_def by (auto intro!: bexI [of _ "Scheduled p t"])
qed

lemma same_message_claims: "same_message q p \<Longrightarrow> claims p = claims q"
  by (simp add: same_message_def claims_def)

lemma raises_le: "raises i s \<le> 1 + length (nbhead s) + length (rtable s)"
  by (cases i) simp_all

lemma bound_of_limit: "index s = a \<Longrightarrow> bound_of (limit n) (index s) (know s) = limit (put_node a s n)"
  by (auto simp: bound_of_def limit_def put_node_def)

lemma limit_put_self: "limit (put_node a (nodes n a) n) = limit n"
  by (simp add: limit_def put_node_def fun_upd_idem fun_eq_iff)

lemma net_step_capped:
  assumes step: "net_step n n'" and inv: "net_inv n" and cap: "net_capped n" and room: "net_room n"
  shows "net_capped n'"
proof -
  obtain a E i s' where a: "a \<noteq> IP_BROADCAST" "n' = put_node a s' n" "env_ok E" "input_ok i"
    and f: "node_step E i (nodes n a) = Inr s'"
    and src: "\<forall>p. i = Recv p \<longrightarrow> ch_ptype p = PT_EAMRP \<longrightarrow> (\<exists>q\<in>air n. same_message q p)"
    using net_step_node [OF step inv] by blast
  let ?s = "nodes n a"
  have s: "node_inv ?s" using inv a(1) by (simp add: net_inv_def)
  have ix: "index ?s = a" "capped (limit n) (know ?s)" "even (own (know ?s))" using cap by (simp_all add: net_capped_def)
  have B: "bound_of (limit n) (index ?s) (know ?s) = limit n"
    using bound_of_limit [OF ix(1)] by (simp add: limit_put_self)
  have heard: "up_to (limit n) (heard i)"
  proof (cases "\<exists>p. i = Recv p \<and> ch_ptype p = PT_EAMRP")
    case True
    then obtain p q where "i = Recv p" "q \<in> air n" "same_message q p" using src by blast
    with cap same_message_claims show ?thesis by (auto simp: net_capped_def)
  next
    case False
    then have "heard i = {}" by (cases i) (simp_all add: claims_def)
    then show ?thesis by (simp add: up_to_def)
  qed
  obtain k where k: "k \<le> raises i ?s" "know_run (index ?s) (heard i) k (know ?s) (know s')" "index s' = a"
    using node_step_knows [OF s a(3) f] ix(1) by (auto simp: knows_def)
  have "unat (seqno ?s) + 2 * (1 + length (nbhead ?s) + length (rtable ?s)) < 4294967296"
    using room by (simp add: net_room_def)
  then have r: "unat (own (know ?s)) + 2 * k < 4294967296" using k(1) raises_le [of i ?s] by simp
  have odd: "odd (limit n d)" for d using cap by (simp add: limit_def even_unat_word net_capped_def)
  have "run_inv (limit n) (index ?s) k (know ?s) (know s')"
    by (rule know_run_capped [OF k(2)]) (use B ix heard odd r in \<open>simp_all add: ix(1)\<close>)
  then have s': "capped (limit n') (know s')" "even (seqno s')" "unat (seqno ?s) \<le> unat (seqno s')"
    using bound_of_limit [OF k(3), of n] k(3) ix(1) by (simp_all add: run_inv_def a(2))
  have mono: "limit n d \<le> limit n' d" for d using s'(3) by (simp add: limit_def a(2) put_node_def)
  have "up_to (limit n') (claims p)" if "p \<in> sent s'" for p
    using sent_told [OF that] s'(1) by (fastforce simp: capped_def up_to_def)
  moreover have "up_to (limit n') (claims p)" if "p \<in> air n" for p
    using cap that up_to_mono [OF _ mono] by (simp add: net_capped_def)
  moreover have "index (nodes n' b) = b \<and> even (seqno (nodes n' b)) \<and> capped (limit n') (know (nodes n' b))" for b
    using cap capped_mono [OF _ mono] s' k(3) by (simp add: net_capped_def a(2) put_node_def)
  ultimately show ?thesis by (auto simp: net_capped_def a(2) put_node_def)
qed

lemma connected_capped:
  assumes "nodes n = connected_node" and "air n = {}" shows "net_capped n"
  using assms
  by (simp add: net_capped_def connected_node_def EAMRP_new_def capped_def up_to_def know_def)

lemma room_reach_capped:
  assumes "room_reach n0 n" and "nodes n0 = connected_node" and "air n0 = {}"
  shows "net_capped n"
  using assms(1)
proof (induction rule: room_reach.induct)
  case room_start
  show ?case by (rule connected_capped [OF assms(2,3)])
next
  case (room_step n n')
  have "net_inv n0" using assms(2,3) connected_node_inv by (simp add: net_inv_def)
  from net_reach_inv [OF room_reach_net_reach [OF room_step(1)] this] room_step show ?case
    by (blast intro: net_step_capped)
qed

lemma stored_limit:
  assumes cap: "net_capped n" and inv: "net_inv n" and a: "a \<noteq> IP_BROADCAST" and rt: "rt \<in> set (rtable (nodes n a))"
  shows "unat (rt_seqno rt) \<le> limit n (rt_dst rt)" "entry_ok (eamrp_max_paths (nodes n a)) rt"
proof -
  have "node_inv (nodes n a)" using inv a by (simp add: net_inv_def)
  then have t: "table_ok (eamrp_max_paths (nodes n a)) (rtable (nodes n a))" by (rule node_invD(3))
  then show "entry_ok (eamrp_max_paths (nodes n a)) rt" using rt by (simp add: table_ok_def)
  have "rt_lookup (rt_dst rt) (rtable (nodes n a)) = Some rt"
    using t rt rtl.lookup_distinct by (simp add: table_ok_def)
  then have "seen (know (nodes n a)) (rt_dst rt) = Some (rt_seqno rt, rt_highest_seqno_heard rt)"
    by (simp add: know_seen)
  moreover have "capped (limit n) (know (nodes n a))" using cap by (simp add: net_capped_def)
  ultimately show "unat (rt_seqno rt) \<le> limit n (rt_dst rt)" by (blast dest: capped_seen)
qed

lemma stored_up_limit:
  assumes cap: "net_capped n" and inv: "net_inv n" and a: "a \<noteq> IP_BROADCAST" and rt: "rt \<in> set (rtable (nodes n a))"
    and up: "rt_flags rt = RTF_UP"
  shows "rt_seqno rt \<le> seqno (nodes n (rt_dst rt))"
proof -
  note s = stored_limit [OF cap inv a rt]
  have "even (unat (rt_seqno rt))" "even (unat (seqno (nodes n (rt_dst rt))))"
    using entry_okD(7) [OF s(2) up] cap by (simp_all add: even_unat_word net_capped_def)
  with s(1) have "unat (rt_seqno rt) \<le> unat (seqno (nodes n (rt_dst rt)))"
    unfolding limit_def by (metis even_Suc le_Suc_eq)
  then show ?thesis by (simp add: word_le_nat_alt)
qed

end
