(* ===== verification/Offers.thy ===== *)
theory Offers
  imports KnowRecv
begin

text \<open>
  Hop counts. A node promises a hop count for a destination and a number when it advertises one;
  its messages are offers (\<^theory_text>\<open>RecvInv\<close>). A step is honest if every promise made before still holds,
  every message sent is covered by a promise, and every new promise rests on a path or on an offer
  just received that is one hop nearer. This theory defines the notion for entries and states;
  \<^theory_text>\<open>OfferSteps\<close> proves it for transmission, own messages, broken routes and timers, \<^theory_text>\<open>OfferRecv\<close>
  for the handlers.
\<close>

text \<open>The entry of a destination, the blank one if there is none.\<close>

definition entry_at :: "nsaddr \<Rightarrow> eamrp \<Rightarrow> eamrp_rt_entry" where
  "entry_at c s = (case rt_lookup c (rtable s) of None \<Rightarrow> (new_rt_entry 0)\<lparr>rt_dst := c\<rparr> | Some rt \<Rightarrow> rt)"

lemma entry_at_dst [simp]: "rt_dst (entry_at c s) = c"
  by (simp add: entry_at_def rtl.lookup_key split: option.split)

lemma entry_at_Some: "rt_lookup c (rtable s) = Some rt \<Longrightarrow> entry_at c s = rt"
  by (simp add: entry_at_def)

lemma entry_at_rtable: "rtable t = rtable s \<Longrightarrow> entry_at c t = entry_at c s"
  by (simp add: entry_at_def)

lemma entry_at_put:
  assumes "rt_lookup d (rtable s) = Some rt" and "rt_dst r = d"
  shows "entry_at c (s\<lparr>rtable := rt_put r (rtable s)\<rparr>) = (if c = d then r else entry_at c s)"
  using assms by (simp add: entry_at_def rtl.lookup_put)

text \<open>
  What a node may say about a destination: about itself, that it is no hop away; about others,
  the number and the advertised hop count it stores.
\<close>

definition backs :: "eamrp \<Rightarrow> nsaddr \<Rightarrow> u32 \<Rightarrow> int \<Rightarrow> bool" where
  "backs s c n h \<longleftrightarrow> (if c = index s then h = 0
     else rt_seqno (entry_at c s) = n \<and> uint (rt_advertised_hops (entry_at c s)) = h)"

definition offers_backed :: "eamrp \<Rightarrow> offer set \<Rightarrow> bool" where
  "offers_backed s C \<longleftrightarrow> (\<forall>(x, c, n, h)\<in>C. x = index s \<and> backs s c n (uint h))"

lemma offers_backed_empty [simp]: "offers_backed s {}"
  by (simp add: offers_backed_def)

definition same_numbers :: "eamrp \<Rightarrow> eamrp \<Rightarrow> bool" where
  "same_numbers s t \<longleftrightarrow> index t = index s \<and> (\<forall>c. rt_seqno (entry_at c t) = rt_seqno (entry_at c s)
     \<and> rt_advertised_hops (entry_at c t) = rt_advertised_hops (entry_at c s))"

lemma offers_backed_same: "same_numbers s t \<Longrightarrow> offers_backed t D = offers_backed s D"
  by (simp add: same_numbers_def offers_backed_def backs_def)

lemma same_numbers_trans: "same_numbers s t \<Longrightarrow> same_numbers t u \<Longrightarrow> same_numbers s u"
  by (simp add: same_numbers_def)

section \<open>Steps of an entry\<close>

text \<open>
  \<open>INFINITY\<close> is a value \<open>infty\<close> of sixteen bits, and hop counts fit in the eight bits of a message.
\<close>

definition infty_is :: "u16 \<Rightarrow> ns2 \<Rightarrow> bool" where
  "infty_is infty E \<longleftrightarrow> inf16 E = infty \<and> (\<forall>h. eq_inf E h \<longleftrightarrow> h = infty) \<and> 256 \<le> uint infty"

definition hops_small :: "u16 \<Rightarrow> eamrp_rt_entry \<Rightarrow> bool" where
  "hops_small infty rt \<longleftrightarrow> (rt_advertised_hops rt = infty \<or> uint (rt_advertised_hops rt) \<le> 255)
     \<and> (\<forall>p\<in>set (rt_path_list rt). 1 \<le> uint (hopcount p) \<and> uint (hopcount p) \<le> 255)"

definition small :: "u16 \<Rightarrow> eamrp \<Rightarrow> bool" where
  "small infty s \<longleftrightarrow> 256 \<le> uint infty \<and> (\<forall>c. hops_small infty (entry_at c s))"

text \<open>
  A hop count for a number comes from a path with that number or from an offer of a neighbour
  that is one hop nearer.
\<close>

definition supported :: "offer set \<Rightarrow> eamrp_rt_entry \<Rightarrow> u32 \<Rightarrow> int \<Rightarrow> bool" where
  "supported C rt n k \<longleftrightarrow> n = rt_seqno rt \<and> (\<exists>p\<in>set (rt_path_list rt). uint (hopcount p) = k)
     \<or> (\<exists>y h. (y, rt_dst rt, n, h) \<in> C \<and> k = uint h + 1)"

text \<open>
  What a step that received the offers \<open>C\<close> may do to an entry. Its number never decreases, and
  with the same number the advertised hop count stays once it is set; every path was there before
  with this number or comes from an offer; and a new advertised hop count is supported.
\<close>

definition entry_step :: "u16 \<Rightarrow> offer set \<Rightarrow> eamrp_rt_entry \<Rightarrow> eamrp_rt_entry \<Rightarrow> bool" where
  "entry_step infty C rt rt' \<longleftrightarrow> rt_dst rt' = rt_dst rt
     \<and> (rt_seqno rt < rt_seqno rt' \<or> rt_seqno rt = rt_seqno rt'
         \<and> (rt_advertised_hops rt = infty \<or> rt_advertised_hops rt' = rt_advertised_hops rt))
     \<and> (\<forall>p\<in>set (rt_path_list rt').
          rt_seqno rt' = rt_seqno rt \<and> (\<exists>q\<in>set (rt_path_list rt). nexthop q = nexthop p \<and> hopcount q = hopcount p)
          \<or> (\<exists>h. (nexthop p, rt_dst rt, rt_seqno rt', h) \<in> C \<and> uint (hopcount p) = uint h + 1))
     \<and> (hops_small infty rt \<longrightarrow> hops_small infty rt' \<and>
          (rt_advertised_hops rt' = infty
           \<or> rt_seqno rt' = rt_seqno rt \<and> rt_advertised_hops rt' = rt_advertised_hops rt
           \<or> supported C rt (rt_seqno rt') (uint (rt_advertised_hops rt'))))"

lemma entry_stepD:
  assumes "entry_step infty C rt rt'"
  shows "rt_dst rt' = rt_dst rt"
    and "rt_seqno rt < rt_seqno rt' \<or> rt_seqno rt = rt_seqno rt'
         \<and> (rt_advertised_hops rt = infty \<or> rt_advertised_hops rt' = rt_advertised_hops rt)"
    and "p \<in> set (rt_path_list rt') \<Longrightarrow>
          rt_seqno rt' = rt_seqno rt \<and> (\<exists>q\<in>set (rt_path_list rt). nexthop q = nexthop p \<and> hopcount q = hopcount p)
          \<or> (\<exists>h. (nexthop p, rt_dst rt, rt_seqno rt', h) \<in> C \<and> uint (hopcount p) = uint h + 1)"
    and "hops_small infty rt \<Longrightarrow> hops_small infty rt'"
    and "hops_small infty rt \<Longrightarrow> rt_advertised_hops rt' = infty
           \<or> rt_seqno rt' = rt_seqno rt \<and> rt_advertised_hops rt' = rt_advertised_hops rt
           \<or> supported C rt (rt_seqno rt') (uint (rt_advertised_hops rt'))"
  using assms unfolding entry_step_def by blast+

lemma entry_step_refl [simp]: "entry_step infty C rt rt"
  by (auto simp: entry_step_def)

lemma supported_step:
  assumes e: "entry_step infty C r1 r2" and s: "supported C r2 n k" shows "supported C r1 n k"
  using s unfolding supported_def [of C r2]
proof (elim disjE conjE bexE exE)
  fix p assume p: "n = rt_seqno r2" "p \<in> set (rt_path_list r2)" "uint (hopcount p) = k"
  from entry_stepD(3) [OF e p(2)] p show ?thesis unfolding supported_def by metis
next
  fix y h assume "(y, rt_dst r2, n, h) \<in> C" "k = uint h + 1"
  then show ?thesis using entry_stepD(1) [OF e] unfolding supported_def by metis
qed

lemma entry_step_trans:
  assumes e: "entry_step infty C r1 r2" "entry_step infty C r2 r3" shows "entry_step infty C r1 r3"
proof -
  have "rt_seqno r1 < rt_seqno r3 \<or> rt_seqno r1 = rt_seqno r3
      \<and> (rt_advertised_hops r1 = infty \<or> rt_advertised_hops r3 = rt_advertised_hops r1)"
    using entry_stepD(2) [OF e(1)] entry_stepD(2) [OF e(2)] by (metis order_less_trans)
  moreover have "rt_seqno r3 = rt_seqno r1 \<and> (\<exists>q\<in>set (rt_path_list r1). nexthop q = nexthop p \<and> hopcount q = hopcount p)
      \<or> (\<exists>h. (nexthop p, rt_dst r1, rt_seqno r3, h) \<in> C \<and> uint (hopcount p) = uint h + 1)"
    if "p \<in> set (rt_path_list r3)" for p
    using entry_stepD(1,3) [OF e(1)] entry_stepD(3) [OF e(2) that] by metis
  moreover have "rt_advertised_hops r3 = infty
      \<or> rt_seqno r3 = rt_seqno r1 \<and> rt_advertised_hops r3 = rt_advertised_hops r1
      \<or> supported C r1 (rt_seqno r3) (uint (rt_advertised_hops r3))" if "hops_small infty r1"
    using entry_stepD(5) [OF e(1) that] entry_stepD(5) [OF e(2) entry_stepD(4) [OF e(1) that]]
      supported_step [OF e(1)] by metis
  ultimately show ?thesis
    using entry_stepD(1,4) [OF e(1)] entry_stepD(1,4) [OF e(2)] by (simp add: entry_step_def)
qed

lemma entry_step_mono: "entry_step infty C r r' \<Longrightarrow> C \<subseteq> D \<Longrightarrow> entry_step infty D r r'"
  unfolding entry_step_def supported_def by blast

text \<open>Fewer paths, everything else the same.\<close>

lemma entry_step_subset:
  assumes "rt_dst rt' = rt_dst rt" and "rt_seqno rt' = rt_seqno rt" and "rt_advertised_hops rt' = rt_advertised_hops rt"
    and "\<And>p. p \<in> set (rt_path_list rt') \<Longrightarrow> \<exists>q\<in>set (rt_path_list rt). nexthop q = nexthop p \<and> hopcount q = hopcount p"
  shows "entry_step infty C rt rt'"
proof -
  have "hops_small infty rt \<Longrightarrow> hops_small infty rt'" using assms(3,4) unfolding hops_small_def by metis
  with assms show ?thesis by (simp add: entry_step_def)
qed

section \<open>Promises\<close>

text \<open>
  The history of a node: for every destination and number the hop count it has ever advertised.
  A promise is kept while the number is the current one, and an advertised hop count is promised.
\<close>

type_synonym promises = "nsaddr \<times> u32 \<rightharpoonup> int"

definition keeps :: "u16 \<Rightarrow> eamrp \<Rightarrow> promises \<Rightarrow> bool" where
  "keeps infty s H \<longleftrightarrow> (\<forall>c.
     (\<forall>n h. H (c, n) = Some h \<longrightarrow> n < rt_seqno (entry_at c s)
        \<or> n = rt_seqno (entry_at c s) \<and> rt_advertised_hops (entry_at c s) \<noteq> infty \<and> uint (rt_advertised_hops (entry_at c s)) = h)
     \<and> (rt_advertised_hops (entry_at c s) \<noteq> infty \<longrightarrow>
          H (c, rt_seqno (entry_at c s)) = Some (uint (rt_advertised_hops (entry_at c s)))))"

lemma keepsD:
  assumes "keeps infty s H"
  shows "H (c, n) = Some h \<Longrightarrow> n < rt_seqno (entry_at c s)
        \<or> n = rt_seqno (entry_at c s) \<and> rt_advertised_hops (entry_at c s) \<noteq> infty \<and> uint (rt_advertised_hops (entry_at c s)) = h"
    and "rt_advertised_hops (entry_at c s) \<noteq> infty \<Longrightarrow>
          H (c, rt_seqno (entry_at c s)) = Some (uint (rt_advertised_hops (entry_at c s)))"
  using assms unfolding keeps_def by blast+

text \<open>New promises are supported; what a node has promised are the offers it may make.\<close>

definition grows :: "offer set \<Rightarrow> eamrp \<Rightarrow> promises \<Rightarrow> promises \<Rightarrow> bool" where
  "grows C s H H' \<longleftrightarrow> H \<subseteq>\<^sub>m H'
     \<and> (\<forall>c n h. H' (c, n) = Some h \<longrightarrow> H (c, n) = Some h \<or> supported C (entry_at c s) n h)"

definition promised :: "nsaddr \<Rightarrow> promises \<Rightarrow> offer set" where
  "promised x H = {(x', c, n, h). x' = x \<and> (if c = x then uint h = 0 else H (c, n) = Some (uint h))}"

lemma grows_refl [simp]: "grows C s H H"
  by (simp add: grows_def)

lemma grows_trans:
  assumes "grows C s H H1" and "grows C t H1 H2" and e: "\<And>c. entry_step infty C (entry_at c s) (entry_at c t)"
  shows "grows C s H H2"
  using assms(1,2) supported_step [OF e] map_le_trans unfolding grows_def by metis

lemma promised_mono: "H \<subseteq>\<^sub>m H' \<Longrightarrow> promised x H \<subseteq> promised x H'"
  by (auto simp: promised_def map_le_def dom_def split: if_splits)

lemma keeps_step:
  assumes k: "keeps infty s H" and e: "\<And>c. entry_step infty C (entry_at c s) (entry_at c t)" and sm: "small infty s"
  shows "\<exists>H'. grows C s H H' \<and> keeps infty t H'"
proof -
  let ?n = "\<lambda>c. rt_seqno (entry_at c t)" and ?a = "\<lambda>c. rt_advertised_hops (entry_at c t)"
  let ?H = "\<lambda>(c, n). if H (c, n) \<noteq> None then H (c, n) else if n = ?n c \<and> ?a c \<noteq> infty then Some (uint (?a c)) else None"
  have old: "n < ?n c \<or> n = ?n c \<and> ?a c \<noteq> infty \<and> uint (?a c) = h" if "H (c, n) = Some h" for c n h
    using keepsD(1) [OF k that] entry_stepD(2) [OF e [of c]] by (metis order_less_trans)
  have new: "supported C (entry_at c s) n h" if "H (c, n) = None" "n = ?n c" "?a c \<noteq> infty" "h = uint (?a c)" for c n h
  proof -
    have "hops_small infty (entry_at c s)" using sm by (simp add: small_def)
    from entry_stepD(5) [OF e this] that keepsD(2) [OF k, of c] show ?thesis by auto
  qed
  have "grows C s H ?H"
    unfolding grows_def using new by (auto simp: map_le_def dom_def split: if_splits)
  moreover have "keeps infty t ?H"
    unfolding keeps_def using old by (auto split: if_splits)
  ultimately show ?thesis by blast
qed

section \<open>Honest steps\<close>

definition true_to_word :: "u16 \<Rightarrow> offer set \<Rightarrow> eamrp \<Rightarrow> eamrp \<Rightarrow> bool" where
  "true_to_word infty C s s' \<longleftrightarrow> (\<forall>H. keeps infty s H \<longrightarrow>
     (\<exists>H'. grows C s H H' \<and> keeps infty s' H' \<and> (\<forall>q\<in>sent s'. q \<in> sent s \<or> offers q \<subseteq> promised (index s) H')))"

definition honest :: "u16 \<Rightarrow> offer set \<Rightarrow> eamrp \<Rightarrow> eamrp \<Rightarrow> bool" where
  "honest infty C s s' \<longleftrightarrow> index s' = index s \<and> (\<forall>c. entry_step infty C (entry_at c s) (entry_at c s'))
     \<and> (small infty s \<longrightarrow> true_to_word infty C s s')"

lemma honestD:
  assumes "honest infty C s s'"
  shows "index s' = index s" and "entry_step infty C (entry_at c s) (entry_at c s')"
  using assms unfolding honest_def by blast+

lemma honest_promises:
  assumes "honest infty C s s'" and "small infty s" and "keeps infty s H"
  obtains H' where "grows C s H H'" "keeps infty s' H'" "\<And>q. q \<in> sent s' \<Longrightarrow> q \<in> sent s \<or> offers q \<subseteq> promised (index s) H'"
  using assms unfolding honest_def true_to_word_def by blast

lemma small_step: "small infty s \<Longrightarrow> honest infty C s t \<Longrightarrow> small infty t"
  unfolding small_def using entry_stepD(4) [OF honestD(2)] by blast

text \<open>A step that sends nothing is honest if its entries are.\<close>

lemma honest_quiet:
  assumes "index t = index s" and e: "\<And>c. entry_step infty C (entry_at c s) (entry_at c t)" and "sent t = sent s"
  shows "honest infty C s t"
  using assms keeps_step [OF _ e] unfolding honest_def true_to_word_def by metis

lemma honest_refl [simp]: "honest infty C s s"
  by (rule honest_quiet) simp_all

lemma honest_trans:
  assumes h: "honest infty C s t" "honest infty C t u"
  shows "honest infty C s u"
proof -
  have "true_to_word infty C s u" if sm: "small infty s"
    unfolding true_to_word_def
  proof (intro allI impI)
    fix H assume k: "keeps infty s H"
    obtain H1 where 1: "grows C s H H1" "keeps infty t H1" "\<And>q. q \<in> sent t \<Longrightarrow> q \<in> sent s \<or> offers q \<subseteq> promised (index s) H1"
      using honest_promises [OF h(1) sm k] by blast
    obtain H2 where 2: "grows C t H1 H2" "keeps infty u H2" "\<And>q. q \<in> sent u \<Longrightarrow> q \<in> sent t \<or> offers q \<subseteq> promised (index t) H2"
      using honest_promises [OF h(2) small_step [OF sm h(1)] 1(2)] by blast
    have grow: "grows C s H H2" by (rule grows_trans [OF 1(1) 2(1) honestD(2) [OF h(1)]])
    have mono: "promised (index s) H1 \<subseteq> promised (index s) H2" using 2(1) promised_mono by (simp add: grows_def)
    have "\<forall>q\<in>sent u. q \<in> sent s \<or> offers q \<subseteq> promised (index s) H2"
    proof
      fix q assume "q \<in> sent u"
      with 2(3) honestD(1) [OF h(1)] have "q \<in> sent t \<or> offers q \<subseteq> promised (index s) H2" by simp
      with 1(3) [of q] mono show "q \<in> sent s \<or> offers q \<subseteq> promised (index s) H2" by blast
    qed
    with grow show "\<exists>H'. grows C s H H' \<and> keeps infty u H' \<and> (\<forall>q\<in>sent u. q \<in> sent s \<or> offers q \<subseteq> promised (index s) H')"
      using 2(2) by blast
  qed
  moreover have "entry_step infty C (entry_at c s) (entry_at c u)" for c
    by (rule entry_step_trans [OF honestD(2) [OF h(1)] honestD(2) [OF h(2)]])
  ultimately show ?thesis using honestD(1) [OF h(1)] honestD(1) [OF h(2)] by (simp add: honest_def)
qed

lemma grows_support_mono: "grows C s H H' \<Longrightarrow> C \<subseteq> D \<Longrightarrow> grows D s H H'"
  unfolding grows_def supported_def by blast

lemma honest_mono: "honest infty C s t \<Longrightarrow> C \<subseteq> D \<Longrightarrow> honest infty D s t"
  unfolding honest_def true_to_word_def using entry_step_mono grows_support_mono by metis

lemma sent_out: "out t = out s \<Longrightarrow> sent t = sent s"
  by (simp add: sent_def)

lemma sent_emit [simp]:
  "sent (emit (Scheduled q x) s) = insert q (sent s)" "sent (emit (Dropped p why) s) = sent s"
  "sent (emit (Freed p) s) = sent s" "sent (emit (To_dmux p) s) = sent s" "sent (emit (Timer_set tm x) s) = sent s"
  by (auto simp: sent_def emit_def)

text \<open>A step that changes neither table nor messages, one entry, or sends one message.\<close>

lemma honest_frame: "index t = index s \<Longrightarrow> rtable t = rtable s \<Longrightarrow> sent t = sent s \<Longrightarrow> honest infty C s t"
  using entry_at_rtable [of t s] by (intro honest_quiet) simp_all

lemma honest_put:
  assumes "rt_lookup d (rtable s) = Some rt" and "entry_step infty C rt r"
  shows "honest infty C s (s\<lparr>rtable := rt_put r (rtable s)\<rparr>)"
proof (rule honest_quiet)
  have "rt_dst r = d" using entry_stepD(1) [OF assms(2)] rtl.lookup_key [OF assms(1)] by simp
  then show "entry_step infty C (entry_at c s) (entry_at c (s\<lparr>rtable := rt_put r (rtable s)\<rparr>))" for c
    using entry_at_put [OF assms(1)] entry_at_Some [OF assms(1)] assms(2) by simp
  show "sent (s\<lparr>rtable := rt_put r (rtable s)\<rparr>) = sent s" by (simp add: sent_def)
qed simp

lemma entry_at_emit [simp]: "entry_at c (emit e s) = entry_at c s"
  by (simp add: entry_at_def)

lemma keeps_emit [simp]: "keeps infty (emit e s) H = keeps infty s H"
  by (simp add: keeps_def)

lemma backed_promised:
  assumes k: "keeps infty s H" and sm: "small infty s" and b: "offers_backed s D" shows "D \<subseteq> promised (index s) H"
proof
  fix o' assume o: "o' \<in> D"
  obtain x c n h where o': "o' = (x, c, n, h)" by (metis prod_cases4)
  have x: "x = index s" "backs s c n (uint h)" using b o by (auto simp: offers_backed_def o')
  have "uint h < uint infty" using sm uint_lt2p [of h] by (simp add: small_def)
  then have "rt_advertised_hops (entry_at c s) \<noteq> infty" if "c \<noteq> index s" using x(2) that by (auto simp: backs_def)
  with x keepsD(2) [OF k, of c] show "o' \<in> promised (index s) H" by (auto simp: promised_def backs_def o' split: if_splits)
qed

lemma honest_send_after:
  assumes h: "honest infty C s t" and o: "small infty s \<Longrightarrow> offers_backed t (offers q)"
  shows "honest infty C s (emit (Scheduled q x) t)"
proof -
  have "true_to_word infty C s (emit (Scheduled q x) t)" if sm: "small infty s"
    unfolding true_to_word_def
  proof (intro allI impI)
    fix H assume "keeps infty s H"
    with h sm obtain H' where H': "grows C s H H'" "keeps infty t H'" "\<And>q. q \<in> sent t \<Longrightarrow> q \<in> sent s \<or> offers q \<subseteq> promised (index s) H'"
      using honest_promises by blast
    have "offers q \<subseteq> promised (index s) H'"
      using backed_promised [OF H'(2) small_step [OF sm h] o [OF sm]] honestD(1) [OF h] by simp
    with H' show "\<exists>H'. grows C s H H' \<and> keeps infty (emit (Scheduled q x) t) H'
        \<and> (\<forall>r\<in>sent (emit (Scheduled q x) t). r \<in> sent s \<or> offers r \<subseteq> promised (index s) H')"
      by (intro exI [of _ H']) auto
  qed
  with honestD [OF h] show ?thesis by (simp add: honest_def)
qed

lemma honest_send: "(small infty s \<Longrightarrow> offers_backed s (offers q)) \<Longrightarrow> honest infty C s (emit (Scheduled q x) s)"
  by (rule honest_send_after) simp_all

lemma sent_frame [simp]:
  "sent (s\<lparr>rqueue := q\<rparr>) = sent s" "sent (s\<lparr>bihead := b\<rparr>) = sent s" "sent (s\<lparr>nbhead := h\<rparr>) = sent s"
  "sent (s\<lparr>ifqueue := f\<rparr>) = sent s" "sent (s\<lparr>draws := d\<rparr>) = sent s" "sent (s\<lparr>bid := i\<rparr>) = sent s"
  "sent (s\<lparr>seqno := n\<rparr>) = sent s" "sent (s\<lparr>rtable := t\<rparr>) = sent s"
  by (simp_all add: sent_def)

lemma honest_cong:
  assumes "rtable t' = rtable t" and "index t' = index t" and "sent t' = sent t"
  shows "honest infty C s t' = honest infty C s t"
proof -
  have "entry_at c t' = entry_at c t" for c by (rule entry_at_rtable [OF assms(1)])
  then show ?thesis using assms(2,3) by (simp add: honest_def true_to_word_def keeps_def)
qed

lemma honest_rqueue [simp]: "honest infty C s (t\<lparr>rqueue := q\<rparr>) = honest infty C s t"
  by (rule honest_cong) simp_all

lemma honest_freed [simp]:
  "honest infty C s (emit (Freed p) t) = honest infty C s t" "honest infty C s (emit (Dropped p why) t) = honest infty C s t"
  "honest infty C s (emit (Timer_set tm x) t) = honest infty C s t"
  by (rule honest_cong; simp)+

end
