(* ===== verification/OfferSteps.thy ===== *)
theory OfferSteps
  imports Offers
begin

text \<open>
  Honesty of transmission, of the node's own messages, of broken routes and of the timers.
\<close>

section \<open>Entries\<close>

lemma entry_step_fields [simp]:
  "entry_step infty C rt (r\<lparr>rt_error := e\<rparr>) = entry_step infty C rt r"
  "entry_step infty C rt (r\<lparr>rt_req_timeout := t\<rparr>) = entry_step infty C rt r"
  "entry_step infty C rt (r\<lparr>rt_req_cnt := k\<rparr>) = entry_step infty C rt r"
  "entry_step infty C rt (r\<lparr>rt_req_last_ttl := l\<rparr>) = entry_step infty C rt r"
  "entry_step infty C rt (r\<lparr>rt_expire := x\<rparr>) = entry_step infty C rt r"
  "entry_step infty C rt (r\<lparr>rt_last_hop_count := y\<rparr>) = entry_step infty C rt r"
  "entry_step infty C rt (r\<lparr>rt_highest_seqno_heard := n\<rparr>) = entry_step infty C rt r"
  "entry_step infty C rt (r\<lparr>rt_hops := g\<rparr>) = entry_step infty C rt r"
  unfolding entry_step_def hops_small_def by simp_all

lemma entry_step_expire [simp]: "entry_step infty C rt (set_head_expire t rt)"
  by (rule entry_step_subset) (auto simp: set_head_expire_def split: list.splits)

lemma entry_step_reset [simp]: "entry_step infty C rt (reset_soft_state rt)"
  by (simp add: reset_soft_state_def)

lemma entry_step_delete [simp]: "entry_step infty C rt (path_delete a rt)"
  by (rule entry_step_subset) (auto simp: path_delete_def split: option.splits dest: in_remove_firstD)

lemma entry_step_purge [simp]: "entry_step infty C rt (path_purge clock rt)"
  by (rule entry_step_subset) (auto simp: path_purge_filter)

text \<open>The hop count advertised is that of a path.\<close>

lemma max_hopcount_of_path:
  assumes p: "p \<in> set (rt_path_list rt)" "1 \<le> uint (hopcount p)"
  shows "\<exists>q\<in>set (rt_path_list rt). hopcount q = path_get_max_hopcount rt"
proof -
  have "max_hop_scan (rt_path_list rt) 0 \<noteq> 0"
    using max_hop_scan_upper [OF p(1), of 0] p(2) by (auto simp: word_le_def)
  with max_hop_scan_mem [of "rt_path_list rt" 0] show ?thesis by (auto simp: path_get_max_hopcount_def Let_def)
qed

lemma entry_step_advertise:
  assumes E: "infty_is infty E" and ne: "rt_path_list rt \<noteq> []" shows "entry_step infty C rt (advertise E rt)"
proof (cases "rt_advertised_hops rt = infty")
  case True
  let ?m = "path_get_max_hopcount rt"
  have adv: "advertise E rt = rt\<lparr>rt_advertised_hops := ?m\<rparr>" using E True by (simp add: advertise_def infty_is_def)
  have ok: "hops_small infty (advertise E rt) \<and> supported C rt (rt_seqno rt) (uint ?m)" if s: "hops_small infty rt"
  proof -
    obtain p where p: "p \<in> set (rt_path_list rt)" using ne by (cases "rt_path_list rt") auto
    with s have "1 \<le> uint (hopcount p)" by (simp add: hops_small_def)
    from max_hopcount_of_path [OF p this] obtain q where q: "q \<in> set (rt_path_list rt)" "?m = hopcount q" by metis
    then have "uint ?m \<le> 255" using s by (simp add: hops_small_def)
    moreover have "supported C rt (rt_seqno rt) (uint ?m)" using q by (auto simp: supported_def)
    ultimately show ?thesis using s by (simp add: hops_small_def adv)
  qed
  have "\<exists>q\<in>set (rt_path_list rt). nexthop q = nexthop p \<and> hopcount q = hopcount p" if "p \<in> set (rt_path_list rt)" for p
    using that by blast
  with ok True show ?thesis by (simp add: entry_step_def adv)
next
  case False
  with E show ?thesis by (simp add: advertise_def infty_is_def)
qed

text \<open>A route that goes down has a newer number.\<close>

lemma entry_step_down:
  assumes "infty_is infty E" and "rt_seqno rt < rt_seqno r" and "rt_flags r = RTF_UP" and "rt_dst r = rt_dst rt"
  shows "entry_step infty C rt (rt_down E r)"
  using assms by (simp add: entry_step_def rt_down_def path_delete_all_def hops_small_def infty_is_def rtf_distinct)

section \<open>Transmission\<close>

lemma offers_backed_emit [simp]: "offers_backed (emit e s) C = offers_backed s C"
  by (simp add: offers_backed_def backs_def)

lemma same_numbers_frame: "index t = index s \<Longrightarrow> rtable t = rtable s \<Longrightarrow> same_numbers s t"
  using entry_at_rtable [of t s] by (simp add: same_numbers_def)

lemma expire_advertised [simp]: "rt_advertised_hops (set_head_expire t rt) = rt_advertised_hops rt"
  by (auto simp: set_head_expire_def split: list.split)

text \<open>Changing fields other than the number and the advertised hop count.\<close>

lemma same_numbers_put:
  assumes "rt_lookup d (rtable s) = Some rt" and "rt_dst r = rt_dst rt" and "rt_seqno r = rt_seqno rt"
    and "rt_advertised_hops r = rt_advertised_hops rt"
  shows "same_numbers s (s\<lparr>rtable := rt_put r (rtable s)\<rparr>)"
  using assms entry_at_put [OF assms(1), of r] entry_at_Some [OF assms(1)] rtl.lookup_key [OF assms(1)]
  by (simp add: same_numbers_def)

lemma offers_frame [simp]:
  "offers (p\<lparr>ch_addr_type := a\<rparr>) = offers p" "offers (p\<lparr>ch_next_hop := n\<rparr>) = offers p"
  "offers (p\<lparr>ch_direction := d\<rparr>) = offers p"
  by (simp_all add: offers_def split: hdr_all_eamrp.split)

lemma forward_broadcast_honest:
  assumes f: "forward E None p delay s = Inr s'" and o: "small infty s \<Longrightarrow> offers_backed s (offers p)"
  shows "honest infty C s s'"
proof -
  have "honest infty C s (emit (Scheduled q x) (s\<lparr>draws := n\<rparr>))" if "offers q = offers p" for q x n
    using o that offers_backed_same [OF same_numbers_frame [of "s\<lparr>draws := n\<rparr>" s]]
    by (intro honest_send_after honest_frame) auto
  then show ?thesis using f
    by (auto simp: forward_def assertE_def Let_def split: if_splits intro: honest_frame)
qed

lemma forward_route_honest:
  assumes f: "forward E (Some d) p delay s = Inr s'" and o: "small infty s \<Longrightarrow> offers_backed s (offers p)"
  shows "honest infty C s s'"
proof -
  have quiet: "honest infty C s (emit (Dropped p why) s)" "honest infty C s (emit (To_dmux p) s)" for why
    by (rule honest_frame; simp)+
  show ?thesis
  proof (cases "rt_lookup d (rtable s)")
    case None
    with f quiet show ?thesis by (auto simp: forward_def split: if_splits)
  next
    case (Some rt)
    let ?r = "if ih_saddr p \<noteq> index s \<and> DATA_PACKET (ch_ptype p)
      then (set_head_expire (now E + ACTIVE_ROUTE_TIMEOUT) rt)\<lparr>rt_error := True\<rparr>
      else set_head_expire (now E + ACTIVE_ROUTE_TIMEOUT) rt"
    have h: "honest infty C s (s\<lparr>rtable := rt_put ?r (rtable s)\<rparr>)" by (intro honest_put [OF Some]) simp
    have "honest infty C s (emit (Scheduled q x) (s\<lparr>rtable := rt_put ?r (rtable s)\<rparr>))" if "offers q = offers p" for q x
      using o that offers_backed_same [OF same_numbers_put [OF Some, of ?r]] by (intro honest_send_after [OF h]) auto
    with f quiet Some show ?thesis
      by (auto simp: forward_def assertE_def Let_def split: if_splits option.splits)
  qed
qed

lemma forward_honest:
  "forward E r p delay s = Inr s' \<Longrightarrow> (small infty s \<Longrightarrow> offers_backed s (offers p)) \<Longrightarrow>
     honest infty C s s'"
  by (cases r) (auto intro: forward_broadcast_honest forward_route_honest)

lemma forward_data_honest:
  assumes "forward E r p delay s = Inr s'" and "ch_ptype p \<noteq> PT_EAMRP"
  shows "honest infty C s s'"
  using forward_honest [OF assms(1)] assms(2) by simp

section \<open>The send buffer\<close>

lemma fold_drops_honest:
  "honest infty C s t \<Longrightarrow> honest infty C s (fold (\<lambda>(r, why). emit (Dropped r why)) ds t)"
  by (induction ds arbitrary: t) auto

lemma buffer_honest: "buffer_packet E p s = Inr s' \<Longrightarrow> honest infty C s s'"
  by (auto simp: buffer_packet_def dest!: bindE_InrD intro!: fold_drops_honest)

lemma drain_drop_frame:
  "drain_drop E d why s = Inr s' \<Longrightarrow> rtable s' = rtable s \<and> index s' = index s \<and> sent s' = sent s"
  by (auto simp: drain_drop_eq Let_def sent_def)

lemma drain_honest:
  assumes buf: "buffer_ok (rqueue s)"
    and act: "\<And>p a t x. act p (a, t) = Inr x \<Longrightarrow> ch_ptype p \<noteq> PT_EAMRP \<Longrightarrow>
      honest infty C t (snd x) \<and> rqueue (snd x) = rqueue t"
    and run: "drain_all E d act a s = Inr (a', s')"
  shows "honest infty C s s'"
proof -
  let ?I = "\<lambda>x. buffer_ok (rqueue (snd x)) \<and> honest infty C s (snd x)"
  have "safe UNIV (\<lambda>x. ?I x \<and> rqueue (snd x) = rqueue t) (act p (a, t))"
    if "?I (a, t)" "ch_ptype p \<noteq> PT_EAMRP" for p a t
    using act [of p a t] that honest_trans by (cases "act p (a, t)") auto
  then have "safe UNIV ?I (drain_all E d act a s)"
    using buf by (intro drain_all_ok) auto
  with run show ?thesis by simp
qed

lemma flush_honest:
  assumes f: "flush_buffer E d s = Inr s'" and buf: "buffer_ok (rqueue s)"
  shows "honest infty C s s'"
proof -
  let ?act = "\<lambda>p (u, t). case rt_lookup d (rtable t) of None \<Rightarrow> Inl Null_deref
    | Some rt1 \<Rightarrow> if rt_flags rt1 = RTF_UP
        then bindE (forward E (Some d) p NO_EAMRP_DELAY t) (\<lambda>t1. Inr (u, t1)) else Inr (u, t)"
  have act: "honest infty C t (snd x) \<and> rqueue (snd x) = rqueue t"
    if "?act p (a, t) = Inr x" "ch_ptype p \<noteq> PT_EAMRP" for p t x and a :: unit
    using that
    by (auto dest!: bindE_InrD dest: forward_data_honest forward_rqueue split: option.splits if_splits)
  show ?thesis
  proof (cases "\<exists>rt. rt_lookup d (rtable s) = Some rt \<and> rt_flags rt = RTF_UP")
    case True
    then obtain rt where rt: "rt_lookup d (rtable s) = Some rt" "rt_flags rt = RTF_UP" by blast
    let ?s = "s\<lparr>rtable := rt_put (reset_soft_state rt) (rtable s)\<rparr>"
    obtain u where "drain_all E d ?act () ?s = Inr (u, s')"
      using f rt by (auto simp: flush_buffer_def dest!: bindE_InrD)
    from drain_honest [OF _ act this] buf have "honest infty C ?s s'" by simp
    moreover have "honest infty C s ?s" using rt(1) by (auto intro: honest_put)
    ultimately show ?thesis using honest_trans by blast
  qed (use f in \<open>auto simp: flush_buffer_def split: option.splits if_splits\<close>)
qed

section \<open>Messages of the node itself\<close>

lemma offers_about_itself: "offers_backed s {(index s, index s, n, 0)}"
  by (simp add: offers_backed_def backs_def)

lemma sendRequest_honest:
  assumes f: "sendRequest E d s = Inr s'"
  shows "honest infty C s s'"
proof -
  obtain rt where rt: "rt_lookup d (rtable s) = Some rt"
    using f by (auto simp: sendRequest_def split: option.splits)
  obtain ttl rt1 where r: "ring_ttl rt = (ttl, rt1)" by (cases "ring_ttl rt")
  let ?rt2 = "rt1\<lparr>rt_req_timeout := req_timeout E ttl rt1, rt_expire := 0\<rparr>"
  let ?s1 = "s\<lparr>rtable := rt_put ?rt2 (rtable s)\<rparr>"
  let ?s3 = "?s1\<lparr>bid := bid s + 1, seqno := seqno s + 2\<rparr>"
  let ?r0 = "rt\<lparr>rt_req_timeout := now E + MAX_RREQ_TIMEOUT, rt_req_cnt := 0\<rparr>"
  let ?s0 = "s\<lparr>rtable := rt_put ?r0 (rtable s)\<rparr>"
  have "entry_step infty C rt rt1"
    using r by (auto simp: ring_ttl_def Let_def split: if_splits prod.splits)
  then have s1: "honest infty C s ?s1" by (intro honest_put [OF rt]) simp
  have s0: "honest infty C s ?s0" by (rule honest_put [OF rt]) simp
  have drained: "honest infty C s u" if "drain_drop E (rt_dst rt) why ?s0 = Inr u" for u why
    using honest_cong [of u ?s0 infty C s] drain_drop_frame [OF that] s0 by blast
  consider "honest infty C s s'" | "s' = emit (Scheduled (rreq_packet E d ?rt2 ttl s) 0) ?s3"
    using f rt r drained by (auto simp: sendRequest_def Let_def assertE_def dest!: bindE_InrD split: if_splits)
  then show ?thesis
  proof cases
    case 2
    have "honest infty C s ?s3" using s1 honest_cong [of ?s3 ?s1] by simp
    moreover have "offers (rreq_packet E d ?rt2 ttl s) = {(index ?s3, index ?s3, seqno s + 2, 0)}"
      by (simp add: offers_def rreq_packet_def Let_def)
    ultimately show ?thesis using offers_about_itself [of ?s3] unfolding 2 by (intro honest_send_after) simp_all
  qed
qed

lemma sendReply_honest:
  assumes h: "honest infty C s t" and o: "small infty s \<Longrightarrow> backs t rpdst n (uint (ucast hc :: u8))"
  shows "honest infty C s (sendReply E ipdst hc rpdst n lt ts nh b fh t)"
  unfolding sendReply_def Let_def using o
  by (intro honest_send_after [OF h]) (simp add: offers_def offers_backed_def)

lemma sendError_honest:
  assumes h: "honest infty C s t" shows "honest infty C s (sendError E re jitter t)"
proof -
  have send: "honest infty C s (emit (Scheduled p x) (t\<lparr>draws := n\<rparr>))" if "offers p = {}" for p x n
    using h honest_cong [of "t\<lparr>draws := n\<rparr>" t] that by (intro honest_send_after) simp_all
  show ?thesis
    using send [of _ _ "draws t"] send by (cases jitter) (simp_all add: sendError_def Let_def offers_def)
qed

lemma sendHello_honest: "honest infty C s (sendHello E s)"
  unfolding sendHello_def Let_def using offers_about_itself [of s]
  by (intro honest_send) (simp add: offers_def)

lemma ensure_honest: "ensure_rt E d s = Inr s' \<Longrightarrow> honest infty C s s'"
proof (cases "rt_lookup d (rtable s)")
  case None
  assume "ensure_rt E d s = Inr s'"
  then have s': "s' = s\<lparr>rtable := (new_rt_entry (uninit16 E))\<lparr>rt_dst := d\<rparr> # rtable s\<rparr>"
    using None by (simp add: ensure_rt_def rt_add_def assertE_def)
  have "entry_at c s' = (if c = d then (new_rt_entry (uninit16 E))\<lparr>rt_dst := d\<rparr> else entry_at c s)" for c
    by (simp add: s' entry_at_def)
  moreover have "entry_at d s = (new_rt_entry 0)\<lparr>rt_dst := d\<rparr>" using None by (simp add: entry_at_def)
  moreover have "entry_step infty C ((new_rt_entry 0)\<lparr>rt_dst := d\<rparr>) ((new_rt_entry g)\<lparr>rt_dst := d\<rparr>)" for g
    by (rule entry_step_subset) (simp_all add: new_rt_entry_def)
  ultimately have "entry_step infty C (entry_at c s) (entry_at c s')" for c by simp
  then show ?thesis using s' by (intro honest_quiet) (simp_all add: sent_def)
qed (auto simp: ensure_rt_def)

section \<open>Routes that break\<close>

lemma even_succ_greater: "even (n :: u32) \<Longrightarrow> n < n + 1"
  by (simp add: word_less_nat_alt unat_succ_even)

lemma link_failure_entry_honest:
  assumes f: "link_failure_entry E nb re rt = Inr (re', rt')" and E: "infty_is infty E"
  shows "entry_step infty C rt rt'"
proof (cases "rt_flags rt = RTF_UP \<and> path_lookup nb rt \<noteq> None")
  case False
  with f show ?thesis by (auto simp: link_failure_entry_def)
next
  case True
  let ?rt1 = "path_delete nb rt" and ?n = "max (rt_seqno (path_delete nb rt) + 1) (rt_highest_seqno_heard (path_delete nb rt))"
  have sel: "rt_flags ?rt1 = RTF_UP" "rt_seqno ?rt1 = rt_seqno rt" "rt_dst ?rt1 = rt_dst rt"
    using True by (simp_all add: path_delete_def split: option.splits)
  consider "rt' = ?rt1" | r where "even (rt_seqno rt)" "rt' = rt_down E r" "rt_seqno r = ?n" "rt_flags r = RTF_UP" "rt_dst r = rt_dst rt"
    using f True sel
    by (auto simp: link_failure_entry_def Let_def assertE_def dest!: bindE_InrD split: if_splits)
  then show ?thesis
  proof cases
    case 2
    have "rt_seqno rt < ?n" using even_succ_greater [OF 2(1)] sel(2) by (simp add: less_max_iff_disj)
    with 2 E show ?thesis by (simp add: entry_step_down)
  qed simp
qed

lemma link_failure_walk_honest:
  "link_failure_walk E nb re rts = Inr (re', rts') \<Longrightarrow> infty_is infty E \<Longrightarrow> list_all2 (entry_step infty C) rts rts'"
  by (induction rts arbitrary: re re' rts') (auto dest!: bindE_InrD intro: link_failure_entry_honest)

lemma lookup_entry_step:
  "list_all2 (entry_step infty C) rts rts' \<Longrightarrow>
     rel_option (entry_step infty C) (rt_lookup c rts) (rt_lookup c rts')"
  by (induction rule: list_all2_induct) (auto simp: entry_step_def)

lemma honest_table:
  assumes "list_all2 (entry_step infty C) (rtable s) t" shows "honest infty C s (s\<lparr>rtable := t\<rparr>)"
proof -
  have "entry_step infty C (entry_at c s) (entry_at c (s\<lparr>rtable := t\<rparr>))" for c
    using lookup_entry_step [OF assms, of c] by (auto simp: entry_at_def option_rel_Some1 split: option.splits)
  then show ?thesis by (intro honest_quiet) simp_all
qed

lemma handle_link_failure_honest:
  assumes f: "handle_link_failure E nb s = Inr s'" and E: "infty_is infty E"
  shows "honest infty C s s'"
proof -
  obtain re t where w: "link_failure_walk E nb re_empty (rtable s) = Inr (re, t)"
    and s': "s' = (if DestCount re > 0 then sendError E re False (s\<lparr>rtable := t\<rparr>)
        else emit (Freed (packet_alloc\<lparr>hdr := Rerr re\<rparr>)) (s\<lparr>rtable := t\<rparr>))"
    using f by (auto simp: handle_link_failure_def Let_def dest!: bindE_InrD)
  have "honest infty C s (s\<lparr>rtable := t\<rparr>)" by (rule honest_table [OF link_failure_walk_honest [OF w E]])
  then show ?thesis by (simp add: s' sendError_honest)
qed

section \<open>Resolving and salvaging\<close>

lemma resolve_with_honest:
  assumes p: "ch_ptype p \<noteq> PT_EAMRP" and f: "resolve_with E p rt s = Inr s'"
  shows "honest infty C s s'"
proof -
  consider (fwd) "forward E (Some (rt_dst rt)) p NO_EAMRP_DELAY s = Inr s'"
    | (req) s1 where "buffer_packet E p s = Inr s1" "sendRequest E (rt_dst rt) s1 = Inr s'"
    | (buf) "buffer_packet E p s = Inr s'"
    | (err) re where "s' = emit (Dropped p DROP_RTR_NO_ROUTE) (sendError E re False s)"
    using f by (auto simp: resolve_with_def assertE_def dest!: bindE_InrD split: if_splits)
  then show ?thesis
  proof cases
    case fwd
    then show ?thesis by (rule forward_data_honest [OF _ p])
  next
    case req
    show ?thesis by (rule honest_trans [OF buffer_honest [OF req(1)] sendRequest_honest [OF req(2)]])
  next
    case buf
    then show ?thesis by (rule buffer_honest)
  next
    case err
    then show ?thesis by (simp add: sendError_honest)
  qed
qed

lemma rt_resolve_honest:
  assumes p: "ch_ptype p \<noteq> PT_EAMRP" and f: "rt_resolve E p s = Inr s'"
  shows "honest infty C s s'"
proof -
  let ?p = "p\<lparr>ch_xmit_failure := Some Eamrp_rt_failed_callback\<rparr>"
  obtain s1 rt where e: "ensure_rt E (ih_daddr p) s = Inr s1" and r: "resolve_with E ?p rt s1 = Inr s'"
    using f by (auto simp: rt_resolve_def Let_def dest!: bindE_InrD split: option.splits)
  have "honest infty C s1 s'" using p by (intro resolve_with_honest [OF _ r]) simp
  with ensure_honest [OF e] show ?thesis by (rule honest_trans)
qed

lemma salvage_honest:
  assumes f: "salvage why E p s = Inr s'"
  shows "honest infty C s s'"
  using forward_data_honest [of E "Some (ih_daddr p)" "p\<lparr>ch_eamrp_salvage_count := ch_eamrp_salvage_count p + 1\<rparr>"
      NO_EAMRP_DELAY s s' infty C] data_not_eamrp [of "ch_ptype p"] f
  by (auto simp: salvage_def split: if_splits option.splits)

lemma honest_ifqueue: "honest infty C s (s\<lparr>ifqueue := q\<rparr>)"
  by (rule honest_frame) simp_all

lemma salvage_loop_honest:
  "salvage_loop n why E nb s = Inr s' \<Longrightarrow> honest infty C s s'"
proof (induction n arbitrary: s)
  case 0
  then show ?case
    by (subst (asm) salvage_loop.simps) (auto intro: honest_ifqueue split: option.splits prod.splits)
next
  case (Suc n)
  obtain q where q: "ifqueue s = Some q" using Suc.prems(1)
    by (subst (asm) salvage_loop.simps) (auto split: option.splits)
  consider x where "s' = s\<lparr>ifqueue := x\<rparr>"
    | p x s1 where "salvage why E p (s\<lparr>ifqueue := x\<rparr>) = Inr s1" "salvage_loop n why E nb s1 = Inr s'"
    using Suc.prems(1) q by (subst (asm) salvage_loop.simps)
      (auto dest!: bindE_InrD split: option.splits prod.splits)
  then show ?case
  proof cases
    case 1
    then show ?thesis by (simp add: honest_ifqueue)
  next
    case 2
    from honest_trans [OF honest_trans [OF honest_ifqueue salvage_honest [OF 2(1)]] Suc.IH [OF 2(2)]] show ?thesis .
  qed
qed

lemma nb_delete_honest:
  assumes f: "nb_delete E a s = Inr s'" and E: "infty_is infty E"
  shows "honest infty C s s'"
proof -
  let ?s2 = "s\<lparr>seqno := seqno s + 2, nbhead := remove_first (\<lambda>nb. nb_addr nb = a) (nbhead s)\<rparr>"
  obtain s3 n where h: "handle_link_failure E a ?s2 = Inr s3" and l: "salvage_loop n DROP_RTR_HELLO E a s3 = Inr s'"
    using f by (auto simp: nb_delete_def Let_def assertE_def dest!: bindE_InrD split: if_splits)
  have "honest infty C s ?s2" by (rule honest_frame) simp_all
  with handle_link_failure_honest [OF h E] salvage_loop_honest [OF l] show ?thesis
    using honest_trans by blast
qed

section \<open>Timers\<close>

lemma foldE_honest:
  assumes step: "\<And>x y z. J y \<Longrightarrow> f x y = Inr z \<Longrightarrow> J z \<and> honest infty C (g y) (g z)"
  shows "J y \<Longrightarrow> foldE f xs y = Inr z \<Longrightarrow> honest infty C (g y) (g z)"
proof (induction xs arbitrary: y)
  case (Cons x xs)
  then obtain y1 where y1: "f x y = Inr y1" "foldE f xs y1 = Inr z" by (auto dest!: bindE_InrD)
  have "J y1" "honest infty C (g y) (g y1)" using step [OF Cons.prems(1) y1(1)] by simp_all
  with honest_trans [OF _ Cons.IH [OF _ y1(2)]] show ?case by blast
qed simp

lemma nb_purge_honest:
  assumes f: "nb_purge E s = Inr s'" and E: "infty_is infty E"
  shows "honest infty C s s'"
proof -
  have "honest infty C (id s) (id s')"
    by (rule foldE_honest [of "\<lambda>_. True", OF _ _ f [unfolded nb_purge_def]])
      (use nb_delete_honest [OF _ E] in \<open>auto split: if_splits\<close>)
  then show ?thesis by simp
qed

lemma purge_down_honest:
  assumes inv: "node_inv s" and rt: "rt_lookup d (rtable s) = Some rt" and up: "rt_flags rt = RTF_UP" and E: "infty_is infty E"
    and dr: "drain_drop E d why (s\<lparr>rtable := rt_put (path_purge (now E) rt) (rtable s)\<rparr>) = Inr s2"
    and u: "upd_rt d (\<lambda>r. let n = max (rt_seqno r + 1) (rt_highest_seqno_heard r)
        in rt_down E (r\<lparr>rt_seqno := if even n then n + 1 else n\<rparr>)) s2 = Inr s'"
  shows "honest infty C s s'"
proof -
  let ?rt1 = "path_purge (now E) rt"
  let ?n = "max (rt_seqno rt + 1) (rt_highest_seqno_heard rt)"
  let ?r = "rt_down E (?rt1\<lparr>rt_seqno := ?n\<rparr>)"
  have dst: "rt_dst rt = d" by (rule rtl.lookup_key [OF rt])
  note fr = drain_drop_frame [OF dr]
  have l: "rt_lookup d (rtable s2) = Some ?rt1" using rt dst fr by (simp add: rtl.lookup_put)
  note ok = table_entry(1) [OF node_invD(3) [OF inv] rt]
  have ev: "even (rt_seqno rt)" by (rule entry_okD(7) [OF ok up])
  have "odd ?n" using ev entry_okD(10) [OF ok] by (intro max_odd_or_zero) (simp_all add: odd_or_zero_def)
  then have s': "s' = s2\<lparr>rtable := rt_put ?r (rtable s2)\<rparr>"
    using u l by (simp add: upd_rt_def Let_def odd_even_choice)
  have "rt_seqno rt < ?n" using even_succ_greater [OF ev] by (simp add: less_max_iff_disj)
  then have "honest infty C s (s\<lparr>rtable := rt_put ?r (rtable s)\<rparr>)"
    using up E by (intro honest_put [OF rt] entry_step_down) simp_all
  then show ?thesis using honest_cong [of s' "s\<lparr>rtable := rt_put ?r (rtable s)\<rparr>" infty C s] fr by (simp add: s')
qed

lemma rt_purge_step_honest:
  assumes inv: "node_inv s" and f: "rt_purge_step E d (delay, s) = Inr (delay', s')" and E: "infty_is infty E"
  shows "honest infty C s s'"
proof -
  obtain rt where rt: "rt_lookup d (rtable s) = Some rt"
    using f by (auto simp: rt_purge_step_def split: option.splits)
  let ?s1 = "s\<lparr>rtable := rt_put (path_purge (now E) rt) (rtable s)\<rparr>"
  let ?act = "\<lambda>p (dl, t). bindE (forward E (Some d) p dl t) (\<lambda>t1. Inr (dl + ARP_DELAY, t1))"
  consider (down) s2 where "rt_flags rt = RTF_UP" "drain_drop E d DROP_RTR_RTEXPIRE ?s1 = Inr s2"
      "upd_rt d (\<lambda>r. let n = max (rt_seqno r + 1) (rt_highest_seqno_heard r)
        in rt_down E (r\<lparr>rt_seqno := if even n then n + 1 else n\<rparr>)) s2 = Inr s'"
    | (purged) "s' = ?s1"
    | (fwd) "drain_all E d ?act delay s = Inr (delay', s')"
    | (req) "sendRequest E d s = Inr s'"
    | (idle) "s' = s"
    using f rt by (auto simp: rt_purge_step_def Let_def assertE_def dest!: bindE_InrD split: if_splits)
  then show ?thesis
  proof cases
    case down
    then show ?thesis by (intro purge_down_honest [OF inv rt _ E])
  next
    case purged
    have "honest infty C s ?s1" by (rule honest_put [OF rt]) simp
    with purged show ?thesis by simp
  next
    case fwd
    have act: "honest infty C t (snd x) \<and> rqueue (snd x) = rqueue t"
      if "?act p (a, t) = Inr x" "ch_ptype p \<noteq> PT_EAMRP" for p a t x
      using that by (auto dest!: bindE_InrD dest: forward_data_honest forward_rqueue)
    from drain_honest [OF node_invD(4) [OF inv] act fwd] show ?thesis .
  next
    case req
    then show ?thesis by (rule sendRequest_honest)
  qed simp
qed

lemma rt_purge_honest:
  assumes inv: "node_inv s" and f: "rt_purge E s = Inr s'" and E: "infty_is infty E"
  shows "honest infty C s s'"
proof -
  obtain dl where fold: "foldE (rt_purge_step E) (map rt_dst (rtable s)) (0, s) = Inr (dl, s')"
    using f by (auto simp: rt_purge_def dest!: bindE_InrD)
  have step: "node_inv (snd z) \<and> honest infty C (snd y) (snd z)"
    if "node_inv (snd y)" "rt_purge_step E d y = Inr z" for d y z
  proof -
    obtain dl1 t1 where y: "y = (dl1, t1)" by (cases y)
    obtain dl2 t2 where z: "z = (dl2, t2)" by (cases z)
    have st: "rt_purge_step E d (dl1, t1) = Inr (dl2, t2)" and t1: "node_inv t1" using that y z by simp_all
    obtain rt where "rt_lookup d (rtable t1) = Some rt"
      using st by (auto simp: rt_purge_step_def split: option.splits)
    from safe_InrD [OF rt_purge_step_ok [OF t1 this] st] rt_purge_step_honest [OF t1 st E] show ?thesis
      by (simp add: y z)
  qed
  have "honest infty C (snd (0 :: time, s)) (snd (dl, s'))"
    by (rule foldE_honest [of "\<lambda>x. node_inv (snd x)", OF step _ fold]) (use inv in simp_all)
  then show ?thesis by simp
qed

lemma hello_timer_honest:
  assumes "hello_timer E s = Inr s'" shows "honest infty C s s'"
proof -
  let ?s1 = "if rt_has_active_route (rtable s) then sendHello E s else s"
  obtain t where s': "s' = emit (Timer_set Htimer t) (?s1\<lparr>draws := Suc (draws ?s1)\<rparr>)"
    using assms by (auto simp: hello_timer_def Let_def dest!: bindE_InrD)
  have "honest infty C s ?s1" using sendHello_honest by simp
  then show ?thesis using honest_cong [of "?s1\<lparr>draws := Suc (draws ?s1)\<rparr>" ?s1 infty C s] by (simp only: s' honest_freed) simp
qed

end
