(* ===== verification/RouteSteps.thy ===== *)
theory RouteSteps
  imports AgentFlow Machine
begin

text \<open>
  What one node does with a message of a route discovery: a request it has not seen sets up the
  route to the source and is rebroadcast or answered, a reply sets up the route to the
  destination and is relayed to where the request came from.
\<close>

section \<open>What a node knows of a destination\<close>

text \<open>The part of an entry that decides where packets go: flag, sequence number, next hops.\<close>

definition outline :: "eamrp_rt_entry \<Rightarrow> u8 \<times> u32 \<times> nsaddr list" where
  "outline rt = (rt_flags rt, rt_seqno rt, map nexthop (rt_path_list rt))"

definition route_of :: "nsaddr \<Rightarrow> eamrp \<Rightarrow> (u8 \<times> u32 \<times> nsaddr list) option" where
  "route_of c s = map_option outline (rt_lookup c (rtable s))"

definition known_seqno :: "nsaddr \<Rightarrow> eamrp \<Rightarrow> u32" where
  "known_seqno c s = (case route_of c s of None \<Rightarrow> 0 | Some (f, n, hops) \<Rightarrow> n)"

text \<open>The node has a route to \<open>d\<close>, along the single next hop \<open>nb\<close>.\<close>

definition route_via :: "nsaddr \<Rightarrow> nsaddr \<Rightarrow> eamrp \<Rightarrow> bool" where
  "route_via d nb s \<longleftrightarrow> (\<exists>n. route_of d s = Some (RTF_UP, n, [nb]))"

definition no_route :: "nsaddr \<Rightarrow> eamrp \<Rightarrow> bool" where
  "no_route d s \<longleftrightarrow> (\<forall>f n hops. route_of d s = Some (f, n, hops) \<longrightarrow> f \<noteq> RTF_UP)"

lemma route_of_frame [simp]:
  "route_of c (emit e s) = route_of c s" "route_of c (s\<lparr>rqueue := q\<rparr>) = route_of c s"
  "route_of c (s\<lparr>bihead := b\<rparr>) = route_of c s" "route_of c (s\<lparr>seqno := n\<rparr>) = route_of c s"
  "route_of c (s\<lparr>draws := d\<rparr>) = route_of c s" "route_of c (s\<lparr>bid := i\<rparr>) = route_of c s"
  by (simp_all add: route_of_def)

lemma route_of_put:
  assumes "rt_lookup (rt_dst r) (rtable s) = Some rt"
  shows "route_of c (s\<lparr>rtable := rt_put r (rtable s)\<rparr>) = (if c = rt_dst r then Some (outline r) else route_of c s)"
  using assms rtl.lookup_put [of c r "rtable s"] by (simp add: route_of_def)

lemma route_of_put_same:
  assumes "rt_lookup d (rtable s) = Some rt" and "rt_dst r = rt_dst rt" and "outline r = outline rt"
  shows "route_of c (s\<lparr>rtable := rt_put r (rtable s)\<rparr>) = route_of c s"
  using route_of_put [of r s rt c] rtl.lookup_key [OF assms(1)] assms by (auto simp: route_of_def)

lemma outline_frame [simp]:
  "outline (set_head_expire t rt) = outline rt" "outline (advertise E rt) = outline rt"
  "outline (reset_soft_state rt) = outline rt" "outline (rt\<lparr>rt_error := e\<rparr>) = outline rt"
  "outline (rt\<lparr>rt_req_timeout := tm\<rparr>) = outline rt" "outline (rt\<lparr>rt_expire := x\<rparr>) = outline rt"
  "outline (rt\<lparr>rt_req_last_ttl := l\<rparr>) = outline rt" "outline (rt\<lparr>rt_req_cnt := k\<rparr>) = outline rt"
  using set_head_expire_paths(1) [of t rt] by (simp_all add: outline_def)

lemma outline_fresh:
  "outline (fresh_path E sq nh h lt lh rt) = (RTF_UP, sq, [nh])"
  by (simp add: outline_def fresh_path_def Let_def path_delete_all_def path_insert_def new_path_def)

section \<open>Steps that leave the routes alone\<close>

text \<open>Everything the later steps of a discovery read of a node is unchanged.\<close>

definition quiet_step :: "eamrp \<Rightarrow> eamrp \<Rightarrow> bool" where
  "quiet_step s t \<longleftrightarrow> (\<forall>c. route_of c t = route_of c s) \<and> bihead t = bihead s \<and> index t = index s
     \<and> here_addr t = here_addr s \<and> seqno t = seqno s \<and> (\<exists>es. out t = out s @ es)"

lemma quiet_step_refl [simp]: "quiet_step s s"
  by (simp add: quiet_step_def)

lemma quiet_step_trans: "quiet_step s t \<Longrightarrow> quiet_step t u \<Longrightarrow> quiet_step s u"
  by (auto simp: quiet_step_def)

lemma quiet_put:
  assumes "rt_lookup d (rtable s) = Some rt" and "rt_dst r = rt_dst rt" and "outline r = outline rt"
  shows "quiet_step s (s\<lparr>rtable := rt_put r (rtable s)\<rparr>)"
  using route_of_put_same [OF assms] by (simp add: quiet_step_def)

lemma quiet_emit [simp]: "quiet_step s t \<Longrightarrow> quiet_step s (emit e t)"
  by (auto simp: quiet_step_def)

lemma quiet_rqueue [simp]: "quiet_step s t \<Longrightarrow> quiet_step s (t\<lparr>rqueue := q\<rparr>)"
  by (auto simp: quiet_step_def)

lemma upd_rt_quiet:
  assumes "upd_rt d f s = Inr t" and "\<And>rt. rt_dst (f rt) = rt_dst rt" and "\<And>rt. outline (f rt) = outline rt"
  shows "quiet_step s t"
  using assms by (auto simp: upd_rt_def intro: quiet_put split: option.splits)

text \<open>Sending along a route changes the lifetime of its first path and possibly the error flag.\<close>

lemma forward_route_quiet:
  assumes "forward E (Some d) p delay s = Inr t"
  shows "quiet_step s t"
proof -
  have put: "quiet_step s (emit e (s\<lparr>rtable := rt_put r (rtable s)\<rparr>))"
    if "rt_lookup d (rtable s) = Some rt" and "r = set_head_expire x rt \<or> r = (set_head_expire x rt)\<lparr>rt_error := True\<rparr>"
    for r rt x e
    using that by (intro quiet_emit quiet_put [of d s rt]) auto
  show ?thesis
    using assms
    by (auto simp: forward_def assertE_def Let_def intro!: put split: if_splits option.splits dest!: bindE_InrD)
qed

lemma flush_buffer_quiet:
  assumes buf: "buffer_ok (rqueue s)" and f: "flush_buffer E d s = Inr t"
  shows "quiet_step s t"
proof -
  let ?act = "\<lambda>p (u, t). case rt_lookup d (rtable t) of None \<Rightarrow> Inl Null_deref
    | Some rt1 \<Rightarrow> if rt_flags rt1 = RTF_UP
        then bindE (forward E (Some d) p NO_EAMRP_DELAY t) (\<lambda>t1. Inr (u, t1)) else Inr (u, t)"
  let ?I = "\<lambda>x::unit \<times> eamrp. buffer_ok (rqueue (snd x)) \<and> quiet_step s (snd x)"
  have "safe UNIV (\<lambda>x. ?I x \<and> rqueue (snd x) = rqueue t) (?act p (u, t))" if I: "?I (u, t)" for p u t
  proof (cases "\<exists>y. ?act p (u, t) = Inr y")
    case True
    then obtain t1 where y: "?act p (u, t) = Inr (u, t1)" by auto
    then have "t1 = t \<or> forward E (Some d) p NO_EAMRP_DELAY t = Inr t1"
      by (auto split: option.splits if_splits dest!: bindE_InrD)
    then have "quiet_step t t1 \<and> rqueue t1 = rqueue t" by (auto dest: forward_route_quiet forward_rqueue)
    with I y show ?thesis by (auto intro: quiet_step_trans)
  next
    case False
    then show ?thesis by (cases "?act p (u, t)") auto
  qed
  then have loop: "safe UNIV ?I (drain_all E d ?act () u)" if "quiet_step s u" "rqueue u = rqueue s" for u
    using that buf by (intro drain_all_ok) auto
  show ?thesis
  proof (cases "rt_lookup d (rtable s)")
    case (Some rt)
    note q = quiet_put [OF Some, of "reset_soft_state rt"]
    have "safe UNIV (quiet_step s) (flush_buffer E d s)"
      using loop [of "s\<lparr>rtable := rt_put (reset_soft_state rt) (rtable s)\<rparr>"] q Some
      by (auto simp: flush_buffer_def elim!: safe_mono)
    with f show ?thesis by simp
  qed (use f in \<open>simp add: flush_buffer_def\<close>)
qed

section \<open>A fresh path\<close>

text \<open>
  Both handlers do the same with a newer sequence number: make sure there is an entry, replace
  its paths by the one the message came along, and send what was buffered.
\<close>

lemma ensure_rt_route:
  assumes "ensure_rt E d s = Inr t"
  shows "(\<exists>rt. rt_lookup d (rtable t) = Some rt \<and> rt_seqno rt = known_seqno d s)"
    and "c \<noteq> d \<Longrightarrow> route_of c t = route_of c s" and "here_addr t = here_addr s \<and> seqno t = seqno s"
  using assms
  by (auto simp: ensure_rt_def rt_add_def assertE_def route_of_def known_seqno_def outline_def new_rt_entry_def
      split: option.splits if_splits)

lemma take_path:
  assumes inv: "node_inv s" and E: "env_ok E" and rt: "rt_lookup d (rtable s) = Some rt"
    and sq: "even sq" "sq \<noteq> 0"
  shows "\<exists>t. flush_buffer E d (s\<lparr>rtable := rt_put (fresh_path E sq nh h lt lh rt) (rtable s)\<rparr>) = Inr t
    \<and> node_inv t \<and> route_of d t = Some (RTF_UP, sq, [nh]) \<and> (\<forall>c. c \<noteq> d \<longrightarrow> route_of c t = route_of c s)
    \<and> bihead t = bihead s \<and> index t = index s \<and> here_addr t = here_addr s \<and> seqno t = seqno s
    \<and> (\<exists>es. out t = out s @ es)"
proof -
  let ?r = "fresh_path E sq nh h lt lh rt"
  let ?s1 = "s\<lparr>rtable := rt_put ?r (rtable s)\<rparr>"
  note dst = rtl.lookup_key [OF rt]
  note e = table_entry(1) [OF node_invD(3) [OF inv] rt]
  have s1: "node_inv ?s1" by (rule node_inv_put_id [OF inv rt fresh_path_ok [OF E e sq]]) simp
  have look: "rt_lookup d (rtable ?s1) = Some ?r"
    using rtl.lookup_put_same [of ?r "rtable s" rt] rt dst by simp
  obtain t where t: "flush_buffer E d ?s1 = Inr t" "node_inv t"
    using safe_no_faultD [OF flush_buffer_ok [OF s1 look]] by blast
  have "quiet_step ?s1 t" by (rule flush_buffer_quiet [OF node_invD(4) [OF s1] t(1)])
  moreover have "route_of c ?s1 = (if c = d then Some (RTF_UP, sq, [nh]) else route_of c s)" for c
    using route_of_put [of ?r s rt c] rt dst by (simp add: outline_fresh)
  ultimately show ?thesis using t by (auto simp: quiet_step_def)
qed

section \<open>One node on the way\<close>

text \<open>A packet of the agent as it arrives, with its TTL already counted down.\<close>

lemma recv_routing:
  "node_inv s \<Longrightarrow> ch_ptype p = PT_EAMRP \<Longrightarrow> recv E p s = recvEAMRP E (p\<lparr>ih_ttl := ih_ttl p - 1\<rparr>) s"
  using node_invD(8) [of s] by (simp add: recv_def)

text \<open>The request is new to the node, and the node has no entry with a number as recent as the source's.\<close>

definition new_request :: "hdr_eamrp_request \<Rightarrow> eamrp \<Rightarrow> bool" where
  "new_request rq s \<longleftrightarrow> id_get (rq_src rq, rq_bcast_id rq) (bihead s) = None
     \<and> known_seqno (rq_src rq) s < rq_src_seqno rq \<and> rq_src rq \<noteq> index s"

text \<open>What a node has done with it when it comes to answering.\<close>

lemma request_taken:
  assumes inv: "node_inv s" and E: "env_ok E" and p: "ch_ptype p = PT_EAMRP" "msg_wf p" "hdr p = Rreq rq"
    and new: "new_request rq s"
  shows "\<exists>rq' t. recv E p s = rreq_answer E (p\<lparr>ih_ttl := ih_ttl p - 1, hdr := Rreq rq'\<rparr>) rq' False True t
    \<and> (rq' = rq \<or> rq' = rq\<lparr>rq_first_hop := index s\<rparr>)
    \<and> node_inv t \<and> route_of (rq_src rq) t = Some (RTF_UP, rq_src_seqno rq, [ih_saddr p])
    \<and> (\<forall>c. c \<noteq> rq_src rq \<longrightarrow> route_of c t = route_of c s)
    \<and> (\<exists>b. id_get (rq_src rq, rq_bcast_id rq) (bihead t) = Some b \<and> bi_count b = 0)
    \<and> index t = index s \<and> here_addr t = here_addr s \<and> seqno t = seqno s \<and> (\<exists>es. out t = out s @ es)"
proof -
  let ?a = "rq_src rq"
  have wf: "even (rq_src_seqno rq)" "?a \<noteq> IP_BROADCAST" "ih_sport p = RT_PORT" "ih_dport p = RT_PORT"
    using p by (auto simp: msg_wf_def)
  define rq' where "rq' = (if rq_hop_count rq = 0 then rq\<lparr>rq_first_hop := index s\<rparr> else rq)"
  define s1 where "s1 = s\<lparr>bihead := id_insert (now E) ?a (rq_bcast_id rq) (bihead s)\<rparr>"
  define q where "q = p\<lparr>ih_ttl := ih_ttl p - 1, hdr := Rreq rq'\<rparr>"
  have rq': "rq_src rq' = ?a" "rq_src_seqno rq' = rq_src_seqno rq" by (simp_all add: rq'_def)
  have sq: "rq_src_seqno rq \<noteq> 0" using new by (auto simp: new_request_def)
  have s1: "node_inv s1"
    using inv node_invD(6) [OF inv] id_insert_distinct [of "bihead s"] new
    by (auto simp: s1_def new_request_def intro: node_inv_bihead)
  obtain s2 where s2: "ensure_rt E ?a s1 = Inr s2" "node_inv s2" "bihead s2 = bihead s1" "same_config s1 s2"
    using safe_no_faultD [OF ensure_rt_ok [OF s1 E wf(2)]] by blast
  obtain rt where rt: "rt_lookup ?a (rtable s2) = Some rt" "rt_seqno rt = known_seqno ?a s1"
    using ensure_rt_route(1) [OF s2(1)] by blast
  have fresh: "rt_seqno rt < rq_src_seqno rq" using rt(2) new by (simp add: s1_def known_seqno_def new_request_def)
  obtain t where t: "flush_buffer E ?a (s2\<lparr>rtable := rt_put (fresh_path E (rq_src_seqno rq) (ih_saddr p)
        (rq_hop_count rq') REV_ROUTE_LIFE (rq_first_hop rq') rt) (rtable s2)\<rparr>) = Inr t"
    "node_inv t" "route_of ?a t = Some (RTF_UP, rq_src_seqno rq, [ih_saddr p])"
    "\<forall>c. c \<noteq> ?a \<longrightarrow> route_of c t = route_of c s2"
    "bihead t = bihead s2" "index t = index s2" "here_addr t = here_addr s2" "seqno t = seqno s2" "\<exists>es. out t = out s2 @ es"
    using take_path [OF s2(2) E rt(1) wf(1) sq] by blast
  have "recv E p s = bindE (ensure_rt E ?a s1) (rreq_process E q rq' False)"
    using recv_routing [OF inv p(1)] p(3) wf(3,4) new
    by (simp add: recvEAMRP_def recvRequest_def new_request_def Let_def s1_def q_def rq'_def)
  also have "\<dots> = rreq_answer E q rq' False True t"
    using s2(1) rt(1) fresh t(1) by (simp add: rreq_process_def rreq_reverse_def rreq_continue_def rq' q_def)
  finally have "recv E p s = rreq_answer E q rq' False True t" .
  moreover have "route_of c s2 = route_of c s" if "c \<noteq> ?a" for c
    using ensure_rt_route(2) [OF s2(1) that] by (simp add: s1_def)
  moreover note ensure_rt_route(3) [OF s2(1)] ensure_rt_frame [OF s2(1)]
  ultimately show ?thesis using t(2-9) s2(3)
    by (intro exI [of _ rq'] exI [of _ t]) (auto simp: s1_def q_def rq'_def id_insert_def)
qed

section \<open>Messages on their way\<close>

fun sent_by :: "event \<Rightarrow> packet list" where
  "sent_by (Scheduled p t) = [p]"
| "sent_by _ = []"

text \<open>The packet a step from \<open>s\<close> to \<open>t\<close> has handed to the link layer, the last one if there are several.\<close>

definition handed_on :: "eamrp \<Rightarrow> eamrp \<Rightarrow> packet option" where
  "handed_on s t = (let ps = concat (map sent_by (drop (length (out s)) (out t))) in
     if ps = [] then None else Some (last ps))"

lemma handed_on_last: "out t = out s @ es @ [Scheduled p x] \<Longrightarrow> handed_on s t = Some p"
  by (simp add: handed_on_def)

lemma handed_on_emit:
  assumes "out u = out s @ es"
  shows "handed_on s (emit (Scheduled p x) u) = Some p" "handed_on s (emit (Freed q) u) = handed_on s u"
  using handed_on_last [of "emit (Scheduled p x) u" s es p x] assms by (simp_all add: handed_on_def)

text \<open>
  A request from \<open>a\<close> with identifier \<open>b\<close> and sequence number \<open>sq\<close> for the destination \<open>d\<close>, whose
  number it wants to be at least \<open>w\<close>, last sent by \<open>prev\<close>; and the reply to it.
\<close>

definition carries_request ::
  "nsaddr \<Rightarrow> u32 \<Rightarrow> nsaddr \<Rightarrow> u32 \<Rightarrow> u32 \<Rightarrow> nsaddr \<Rightarrow> int \<Rightarrow> packet \<Rightarrow> bool" where
  "carries_request a b d sq w prev ttl p \<longleftrightarrow>
     ch_ptype p = PT_EAMRP \<and> msg_wf p \<and> ih_ttl p = ttl \<and> ih_saddr p = prev \<and> ih_daddr p = IP_BROADCAST \<and>
     (\<exists>rq. hdr p = Rreq rq \<and> rq_src rq = a \<and> rq_bcast_id rq = b \<and> rq_dst rq = d \<and> rq_src_seqno rq = sq
        \<and> rq_dst_seqno rq = w)"

definition carries_reply ::
  "nsaddr \<Rightarrow> u32 \<Rightarrow> nsaddr \<Rightarrow> u32 \<Rightarrow> nsaddr \<Rightarrow> nsaddr \<Rightarrow> int \<Rightarrow> packet \<Rightarrow> bool" where
  "carries_reply a b d n prev to ttl p \<longleftrightarrow>
     ch_ptype p = PT_EAMRP \<and> msg_wf p \<and> ih_ttl p = ttl \<and> ih_daddr p = a \<and> ch_next_hop p = to \<and>
     (\<exists>rp. hdr p = Rrep rp \<and> rp_dst rp = d \<and> rp_dst_seqno rp = n \<and> rp_bcast_id rp = b \<and> rp_src rp = prev)"

text \<open>A node the request finds unprepared, and the node after it has passed the request on.\<close>

definition unaware :: "nsaddr \<Rightarrow> u32 \<Rightarrow> u32 \<Rightarrow> eamrp \<Rightarrow> bool" where
  "unaware a b sq s \<longleftrightarrow> node_inv s \<and> here_addr s = index s \<and> index s \<noteq> a
     \<and> id_get (a, b) (bihead s) = None \<and> known_seqno a s < sq"

definition waiting :: "nsaddr \<Rightarrow> u32 \<Rightarrow> u32 \<Rightarrow> nsaddr \<Rightarrow> eamrp \<Rightarrow> eamrp \<Rightarrow> bool" where
  "waiting a b sq prev s t \<longleftrightarrow> node_inv t \<and> index t = index s \<and> here_addr t = here_addr s
     \<and> route_of a t = Some (RTF_UP, sq, [prev]) \<and> (\<forall>c. c \<noteq> a \<longrightarrow> route_of c t = route_of c s)
     \<and> (\<exists>i. id_get (a, b) (bihead t) = Some i \<and> bi_count i = 0)"

lemma recv_routing_inv:
  "node_inv s \<Longrightarrow> env_ok E \<Longrightarrow> msg_wf p \<Longrightarrow> msg_live p \<Longrightarrow> recv E p s = Inr t \<Longrightarrow> node_inv t"
  using recv_ok [of s E p] by simp

lemma last_sent_wf: "node_inv t \<Longrightarrow> out t = os @ [Scheduled p x] \<Longrightarrow> msg_wf p"
  using node_invD(10) [of t] by simp

text \<open>A node in the middle rebroadcasts the request.\<close>

lemma rreq_propagate_sends:
  assumes q: "ch_ptype q = PT_EAMRP" "ih_daddr q = IP_BROADCAST" "ih_ttl q \<noteq> 0"
    and rt: "rt_lookup (rq_src rq) (rtable t) = Some rt" "rt_path_list rt \<noteq> []" and na: "here_addr t \<noteq> IP_BROADCAST"
  shows "\<exists>v p x n. rreq_propagate E q rq t = Inr v \<and> quiet_step t v \<and> out v = out t @ [Scheduled p x]
    \<and> ch_ptype p = PT_EAMRP \<and> ih_ttl p = ih_ttl q \<and> ih_saddr p = index t \<and> ih_daddr p = IP_BROADCAST \<and> hdr p = Rreq n
    \<and> rq_src n = rq_src rq \<and> rq_bcast_id n = rq_bcast_id rq \<and> rq_dst n = rq_dst rq \<and> rq_src_seqno n = rq_src_seqno rq
    \<and> rq_dst_seqno n = max (known_seqno (rq_dst rq) t) (rq_dst_seqno rq)"
proof -
  obtain path where path: "path_find rt = Some path" using rt(2) by (cases "rt_path_list rt") (simp_all add: path_find_def)
  have max0: "max (0 :: u32) x = x" for x by (simp add: max_def)
  have ds: "(case rt_lookup (rq_dst rq) (rtable t) of None \<Rightarrow> rq_dst_seqno rq
      | Some r \<Rightarrow> max (rt_seqno r) (rq_dst_seqno rq)) = max (known_seqno (rq_dst rq) t) (rq_dst_seqno rq)"
    by (auto simp: known_seqno_def route_of_def outline_def max0 split: option.split)
  let ?rt1 = "advertise E rt"
  define u where "u = t\<lparr>rtable := rt_put ?rt1 (rtable t)\<rparr>"
  have u: "quiet_step t u" unfolding u_def by (rule quiet_put [OF rt(1)]) simp_all
  define n where "n = rq\<lparr>rq_dst_seqno := max (known_seqno (rq_dst rq) t) (rq_dst_seqno rq),
      rq_hop_count := ucast (rt_advertised_hops ?rt1), rq_first_hop := lasthop path\<rparr>"
  define p where "p = q\<lparr>ih_saddr := index t, hdr := Rreq n, ch_addr_type := NS_AF_NONE, ch_direction := DOWN\<rparr>"
  define v where "v = emit (Scheduled p (rnd E (draws u) * (1 / 100))) (u\<lparr>draws := Suc (draws u)\<rparr>)"
  have "rreq_propagate E q rq t = forward E None (q\<lparr>ih_saddr := index t, hdr := Rreq n\<rparr>) EAMRP_DELAY u"
    using rt(1) path by (simp add: rreq_propagate_def ds u_def n_def Let_def)
  also have "\<dots> = Inr v" using q na by (simp add: forward_def p_def v_def u_def)
  finally have "rreq_propagate E q rq t = Inr v" .
  moreover have "quiet_step t v" using u by (auto simp: v_def quiet_step_def)
  moreover have "out v = out t @ [Scheduled p (rnd E (draws u) * (1 / 100))]" by (simp add: v_def u_def emit_def)
  ultimately show ?thesis using q by (intro exI [of _ v] exI [of _ p] exI [of _ "rnd E (draws u) * (1 / 100)"] exI [of _ n])
      (simp add: p_def n_def)
qed

lemma request_passes:
  assumes p: "carries_request a b d sq w prev ttl p" "1 < ttl" and E: "env_ok E"
    and s: "unaware a b sq s" "no_route d s" "index s \<noteq> d" "d \<noteq> a"
  shows "\<exists>t. recv E p s = Inr t \<and> waiting a b sq prev s t
    \<and> (\<exists>q. handed_on s t = Some q
      \<and> carries_request a b d sq (max (known_seqno d s) w) (index s) (ttl - 1) q)"
proof -
  have inv: "node_inv s" and here: "here_addr s = index s" using s(1) by (simp_all add: unaware_def)
  obtain rq where rq: "hdr p = Rreq rq" "rq_src rq = a" "rq_bcast_id rq = b" "rq_dst rq = d" "rq_src_seqno rq = sq"
    "rq_dst_seqno rq = w" and pk: "ch_ptype p = PT_EAMRP" "msg_wf p" "ih_ttl p = ttl" "ih_saddr p = prev"
      "ih_daddr p = IP_BROADCAST" using p(1) by (auto simp: carries_request_def)
  have new: "new_request rq s" using s(1) rq by (simp add: new_request_def unaware_def eq_commute [of a])
  then have live: "msg_live p" using rq by (auto simp: msg_live_def new_request_def)
  obtain rq' t where t: "recv E p s = rreq_answer E (p\<lparr>ih_ttl := ih_ttl p - 1, hdr := Rreq rq'\<rparr>) rq' False True t"
    "rq' = rq \<or> rq' = rq\<lparr>rq_first_hop := index s\<rparr>" "node_inv t"
    "route_of a t = Some (RTF_UP, sq, [prev])" "\<forall>c. c \<noteq> a \<longrightarrow> route_of c t = route_of c s"
    "\<exists>i. id_get (a, b) (bihead t) = Some i \<and> bi_count i = 0" "index t = index s" "here_addr t = here_addr s"
    "\<exists>es. out t = out s @ es"
    using request_taken [OF inv E pk(1,2) rq(1) new] unfolding rq pk by blast
  have rq': "rq_src rq' = a" "rq_dst rq' = d" "rq_dst_seqno rq' = w" "rq_bcast_id rq' = b" "rq_src_seqno rq' = sq"
    using t(2) rq by auto
  define q where "q = p\<lparr>ih_ttl := ih_ttl p - 1, hdr := Rreq rq'\<rparr>"
  have d: "route_of d t = route_of d s" using t(5) s(4) by simp
  have "rreq_answer E q rq' False True t = rreq_propagate E q rq' t"
  proof (cases "rt_lookup d (rtable t)")
    case (Some rt)
    then have "route_of d s = Some (outline rt)" using d by (simp add: route_of_def)
    then have "rt_flags rt \<noteq> RTF_UP" using s(2) by (simp add: no_route_def outline_def)
    with Some s(3) t(7) show ?thesis by (simp add: rreq_answer_def rq')
  qed (use s(3) t(7) in \<open>simp add: rreq_answer_def rq'\<close>)
  then have recv: "recv E p s = rreq_propagate E q rq' t" using t(1) by (simp add: q_def)
  have na: "here_addr t \<noteq> IP_BROADCAST" using here t(8) node_invD(2) [OF inv] by simp
  obtain rt where rt: "rt_lookup (rq_src rq') (rtable t) = Some rt" "rt_path_list rt \<noteq> []"
    using t(4) by (auto simp: route_of_def outline_def rq')
  obtain v r x n where v: "rreq_propagate E q rq' t = Inr v" "quiet_step t v" "out v = out t @ [Scheduled r x]"
    and r: "ch_ptype r = PT_EAMRP" "ih_ttl r = ttl - 1" "ih_saddr r = index t" "ih_daddr r = IP_BROADCAST" "hdr r = Rreq n"
    "rq_src n = a" "rq_bcast_id n = b" "rq_dst n = d" "rq_src_seqno n = sq" "rq_dst_seqno n = max (known_seqno d t) w"
    using rreq_propagate_sends [of q rq' t rt E, OF _ _ _ rt na] p(2) pk rq' by (auto simp: q_def)
  have "node_inv v" by (rule recv_routing_inv [OF inv E pk(2) live]) (simp add: recv v(1))
  moreover from last_sent_wf [OF this v(3)] have "msg_wf r" .
  moreover have "handed_on s v = Some r" using t(9) v(3) handed_on_last by fastforce
  moreover have "known_seqno d t = known_seqno d s" using d by (simp add: known_seqno_def)
  ultimately show ?thesis using recv v t(4-8) r
    by (intro exI [of _ v]) (simp add: waiting_def quiet_step_def carries_request_def)
qed

text \<open>The destination answers to the node the request came from.\<close>

lemma request_answered:
  assumes p: "carries_request a b d sq w prev ttl p" and E: "env_ok E" and s: "unaware a b sq s" "index s = d"
  shows "\<exists>t. recv E p s = Inr t \<and> node_inv t \<and> index t = d \<and> route_of a t = Some (RTF_UP, sq, [prev])
    \<and> (\<exists>q. handed_on s t = Some q \<and> carries_reply a b d (reply_seqno (seqno s) w) d prev 30 q)"
proof -
  have inv: "node_inv s" and here: "here_addr s = index s" using s(1) by (simp_all add: unaware_def)
  obtain rq where rq: "hdr p = Rreq rq" "rq_src rq = a" "rq_bcast_id rq = b" "rq_dst rq = d" "rq_src_seqno rq = sq"
    "rq_dst_seqno rq = w" and pk: "ch_ptype p = PT_EAMRP" "msg_wf p" "ih_saddr p = prev"
    using p by (auto simp: carries_request_def)
  have new: "new_request rq s" using s(1) rq by (simp add: new_request_def unaware_def eq_commute [of a])
  then have live: "msg_live p" using rq by (auto simp: msg_live_def new_request_def)
  obtain rq' t where t: "recv E p s = rreq_answer E (p\<lparr>ih_ttl := ih_ttl p - 1, hdr := Rreq rq'\<rparr>) rq' False True t"
    "rq' = rq \<or> rq' = rq\<lparr>rq_first_hop := index s\<rparr>"
    "route_of a t = Some (RTF_UP, sq, [prev])" "index t = index s" "seqno t = seqno s"
    "\<exists>es. out t = out s @ es"
    using request_taken [OF inv E pk(1,2) rq(1) new] unfolding rq pk by blast
  have rq': "rq_src rq' = a" "rq_dst rq' = d" "rq_dst_seqno rq' = w" "rq_bcast_id rq' = b" using t(2) rq by auto
  define q where "q = p\<lparr>ih_ttl := ih_ttl p - 1, hdr := Rreq rq'\<rparr>"
  define v where "v = rreq_at_destination E q rq' t"
  have recv: "recv E p s = Inr v" using t(1,4) s(2) by (simp add: rreq_answer_def rq' v_def q_def)
  have inv': "node_inv v" by (rule recv_routing_inv [OF inv E pk(2) live recv])
  obtain es where es: "out t = out s @ es" using t(6) by blast
  obtain r u where v: "v = emit (Freed q) (emit (Scheduled r 0) u)" "out u = out t" "route_of a u = route_of a t"
    "index u = index t" "ch_ptype r = PT_EAMRP" "ih_ttl r = 30" "ih_daddr r = a" "ch_next_hop r = prev"
    "\<exists>rp. hdr r = Rrep rp \<and> rp_dst rp = d \<and> rp_dst_seqno rp = reply_seqno (seqno s) w \<and> rp_bcast_id rp = b \<and> rp_src rp = d"
    using t(4,5) s(2) rq' pk(3)
    by (simp add: v_def rreq_at_destination_def sendReply_def Let_def q_def NETWORK_DIAMETER_def)
  have "msg_wf r" using node_invD(10) [OF inv'] by (simp add: v(1))
  moreover have "handed_on s v = Some r"
    using handed_on_emit [of "emit (Scheduled r 0) u" s "es @ [Scheduled r 0]"] handed_on_emit [of u s es] v(1,2) es by simp
  ultimately show ?thesis
    using recv inv' t(3,4) s(2) v by (intro exI [of _ v]) (simp add: carries_reply_def)
qed

section \<open>The way back\<close>

lemma reply_taken:
  assumes p: "carries_reply a b d n prev to ttl p" and E: "env_ok E"
    and s: "node_inv s" "index s \<noteq> d" "known_seqno d s < n"
  shows "\<exists>t rp. recv E p s = (if a = index s then Inr (emit (Freed (p\<lparr>ih_ttl := ttl - 1\<rparr>)) t)
        else rrep_relay E (p\<lparr>ih_ttl := ttl - 1\<rparr>) rp t)
    \<and> hdr p = Rrep rp \<and> rp_dst rp = d \<and> rp_dst_seqno rp = n \<and> rp_bcast_id rp = b \<and> msg_live p
    \<and> node_inv t \<and> route_of d t = Some (RTF_UP, n, [prev]) \<and> (\<forall>c. c \<noteq> d \<longrightarrow> route_of c t = route_of c s)
    \<and> bihead t = bihead s \<and> index t = index s \<and> here_addr t = here_addr s \<and> (\<exists>es. out t = out s @ es)"
proof -
  obtain rp where rp: "hdr p = Rrep rp" "rp_dst rp = d" "rp_dst_seqno rp = n" "rp_bcast_id rp = b" "rp_src rp = prev"
    and pk: "ch_ptype p = PT_EAMRP" "msg_wf p" "ih_ttl p = ttl" "ih_daddr p = a" using p by (auto simp: carries_reply_def)
  have wf: "even n" "d \<noteq> IP_BROADCAST" "ih_sport p = RT_PORT" "ih_dport p = RT_PORT"
    using pk rp by (auto simp: msg_wf_def)
  have n0: "n \<noteq> 0" using s(3) by auto
  obtain s1 where s1: "ensure_rt E d s = Inr s1" "node_inv s1" "bihead s1 = bihead s" "same_config s s1"
    using safe_no_faultD [OF ensure_rt_ok [OF s(1) E wf(2)]] by blast
  obtain rt where rt: "rt_lookup d (rtable s1) = Some rt" "rt_seqno rt = known_seqno d s"
    using ensure_rt_route(1) [OF s1(1)] by blast
  obtain t where t: "flush_buffer E d (s1\<lparr>rtable := rt_put (fresh_path E n prev
        (rp_hop_count rp) (rp_lifetime rp) (rp_first_hop rp) rt) (rtable s1)\<rparr>) = Inr t"
    "node_inv t" "route_of d t = Some (RTF_UP, n, [prev])" "\<forall>c. c \<noteq> d \<longrightarrow> route_of c t = route_of c s1"
    "bihead t = bihead s1" "index t = index s1" "here_addr t = here_addr s1" "\<exists>es. out t = out s1 @ es"
    using take_path [OF s1(2) E rt(1) wf(1) n0] by blast
  have "recv E p s = bindE (ensure_rt E d s) (rrep_process E (p\<lparr>ih_ttl := ttl - 1\<rparr>) rp)"
    using recv_routing [OF s(1) pk(1)] rp pk(3) wf(3,4) s(2) by (simp add: recvEAMRP_def recvReply_def)
  also have "\<dots> = (if a = index s then Inr (emit (Freed (p\<lparr>ih_ttl := ttl - 1\<rparr>)) t)
        else rrep_relay E (p\<lparr>ih_ttl := ttl - 1\<rparr>) rp t)"
    using s1(1,4) rt s(3) t(1,6) rp pk(4)
    by (simp add: rrep_process_def rrep_forward_path_def rrep_continue_def same_config_def)
  finally show ?thesis
    using rp t(2-8) s1(3) ensure_rt_frame [OF s1(1)] ensure_rt_route(2,3) [OF s1(1)] same_configD(1) [OF s1(4)] n0
    by (intro exI [of _ t] exI [of _ rp]) (simp add: msg_live_def)
qed

lemma reply_arrives:
  assumes p: "carries_reply a b d n prev to ttl p" and E: "env_ok E"
    and s: "node_inv s" "index s = a" "a \<noteq> d" "known_seqno d s < n"
  shows "\<exists>t. recv E p s = Inr t \<and> route_of d t = Some (RTF_UP, n, [prev])
    \<and> node_inv t \<and> index t = a \<and> here_addr t = here_addr s"
proof -
  have "index s \<noteq> d" using s by simp
  from reply_taken [OF p E s(1) this s(4)] s(2) show ?thesis by fastforce
qed

text \<open>Steps on an entry that is there, and a reply sent along a route with one path.\<close>

lemma upd_rt_present:
  assumes "route_of c s = Some x" and "\<And>rt. rt_dst (f rt) = rt_dst rt" and "\<And>rt. outline (f rt) = outline rt"
  shows "\<exists>t. upd_rt c f s = Inr t \<and> quiet_step s t"
proof -
  obtain t where t: "upd_rt c f s = Inr t" using assms(1) by (auto simp: route_of_def upd_rt_def)
  with upd_rt_quiet [OF t assms(2,3)] show ?thesis by blast
qed

lemma forward_along:
  assumes "route_of c s = Some (RTF_UP, n, [nb])" and "ih_daddr p = c" "ih_ttl p \<noteq> 0"
    and "c \<noteq> here_addr s" "c \<noteq> IP_BROADCAST"
  shows "\<exists>t es. forward E (Some c) p NO_EAMRP_DELAY s = Inr t \<and> quiet_step s t
    \<and> out t = out s @ es @ [Scheduled (p\<lparr>ch_addr_type := NS_AF_INET, ch_next_hop := nb, ch_direction := DOWN\<rparr>) 0]"
proof -
  obtain rt where rt: "rt_lookup c (rtable s) = Some rt" "rt_flags rt = RTF_UP" "map nexthop (rt_path_list rt) = [nb]"
    using assms(1) by (auto simp: route_of_def outline_def)
  then obtain path where path: "path_find rt = Some path" "nexthop path = nb" by (auto simp: path_find_def)
  obtain t where t: "forward E (Some c) p NO_EAMRP_DELAY s = Inr t"
    "out t = out s @ [Scheduled (p\<lparr>ch_addr_type := NS_AF_INET, ch_next_hop := nb, ch_direction := DOWN\<rparr>) 0]"
    using rt(1,2) path assms(2-5) by (simp add: forward_def Let_def NO_EAMRP_DELAY_def)
  with forward_route_quiet [OF t(1)] show ?thesis by (intro exI [of _ t] exI [of _ "[]"]) simp
qed

text \<open>A node that waits for the reply relays it to where the request came from.\<close>

lemma relayed_back:
  assumes p: "ih_daddr p = a" "ih_ttl p \<noteq> 0" "ch_ptype p = PT_EAMRP" "hdr p = Rrep rp" "rp_dst rp = d" "rp_bcast_id rp = b"
    and t: "route_of d t = Some (RTF_UP, n, [prev])" "route_of a t = Some (RTF_UP, m, [nb])"
    and i: "id_get (a, b) (bihead t) = Some i" "bi_count i = 0" and a: "a \<noteq> here_addr t" "a \<noteq> IP_BROADCAST"
  shows "\<exists>u es q. rrep_relay E p rp t = Inr u \<and> (\<forall>c. route_of c u = route_of c t) \<and> index u = index t
    \<and> out u = out t @ es @ [Scheduled q 0] \<and> ch_ptype q = PT_EAMRP \<and> ih_ttl q = ih_ttl p \<and> ih_daddr q = a \<and> ch_next_hop q = nb
    \<and> (\<exists>rp'. hdr q = Rrep rp' \<and> rp_dst rp' = d \<and> rp_dst_seqno rp' = rp_dst_seqno rp \<and> rp_bcast_id rp' = b
          \<and> rp_src rp' = index t)"
proof -
  define t0 where "t0 = t\<lparr>bihead := id_put (i\<lparr>bi_count := 1\<rparr>) (bihead t)\<rparr>"
  have t0: "route_of c t0 = route_of c t" "index t0 = index t" "here_addr t0 = here_addr t" for c
    by (simp_all add: t0_def)
  obtain rt0 where rt0: "rt_lookup a (rtable t) = Some rt0" "rt_flags rt0 = RTF_UP" "map nexthop (rt_path_list rt0) = [nb]"
    using t(2) by (auto simp: route_of_def outline_def)
  then obtain rev where rev: "path_find rt0 = Some rev" "nexthop rev = nb" by (auto simp: path_find_def)
  obtain t1 where t1: "upd_rt d (advertise E) t0 = Inr t1" "quiet_step t0 t1"
    using upd_rt_present [of d t0 _ "advertise E"] t(1) t0(1) by auto
  then have "route_of d t1 = Some (RTF_UP, n, [prev])" using t(1) t0(1) by (simp add: quiet_step_def)
  then obtain rt fp where rt: "rt_lookup d (rtable t1) = Some rt" "path_find rt = Some fp"
    by (auto simp: route_of_def outline_def path_find_def)
  obtain t2 where t2: "upd_rt a (set_head_expire (now E + ACTIVE_ROUTE_TIMEOUT)) t1 = Inr t2" "quiet_step t1 t2"
    using upd_rt_present [of a t1 _ "set_head_expire (now E + ACTIVE_ROUTE_TIMEOUT)"] t(2) t0(1) t1(2)
    by (auto simp: quiet_step_def)
  obtain t3 where t3: "upd_rt d (\<lambda>r. r\<lparr>rt_error := True\<rparr>) t2 = Inr t3" "quiet_step t2 t3"
    using upd_rt_present [of d t2 _ "\<lambda>r. r\<lparr>rt_error := True\<rparr>"] t(1) t0(1) t1(2) t2(2)
    by (auto simp: quiet_step_def)
  note q = quiet_step_trans [OF t1(2) quiet_step_trans [OF t2(2) t3(2)]]
  define rp' where "rp' = rp\<lparr>rp_src := index t1, rp_hop_count := ucast (rt_advertised_hops rt), rp_first_hop := lasthop fp\<rparr>"
  define p' where "p' = put_reply rp' (p\<lparr>ch_addr_type := AF_INET E, ch_next_hop := nexthop rev,
      ch_xmit_failure := Some Eamrp_rt_failed_callback\<rparr>)"
  have p': "ih_daddr p' = a" "ih_ttl p' = ih_ttl p" "ch_ptype p' = PT_EAMRP" "hdr p' = Rrep rp'"
    using p by (simp_all add: p'_def put_reply_def)
  have along: "route_of a t3 = Some (RTF_UP, m, [nb])" using t(2) t0 q by (simp add: quiet_step_def)
  obtain u es where u: "forward E (Some a) p' NO_EAMRP_DELAY t3 = Inr u" "quiet_step t3 u"
    "out u = out t3 @ es @ [Scheduled (p'\<lparr>ch_addr_type := NS_AF_INET, ch_next_hop := nb, ch_direction := DOWN\<rparr>) 0]"
    using forward_along [OF along p'(1)] t0 q a p' p(2) unfolding quiet_step_def by metis
  have "rrep_relay E p rp t = bindE (upd_rt d (advertise E) t0) (\<lambda>s1. case rt_lookup d (rtable s1) of
      None \<Rightarrow> Inl Null_deref | Some rt \<Rightarrow> rrep_send E p rp rev rt s1)"
    using p(1,5,6) rt0(1,2) rev(1) i by (simp add: rrep_relay_def t0_def Let_def)
  also have "\<dots> = Inr u"
    using t1(1) rt t2(1) t3(1) u(1) p(1,5) by (simp add: rrep_send_def Let_def p'_def rp'_def)
  moreover obtain es' where "out t3 = out t @ es'" using q by (auto simp: quiet_step_def t0_def)
  ultimately show ?thesis
    using u(2,3) q t0 t1(2) p p'
    by (intro exI [of _ u] exI [of _ "es' @ es"] exI [of _ "p'\<lparr>ch_addr_type := NS_AF_INET, ch_next_hop := nb, ch_direction := DOWN\<rparr>"])
      (auto simp: quiet_step_def rp'_def)
qed

lemma reply_passes:
  assumes p: "carries_reply a b d n prev to ttl p" "1 < ttl" and E: "env_ok E"
    and s: "node_inv s" "here_addr s = index s" "index s \<noteq> a" "index s \<noteq> d" "a \<noteq> d" "known_seqno d s < n"
    and rev: "route_of a s = Some (RTF_UP, m, [nb])" "id_get (a, b) (bihead s) = Some i" "bi_count i = 0"
  shows "\<exists>t. recv E p s = Inr t \<and> route_of d t = Some (RTF_UP, n, [prev])
    \<and> (\<forall>c. c \<noteq> d \<longrightarrow> route_of c t = route_of c s) \<and> index t = index s \<and> node_inv t \<and> here_addr t = index t
    \<and> (\<exists>q. handed_on s t = Some q \<and> carries_reply a b d n (index s) nb (ttl - 1) q)"
proof -
  let ?q = "p\<lparr>ih_ttl := ttl - 1\<rparr>"
  obtain t rp where t: "recv E p s = rrep_relay E ?q rp t" "hdr p = Rrep rp" "rp_dst rp = d" "rp_dst_seqno rp = n"
    "rp_bcast_id rp = b" "msg_live p" "node_inv t" "route_of d t = Some (RTF_UP, n, [prev])"
    "\<forall>c. c \<noteq> d \<longrightarrow> route_of c t = route_of c s" "bihead t = bihead s" "index t = index s" "here_addr t = here_addr s"
    "\<exists>es. out t = out s @ es"
    using reply_taken [OF p(1) E s(1,4,6)] s(3) by (auto simp: eq_commute [of a])
  have pk: "ch_ptype p = PT_EAMRP" "msg_wf p" "ih_ttl p = ttl" "ih_daddr p = a" using p(1) by (auto simp: carries_reply_def)
  obtain rt where "rt_lookup a (rtable s) = Some rt" using rev(1) by (auto simp: route_of_def)
  then have a: "a \<noteq> IP_BROADCAST" using table_entry [OF node_invD(3) [OF s(1)]] by simp
  obtain u es q where u: "rrep_relay E ?q rp t = Inr u" "\<forall>c. route_of c u = route_of c t" "index u = index t"
    "out u = out t @ es @ [Scheduled q 0]" "ch_ptype q = PT_EAMRP" "ih_ttl q = ttl - 1" "ih_daddr q = a" "ch_next_hop q = nb"
    "\<exists>rp'. hdr q = Rrep rp' \<and> rp_dst rp' = d \<and> rp_dst_seqno rp' = n \<and> rp_bcast_id rp' = b \<and> rp_src rp' = index t"
    using relayed_back [of ?q a rp d b t n prev m nb i E] pk p(2) t rev s a by auto
  have recv: "recv E p s = Inr u" using t(1) u(1) by simp
  have inv: "node_inv u" "here_addr u = index u"
    using recv_ok [OF s(1) E pk(2) t(6)] recv s(2) by (simp_all add: same_config_def)
  have "msg_wf q" using last_sent_wf [OF inv(1), of "out t @ es" q 0] u(4) by simp
  moreover have "handed_on s u = Some q" using t(13) u(4) handed_on_last [of u s "_ @ es" q 0] by auto
  ultimately show ?thesis using recv t(8,9,11) u inv by (intro exI [of _ u]) (simp add: carries_reply_def)
qed

end
