(* ===== verification/OfferRecv.thy ===== *)
theory OfferRecv
  imports OfferSteps RouteSteps
begin

text \<open>
  Honesty of the handlers of requests, replies, errors and hellos, and so of every step of a
  node (\<open>node_step_honest\<close>).
\<close>

section \<open>Paths from offers\<close>

lemma uint_hops_plus1: "uint (of_int (hops_plus1 h) :: u16) = uint h + 1"
  using uint_of_hops_plus1 [of h] unfolding hops_plus1_def .

lemma entry_step_fresh:
  assumes E: "infty_is infty E" and less: "rt_seqno rt < sq" and C: "(nh, rt_dst rt, sq, h) \<in> C" and h: "uint h < 255"
  shows "entry_step infty C rt (fresh_path E sq nh h lt lh rt)"
proof -
  have sel: "rt_path_list (fresh_path E sq nh h lt lh rt) = [new_path nh (of_int (hops_plus1 h)) (now E + lt) lh (now E)]"
    "rt_advertised_hops (fresh_path E sq nh h lt lh rt) = infty"
    using E by (simp_all add: fresh_path_def Let_def path_delete_all_def path_insert_def infty_is_def)
  show ?thesis using less C h unfolding entry_step_def hops_small_def sel
    by (auto simp: new_path_def uint_hops_plus1 simp del: uint_of_hops_plus1)
qed

lemma entry_step_alternate:
  assumes C: "(nh, rt_dst rt, rt_seqno rt, h) \<in> C" and h: "uint h < 255"
  shows "entry_step infty C rt (alternate_path E nh h lt lh rt)"
proof -
  have sel: "rt_path_list (alternate_path E nh h lt lh rt) = rt_path_list rt @ [new_path nh (of_int (hops_plus1 h)) (now E + lt) lh (now E)]"
    "rt_advertised_hops (alternate_path E nh h lt lh rt) = rt_advertised_hops rt"
    by (simp_all add: alternate_path_def Let_def path_insert_def)
  show ?thesis using C h unfolding entry_step_def hops_small_def sel
    by (auto simp: new_path_def uint_hops_plus1 simp del: uint_of_hops_plus1)
qed

lemma entry_step_extend:
  assumes "disjoint_path_lookup nh lh rt = Some path"
  shows "entry_step infty C rt (extend_path E lt path rt)"
proof (rule entry_step_subset)
  fix p assume p: "p \<in> set (rt_path_list (extend_path E lt path rt))"
  have "path \<in> set (rt_path_list rt)" using disjoint_lookup_SomeD [OF assms] by simp
  with p pends.in_put [of p _ "rt_path_list rt"]
  show "\<exists>q\<in>set (rt_path_list rt). nexthop q = nexthop p \<and> hopcount q = hopcount p"
    by (fastforce simp: extend_path_def path_put_def)
qed (simp_all add: extend_path_def path_put_def)

lemma rreq_reverse_honest:
  assumes f: "rreq_reverse E m df me nb rq rt = Inr (rt', r)" and E: "infty_is infty E"
    and C: "(nb, rt_dst rt, rq_src_seqno rq, rq_hop_count rq) \<in> C" and h: "uint (rq_hop_count rq) < 255"
  shows "entry_step infty C rt rt' \<and> (r \<noteq> Rev_drop \<longrightarrow> rt_seqno rt' = rq_src_seqno rq)"
proof (cases "rt_seqno rt < rq_src_seqno rq")
  case True
  then show ?thesis using f entry_step_fresh [OF E True C h] by (auto simp: rreq_reverse_def)
next
  case False
  show ?thesis
  proof (cases "rt_seqno rt = rq_src_seqno rq")
    case eq: True
    have alt: "entry_step infty C rt (alternate_path E nb (rq_hop_count rq) lt lh rt)" for lt lh
      using C h by (intro entry_step_alternate) (simp_all add: eq)
    show ?thesis
    proof (cases "disjoint_path_lookup nb (rq_first_hop rq) rt")
      case (Some path)
      with f False eq entry_step_extend [OF Some] show ?thesis
        by (auto simp: rreq_reverse_def assertE_def split: if_splits)
    next
      case None
      with f False eq alt show ?thesis
        by (auto simp: rreq_reverse_def assertE_def Let_def split: if_splits)
    qed
  next
    case neq: False
    with f False show ?thesis by (auto simp: rreq_reverse_def)
  qed
qed

lemma rrep_forward_path_honest:
  assumes f: "rrep_forward_path E m df rp rt = Inr (rt', b)" and E: "infty_is infty E"
    and C: "(rp_src rp, rt_dst rt, rp_dst_seqno rp, rp_hop_count rp) \<in> C" and h: "uint (rp_hop_count rp) < 255"
  shows "entry_step infty C rt rt' \<and> (b \<longrightarrow> rt_seqno rt' = rp_dst_seqno rp)"
proof (cases "rt_seqno rt < rp_dst_seqno rp")
  case True
  then show ?thesis using f entry_step_fresh [OF E True C h] by (auto simp: rrep_forward_path_def)
next
  case False
  show ?thesis
  proof (cases "rt_seqno rt = rp_dst_seqno rp")
    case eq: True
    have alt: "entry_step infty C rt (alternate_path E (rp_src rp) (rp_hop_count rp) lt lh rt)" for lt lh
      using C h by (intro entry_step_alternate) (simp_all add: eq)
    show ?thesis
    proof (cases "disjoint_path_lookup (rp_src rp) (rp_first_hop rp) rt")
      case (Some path)
      with f False eq entry_step_extend [OF Some] show ?thesis
        by (auto simp: rrep_forward_path_def assertE_def split: if_splits)
    next
      case None
      with f False eq alt show ?thesis
        by (auto simp: rrep_forward_path_def assertE_def split: if_splits)
    qed
  next
    case neq: False
    with f False show ?thesis by (auto simp: rrep_forward_path_def)
  qed
qed

section \<open>Advertising\<close>

text \<open>The advertised hop count fits in the header, and so the offer is the entry's own.\<close>

lemma ucast_small: "uint (w :: u16) \<le> 255 \<Longrightarrow> uint (ucast w :: u8) = uint w"
  by (simp add: unsigned_ucast_eq unsigned_take_bit_eq take_bit_int_eq_self)

lemma ucast_twice: "(ucast (ucast (w :: u16) :: u32) :: u8) = ucast w"
  by (rule bit_word_eqI) (simp add: bit_ucast_iff)

lemma advertised_fits:
  assumes E: "infty_is infty E" and s: "hops_small infty (advertise E rt)"
  shows "uint (ucast (rt_advertised_hops (advertise E rt)) :: u8) = uint (rt_advertised_hops (advertise E rt))"
proof (rule ucast_small, cases "rt_advertised_hops rt = infty")
  case True
  have "uint (path_get_max_hopcount rt) \<le> 255"
    using s path_get_max_hopcount_mem [of rt] by (auto simp: hops_small_def INFINITY2_def)
  with True E show "uint (rt_advertised_hops (advertise E rt)) \<le> 255" by (simp add: advertise_def infty_is_def)
next
  case False
  with s E show "uint (rt_advertised_hops (advertise E rt)) \<le> 255"
    by (simp add: advertise_def infty_is_def hops_small_def)
qed

lemma backs_advertised:
  assumes E: "infty_is infty E" and e: "entry_at d t = r" and r: "r = advertise E rt \<or> r = (advertise E rt)\<lparr>rt_error := x\<rparr>"
    and n: "n = rt_seqno rt" and s: "small infty t" and d: "d \<noteq> index t"
  shows "backs t d n (uint (ucast (rt_advertised_hops r) :: u8))"
proof -
  have "hops_small infty r" using s e by (auto simp: small_def)
  then have "hops_small infty (advertise E rt)" using r by (auto simp: hops_small_def)
  from advertised_fits [OF E this] have "uint (ucast (rt_advertised_hops r) :: u8) = uint (rt_advertised_hops r)"
    using r by auto
  moreover have "rt_seqno r = rt_seqno rt" using r by auto
  ultimately show ?thesis using e n d by (simp add: backs_def)
qed

section \<open>Requests\<close>

lemma infty_large: "infty_is infty E \<Longrightarrow> 256 \<le> uint infty"
  by (simp add: infty_is_def)

lemma rreq_at_destination_honest: "honest infty C s (rreq_at_destination E p rq s)"
proof -
  let ?s1 = "s\<lparr>seqno := reply_seqno (seqno s) (rq_dst_seqno rq)\<rparr>"
  have "honest infty C s ?s1" by (rule honest_frame) simp_all
  then show ?thesis
    unfolding rreq_at_destination_def Let_def by (simp add: sendReply_honest backs_def)
qed

lemma rreq_fresh_route_honest:
  assumes rt: "rt_lookup (rq_dst rq) (rtable s) = Some rt" and f: "rreq_fresh_route E p rq hr rt s = Inr s'"
    and E: "infty_is infty E" and d: "rq_dst rq \<noteq> index s"
  shows "honest infty C s s'"
proof -
  let ?rt = "(advertise E rt)\<lparr>rt_error := True\<rparr>"
  consider "s' = emit (Freed p) s"
    | b lt lh where "rt_path_list rt \<noteq> []" "s' = emit (Freed p) (sendReply E (rq_src rq) (ucast (rt_advertised_hops ?rt)) (rq_dst rq)
        (rt_seqno ?rt) lt (rq_timestamp rq) (ih_saddr p) (rq_bcast_id rq) lh
        (s\<lparr>bihead := id_put b (bihead s), rtable := rt_put ?rt (rtable s)\<rparr>))"
    using f by (auto simp: rreq_fresh_route_def Let_def assertE_def path_find_def dest!: bindE_InrD
        split: if_splits option.splits list.splits)
  then show ?thesis
  proof cases
    case 1
    then show ?thesis by (simp add: honest_frame)
  next
    case 2
    let ?t = "s\<lparr>bihead := id_put b (bihead s), rtable := rt_put ?rt (rtable s)\<rparr>"
    have "honest infty C s (s\<lparr>rtable := rt_put ?rt (rtable s)\<rparr>)"
      by (rule honest_put [OF rt]) (simp add: entry_step_advertise [OF E 2(1)])
    then have t: "honest infty C s ?t" using honest_cong [of ?t "s\<lparr>rtable := rt_put ?rt (rtable s)\<rparr>" infty C s] by simp
    have "entry_at (rq_dst rq) ?t = ?rt"
      using rt rtl.lookup_key [OF rt] by (simp add: entry_at_def rtl.lookup_put)
    then have "backs ?t (rq_dst rq) (rt_seqno ?rt) (uint (ucast (rt_advertised_hops ?rt) :: u8))" if "small infty s"
      using small_step [OF that t] d by (intro backs_advertised [OF E, of _ _ _ rt True]) simp_all
    then have "honest infty C s (sendReply E (rq_src rq) (ucast (rt_advertised_hops ?rt)) (rq_dst rq)
        (rt_seqno ?rt) lt (rq_timestamp rq) (ih_saddr p) (rq_bcast_id rq) lh ?t)"
      by (intro sendReply_honest [OF t]) (simp add: ucast_twice)
    then show ?thesis by (simp only: 2(2) honest_freed)
  qed
qed

lemma rreq_propagate_honest:
  assumes f: "rreq_propagate E p rq s = Inr s'" and E: "infty_is infty E"
    and n: "rt_seqno (entry_at (rq_src rq) s) = rq_src_seqno rq" "rq_src rq \<noteq> index s"
  shows "honest infty C s s'"
proof -
  obtain rt0 where rt0: "rt_lookup (rq_src rq) (rtable s) = Some rt0"
    using f by (auto simp: rreq_propagate_def Let_def split: option.splits)
  let ?r = "advertise E rt0"
  let ?t = "s\<lparr>rtable := rt_put ?r (rtable s)\<rparr>"
  obtain q where ne: "rt_path_list rt0 \<noteq> []" and fwd: "forward E None q EAMRP_DELAY ?t = Inr s'"
    and q: "offers q \<subseteq> {(index ?t, rq_src rq, rq_src_seqno rq, ucast (rt_advertised_hops ?r))}"
    using f rt0 by (fastforce simp: rreq_propagate_def Let_def offers_def path_find_def split: option.splits if_splits list.splits)
  have t: "honest infty C s ?t" by (rule honest_put [OF rt0 entry_step_advertise [OF E ne]])
  have e: "entry_at (rq_src rq) ?t = ?r" using rt0 rtl.lookup_key [OF rt0] by (simp add: entry_at_def rtl.lookup_put)
  have "rq_src_seqno rq = rt_seqno rt0" using n(1) entry_at_Some [OF rt0] by simp
  from backs_advertised [OF E e _ this] have "offers_backed ?t (offers q)" if "small infty ?t"
    using that q n(2) by (auto simp: offers_backed_def)
  from forward_honest [OF fwd this] have "honest infty C ?t s'" .
  with t show ?thesis by (rule honest_trans)
qed

lemma rreq_answer_honest:
  assumes f: "rreq_answer E p rq kill hr s = Inr s'" and E: "infty_is infty E"
    and n: "rt_seqno (entry_at (rq_src rq) s) = rq_src_seqno rq" "rq_src rq \<noteq> index s"
  shows "honest infty C s s'"
proof -
  note propagated = rreq_propagate_honest [OF _ E n]
  show ?thesis
  proof (cases "rq_dst rq = index s")
    case True
    then have "s' = rreq_at_destination E p rq s" using f by (simp add: rreq_answer_def)
    then show ?thesis by (simp add: rreq_at_destination_honest)
  next
    case False
    show ?thesis
    proof (cases "rt_lookup (rq_dst rq) (rtable s)")
      case None
      with f False propagated show ?thesis by (auto simp: rreq_answer_def split: if_splits)
    next
      case (Some rt)
      with f False propagated rreq_fresh_route_honest [OF Some _ E False] show ?thesis
        by (auto simp: rreq_answer_def split: if_splits)
    qed
  qed
qed

text \<open>What both handlers do with a new path: store the entry, send what was buffered, and go on.\<close>

lemma flush_same_number:
  assumes "flush_buffer E d s = Inr u" and "buffer_ok (rqueue s)"
  shows "rt_seqno (entry_at c u) = rt_seqno (entry_at c s)"
proof -
  have "route_of c u = route_of c s" using flush_buffer_quiet [OF assms(2,1)] by (simp add: quiet_step_def)
  then show ?thesis by (auto simp: route_of_def outline_def entry_at_def split: option.splits)
qed

lemma stored_and_flushed:
  assumes h: "honest infty C s t" and rt: "rt_lookup d (rtable t) = Some rt" and e: "entry_step infty C rt r"
    and fl: "flush_buffer E d (t\<lparr>rtable := rt_put r (rtable t)\<rparr>) = Inr u" and buf: "buffer_ok (rqueue t)"
  shows "honest infty C s u \<and> rt_seqno (entry_at d u) = rt_seqno r"
proof -
  let ?t = "t\<lparr>rtable := rt_put r (rtable t)\<rparr>"
  have "honest infty C t ?t" by (rule honest_put [OF rt e])
  moreover have "honest infty C ?t u" using flush_honest [OF fl] buf by simp
  moreover have "rt_dst r = d" using e rtl.lookup_key [OF rt] by (simp add: entry_step_def)
  then have "entry_at d ?t = r" using rt by (simp add: entry_at_put)
  then have "rt_seqno (entry_at d u) = rt_seqno r" using flush_same_number [OF fl, of d] buf by simp
  ultimately show ?thesis using honest_trans [OF honest_trans [OF h]] by blast
qed

lemma recvRequest_honest:
  assumes inv: "node_inv s" and f: "recvRequest E p rq s = Inr s'" and E: "infty_is infty E"
    and C: "(ih_saddr p, rq_src rq, rq_src_seqno rq, rq_hop_count rq) \<in> C" and h: "uint (rq_hop_count rq) < 255"
  shows "honest infty C s s'"
proof (cases "rq_src rq = index s")
  case True
  then have "s' = emit (Freed p) s" using f by (simp add: recvRequest_def)
  then show ?thesis by simp
next
  case False
  let ?kill = "id_get (rq_src rq, rq_bcast_id rq) (bihead s) \<noteq> None"
  define s1 where "s1 = (if ?kill then s else s\<lparr>bihead := id_insert (now E) (rq_src rq) (rq_bcast_id rq) (bihead s)\<rparr>)"
  define rq1 where "rq1 = (if rq_hop_count rq = 0 then rq\<lparr>rq_first_hop := index s\<rparr> else rq)"
  define p1 where "p1 = p\<lparr>hdr := Rreq rq1\<rparr>"
  have rq1: "rq_src rq1 = rq_src rq" "rq_src_seqno rq1 = rq_src_seqno rq" "rq_hop_count rq1 = rq_hop_count rq"
    "ih_saddr p1 = ih_saddr p" by (simp_all add: rq1_def p1_def)
  have "bindE (ensure_rt E (rq_src rq1) s1) (rreq_process E p1 rq1 ?kill) = Inr s'"
    using f False by (simp add: recvRequest_def Let_def rq1_def s1_def p1_def)
  from bindE_InrD [OF this] obtain s2 where e: "ensure_rt E (rq_src rq) s1 = Inr s2"
    and r: "rreq_process E p1 rq1 ?kill s2 = Inr s'" using rq1(1) by auto
  have "honest infty C s s1" by (rule honest_frame) (simp_all add: s1_def)
  then have s2: "honest infty C s s2" by (rule honest_trans [OF _ ensure_honest [OF e]])
  have q2: "buffer_ok (rqueue s2)" using ensure_rt_rqueue [OF e] node_invD(4) [OF inv] by (simp add: s1_def)
  obtain rt0 rt1 o1 where rt0: "rt_lookup (rq_src rq) (rtable s2) = Some rt0"
    and rev: "rreq_reverse E (eamrp_max_paths s2) (eamrp_prim_alt_path_len_diff s2) (index s2) (ih_saddr p) rq1 rt0
      = Inr (rt1, o1)"
    and c: "rreq_continue E p1 rq1 ?kill (rt1, o1) s2 = Inr s'"
    using r by (auto simp: rreq_process_def rq1 dest!: bindE_InrD split: option.splits)
  have rt1: "entry_step infty C rt0 rt1 \<and> (o1 \<noteq> Rev_drop \<longrightarrow> rt_seqno rt1 = rq_src_seqno rq1)"
    using C h by (intro rreq_reverse_honest [OF rev E]) (simp_all add: rq1 rtl.lookup_key [OF rt0])
  let ?s3 = "s2\<lparr>rtable := rt_put rt1 (rtable s2)\<rparr>"
  consider "s' = emit (Freed p1) ?s3"
    | hr s4 where "o1 \<noteq> Rev_drop" "flush_buffer E (rq_src rq) ?s3 = Inr s4" "rreq_answer E p1 rq1 ?kill hr s4 = Inr s'"
    using c by (auto simp: rreq_continue_def Let_def rq1 dest!: bindE_InrD split: rev_outcome.splits)
  then show ?thesis
  proof cases
    case 1
    from honest_trans [OF s2 honest_put [OF rt0]] rt1 have "honest infty C s ?s3" by blast
    then show ?thesis by (simp add: 1)
  next
    case 2
    have s4: "honest infty C s s4" "rt_seqno (entry_at (rq_src rq1) s4) = rq_src_seqno rq1"
      using stored_and_flushed [OF s2 rt0 conjunct1 [OF rt1] 2(2) q2] rt1 2(1) by (simp_all add: rq1)
    have "rq_src rq1 \<noteq> index s4" using False honestD(1) [OF s4(1)] by (simp add: rq1)
    from honest_trans [OF s4(1) rreq_answer_honest [OF 2(3) E s4(2) this]] show ?thesis .
  qed
qed

section \<open>Replies\<close>

lemma upd_rt_honest:
  assumes "upd_rt d g s = Inr t" and "\<And>rt. rt_lookup d (rtable s) = Some rt \<Longrightarrow> entry_step infty C rt (g rt)"
  shows "honest infty C s t"
  using assms by (auto simp: upd_rt_def intro: honest_put split: option.splits)

lemma upd_rt_numbers:
  assumes "upd_rt d g s = Inr t" and "\<And>rt. rt_dst (g rt) = rt_dst rt \<and> rt_seqno (g rt) = rt_seqno rt
    \<and> rt_advertised_hops (g rt) = rt_advertised_hops rt"
  shows "same_numbers s t"
  using assms by (auto simp: upd_rt_def intro: same_numbers_put split: option.splits)

lemma upd_rt_small:
  assumes u: "upd_rt d g s = Inr t" and g: "\<And>rt. rt_dst (g rt) = rt_dst rt" "\<And>rt. hops_small infty (g rt) = hops_small infty rt"
  shows "small infty t = small infty s"
proof -
  obtain rt where rt: "rt_lookup d (rtable s) = Some rt" "t = s\<lparr>rtable := rt_put (g rt) (rtable s)\<rparr>"
    using u by (auto simp: upd_rt_def split: option.splits)
  have "hops_small infty (entry_at c t) = hops_small infty (entry_at c s)" for c
    using entry_at_put [OF rt(1), of "g rt" c] rtl.lookup_key [OF rt(1)] entry_at_Some [OF rt(1)] g by (simp add: rt(2))
  then show ?thesis by (simp add: small_def)
qed

lemma hops_small_fields [simp]:
  "hops_small infty (set_head_expire t rt) = hops_small infty rt" "hops_small infty (rt\<lparr>rt_error := e\<rparr>) = hops_small infty rt"
  by (auto simp: hops_small_def set_head_expire_def split: list.splits)

lemma rrep_send_honest:
  assumes f: "rrep_send E p rp path rt s = Inr s'" and E: "infty_is infty E" and p: "\<And>h. hdr p \<noteq> Hello h"
    and b: "small infty s \<Longrightarrow> backs s (rp_dst rp) (rp_dst_seqno rp) (uint (ucast (rt_advertised_hops rt) :: u8))"
  shows "honest infty C s s'"
proof -
  obtain s1 s2 q where s1: "upd_rt (ih_daddr p) (set_head_expire (now E + ACTIVE_ROUTE_TIMEOUT)) s = Inr s1"
    and s2: "upd_rt (rp_dst rp) (\<lambda>r. r\<lparr>rt_error := True\<rparr>) s1 = Inr s2"
    and fwd: "forward E (Some (ih_daddr p)) q NO_EAMRP_DELAY s2 = Inr s'"
    and q: "offers q \<subseteq> {(index s, rp_dst rp, rp_dst_seqno rp, ucast (rt_advertised_hops rt))}"
    using f p by (fastforce simp: rrep_send_def Let_def offers_def put_reply_def dest!: bindE_InrD
        split: option.splits hdr_all_eamrp.splits if_splits)
  have h1: "honest infty C s s1" by (rule upd_rt_honest [OF s1]) simp
  have h2: "honest infty C s1 s2" by (rule upd_rt_honest [OF s2]) simp
  note h = honest_trans [OF h1 h2]
  have sm: "small infty s2 = small infty s" using upd_rt_small [OF s1] upd_rt_small [OF s2] by simp
  have "offers_backed s2 (offers q)" if "small infty s2"
  proof -
    have "offers_backed s (offers q)" using b q that by (auto simp: offers_backed_def sm)
    moreover have "same_numbers s s2"
      by (rule same_numbers_trans [OF upd_rt_numbers [OF s1] upd_rt_numbers [OF s2]]) simp_all
    ultimately show ?thesis using offers_backed_same by blast
  qed
  from honest_trans [OF h forward_honest [OF fwd this]] show ?thesis .
qed

lemma rrep_relay_honest:
  assumes f: "rrep_relay E p rp s = Inr s'" and E: "infty_is infty E" and p: "\<And>h. hdr p \<noteq> Hello h"
    and n: "rt_seqno (entry_at (rp_dst rp) s) = rp_dst_seqno rp" "rp_dst rp \<noteq> index s"
  shows "honest infty C s s'"
proof -
  consider (freed) "s' = emit (Freed p) s"
    | (sent) b s1 path rt where "upd_rt (rp_dst rp) (advertise E) (s\<lparr>bihead := id_put b (bihead s)\<rparr>) = Inr s1"
      "rt_lookup (rp_dst rp) (rtable s1) = Some rt" "rrep_send E p rp path rt s1 = Inr s'"
    using f by (auto simp: rrep_relay_def Let_def dest!: bindE_InrD split: option.splits if_splits)
  then show ?thesis
  proof cases
    case freed
    then show ?thesis by simp
  next
    case sent
    let ?s = "s\<lparr>bihead := id_put b (bihead s)\<rparr>"
    obtain rt0 where rt0: "rt_lookup (rp_dst rp) (rtable s) = Some rt0" and s1: "s1 = ?s\<lparr>rtable := rt_put (advertise E rt0) (rtable s)\<rparr>"
      using sent(1) by (auto simp: upd_rt_def split: option.splits)
    have rt: "rt = advertise E rt0" using sent(2) rt0 rtl.lookup_key [OF rt0] by (simp add: s1 rtl.lookup_put)
    have e: "entry_at (rp_dst rp) s1 = advertise E rt0" using entry_at_Some [OF sent(2)] rt by simp
    have "honest infty C s ?s" by (rule honest_frame) simp_all
    moreover have ne: "rt_path_list rt0 \<noteq> []"
      using sent(3) by (auto simp: rrep_send_def rt path_find_def split: option.splits list.splits)
    then have "honest infty C ?s s1"
      using rt0 by (intro upd_rt_honest [OF sent(1)]) (simp add: entry_step_advertise [OF E])
    moreover have "rp_dst_seqno rp = rt_seqno rt0" using n(1) entry_at_Some [OF rt0] by simp
    from backs_advertised [OF E e _ this] have "honest infty C s1 s'"
      using n(2) by (intro rrep_send_honest [OF sent(3) E p]) (simp add: rt s1)
    ultimately show ?thesis using honest_trans by blast
  qed
qed

lemma recvReply_honest:
  assumes buf: "buffer_ok (rqueue s)" and f: "recvReply E p rp s = Inr s'" and E: "infty_is infty E"
    and p: "ih_daddr p = index s \<or> (\<forall>h. hdr p \<noteq> Hello h)"
    and C: "(rp_src rp, rp_dst rp, rp_dst_seqno rp, rp_hop_count rp) \<in> C" and h: "uint (rp_hop_count rp) < 255"
  shows "honest infty C s s'"
proof (cases "rp_dst rp = index s")
  case True
  then have "s' = emit (Freed p) s" using f by (simp add: recvReply_def)
  then show ?thesis by simp
next
  case False
  obtain s1 rt rt1 b where e: "ensure_rt E (rp_dst rp) s = Inr s1"
    and rt: "rt_lookup (rp_dst rp) (rtable s1) = Some rt"
    and path: "rrep_forward_path E (eamrp_max_paths s1) (eamrp_prim_alt_path_len_diff s1) rp rt = Inr (rt1, b)"
    and c: "rrep_continue E p rp (rt1, b) s1 = Inr s'"
    using f False by (auto simp: recvReply_def rrep_process_def dest!: bindE_InrD split: option.splits)
  let ?s2 = "s1\<lparr>rtable := rt_put rt1 (rtable s1)\<rparr>"
  have s1: "honest infty C s s1" by (rule ensure_honest [OF e])
  have q1: "buffer_ok (rqueue s1)" "index s1 = index s" using ensure_rt_frame [OF e] buf by simp_all
  have rt1: "entry_step infty C rt rt1 \<and> (b \<longrightarrow> rt_seqno rt1 = rp_dst_seqno rp)"
    using C h by (intro rrep_forward_path_honest [OF path E]) (simp_all add: rtl.lookup_key [OF rt])
  consider "s' = emit (Freed p) ?s2"
    | s3 where "b" "flush_buffer E (rp_dst rp) ?s2 = Inr s3"
        "ih_daddr p = index s \<and> s' = emit (Freed p) s3 \<or> (\<forall>h. hdr p \<noteq> Hello h) \<and> rrep_relay E p rp s3 = Inr s'"
    using c p q1(2) by (auto simp: rrep_continue_def Let_def dest!: bindE_InrD split: if_splits)
  then show ?thesis
  proof cases
    case 1
    from honest_trans [OF s1 honest_put [OF rt]] rt1 have "honest infty C s ?s2" by blast
    then show ?thesis by (simp add: 1)
  next
    case 2
    have s3: "honest infty C s s3" "rt_seqno (entry_at (rp_dst rp) s3) = rp_dst_seqno rp"
      using stored_and_flushed [OF s1 rt conjunct1 [OF rt1] 2(2) q1(1)] rt1 2(1) by simp_all
    have d: "rp_dst rp \<noteq> index s3" using False honestD(1) [OF s3(1)] by simp
    from 2(3) show ?thesis
      using s3(1) honest_trans [OF s3(1) rrep_relay_honest [OF _ E _ s3(2) d]] by auto
  qed
qed

section \<open>Route errors\<close>

lemma rerr_entry_honest:
  assumes f: "rerr_entry E a sq nre rt = Inr (nre', rt')" and E: "infty_is infty E" and ok: "entry_ok m rt"
    and sq: "odd_or_zero sq"
  shows "entry_step infty C rt rt'"
proof (cases "rt_flags rt = RTF_UP \<and> path_lookup a rt \<noteq> None \<and> rt_seqno rt \<le> sq")
  case False
  with f show ?thesis by (auto simp: rerr_entry_def)
next
  case True
  let ?rt1 = "path_delete a rt"
  let ?h = "max (rt_highest_seqno_heard rt) sq"
  let ?r = "?rt1\<lparr>rt_highest_seqno_heard := ?h, rt_seqno := ?h\<rparr>"
  have sel: "rt_flags ?rt1 = RTF_UP" "rt_highest_seqno_heard ?rt1 = rt_highest_seqno_heard rt" "rt_dst ?rt1 = rt_dst rt"
    using True by (simp_all add: path_delete_def split: option.splits)
  have "odd_or_zero ?h" using entry_okD(10) [OF ok] sq by (rule odd_or_zero_max2)
  moreover have "even (rt_seqno rt)" "rt_seqno rt \<noteq> 0" using entry_okD(7,8) [OF ok] True by simp_all
  moreover have "rt_seqno rt \<le> ?h" using True by (simp add: le_max_iff_disj)
  ultimately have "rt_seqno rt < ?h" using even_not_odd_or_zero by (metis order_le_neq_trans)
  then have down: "entry_step infty C rt (rt_down E ?r)" by (intro entry_step_down [OF E]) (simp_all add: sel True)
  have "rt' = ?rt1\<lparr>rt_highest_seqno_heard := ?h\<rparr> \<or> rt' = rt_down E ?r \<or> rt' = (rt_down E ?r)\<lparr>rt_error := False\<rparr>"
    using f True by (auto simp: rerr_entry_def sel Let_def assertE_def dest!: bindE_InrD split: if_splits)
  with down show ?thesis by auto
qed

lemma rerr_step_honest:
  assumes s: "node_inv s" and re: "re_ok re" and i: "i < unat (DestCount re)" and E: "infty_is infty E"
    and f: "rerr_step E a re i (nre, s) = Inr (nre', s')"
  shows "honest infty C s s'"
proof -
  let ?d = "unreachable_dst re ! i" and ?sq = "unreachable_dst_seqno re ! i"
  have get: "re_get re i = Inr (?d, ?sq)" "odd_or_zero ?sq" using re i by (auto simp: re_get_def re_ok_def)
  show ?thesis
  proof (cases "rt_lookup ?d (rtable s)")
    case None
    with f get show ?thesis by (simp add: rerr_step_def)
  next
    case (Some rt)
    then obtain rt' where "rerr_entry E a ?sq nre rt = Inr (nre', rt')" "s' = s\<lparr>rtable := rt_put rt' (rtable s)\<rparr>"
      using f get by (auto simp: rerr_step_def dest!: bindE_InrD)
    with honest_put [OF Some rerr_entry_honest [OF _ E table_entry(1) [OF node_invD(3) [OF s] Some] get(2)]]
    show ?thesis by simp
  qed
qed

lemma recvError_honest:
  assumes inv: "node_inv s" and re: "re_ok re" and f: "recvError E p re s = Inr s'" and E: "infty_is infty E"
  shows "honest infty C s s'"
proof -
  let ?f = "rerr_step E (ih_saddr p) re"
  obtain nre s1 where w: "foldE ?f [0..<unat (DestCount re)] (re_empty, s) = Inr (nre, s1)"
    and s': "s' = emit (Freed p) (if DestCount nre > 0 then sendError E nre True s1
        else emit (Freed (packet_alloc\<lparr>hdr := Rerr nre\<rparr>)) s1)"
    using f by (auto simp: recvError_def dest!: bindE_InrD)
  let ?J = "\<lambda>i (n, t). node_inv t \<and> re_ok n \<and> unat (DestCount n) \<le> i \<and> honest infty C s t"
  have "safe UNIV (?J (unat (DestCount re))) (foldE ?f [0..<unat (DestCount re)] (re_empty, s))"
  proof (rule safe_foldE_upt)
    fix i x
    assume i: "i < unat (DestCount re)" and x: "?J i x"
    obtain n t where nt: "x = (n, t)" by (cases x)
    have ok: "node_inv t" "re_ok n" "unat (DestCount n) \<le> i" and h: "honest infty C s t" using x by (simp_all add: nt)
    show "safe UNIV (?J (Suc i)) (?f i x)"
    proof (cases "?f i x")
      case (Inr y)
      obtain n' t' where y: "y = (n', t')" by (cases y)
      have st: "?f i (n, t) = Inr (n', t')" using Inr nt y by simp
      from safe_InrD [OF rerr_step_ok [OF ok(1) re ok(2) i ok(3)] st]
        honest_trans [OF h rerr_step_honest [OF ok(1) re i E st]]
      show ?thesis by (simp add: Inr y)
    qed simp
  qed (simp add: inv)
  then have "honest infty C s s1" using w by simp
  then show ?thesis by (simp add: s' sendError_honest)
qed

section \<open>Every step of a node\<close>

lemma recvHello_honest:
  assumes buf: "buffer_ok (rqueue s)" and f: "recvHello E p rp s = Inr s'" and E: "infty_is infty E"
    and C: "(ih_saddr p, rp_dst rp, rp_dst_seqno rp, rp_hop_count rp) \<in> C" and h: "uint (rp_hop_count rp) < 255"
  shows "honest infty C s s'"
proof -
  let ?nb = "\<lambda>nb. nb\<lparr>nb_expire := now E + 15 / 10 * ALLOWED_HELLO_LOSS * HELLO_INTERVAL\<rparr>"
  define s1 where "s1 = (case nb_lookup (rp_dst rp) s of None \<Rightarrow> nb_insert E (rp_dst rp) s
    | Some nb \<Rightarrow> s\<lparr>nbhead := nb_put (?nb nb) (nbhead s)\<rparr>)"
  let ?rp = "rp\<lparr>rp_src := ih_saddr p, rp_first_hop := index s\<rparr>"
  have s1: "index s1 = index s" "rqueue s1 = rqueue s" "honest infty C s s1"
    by (auto simp: s1_def nb_insert_def intro!: honest_frame split: option.split)
  have r: "recvReply E (put_reply ?rp (p\<lparr>ih_daddr := index s\<rparr>)) ?rp s1 = Inr s'"
    using f by (simp only: recvHello_def Let_def s1_def)
  have "honest infty C s1 s'"
    by (rule recvReply_honest [OF _ r E]) (use buf C h s1 in \<open>simp_all add: put_reply_def\<close>)
  with s1(3) show ?thesis by (rule honest_trans)
qed

lemma recvEAMRP_honest:
  assumes inv: "node_inv s" and p: "ch_ptype p = PT_EAMRP" "msg_wf p" and f: "recvEAMRP E p s = Inr s'"
    and E: "infty_is infty E" and h: "\<forall>(x, c, n, h)\<in>offers p. uint h < 255"
  shows "honest infty (offers p) s s'"
proof -
  note buf = node_invD(4) [OF inv]
  show ?thesis
  proof (cases "hdr p")
    case (Rreq rq)
    then have "recvRequest E p rq s = Inr s'" using f by (auto simp: recvEAMRP_def assertE_def split: if_splits)
    then show ?thesis using p h Rreq by (intro recvRequest_honest [OF inv _ E]) (simp_all add: offers_def)
  next
    case (Rrep rp)
    then have "recvReply E p rp s = Inr s'" using f by (auto simp: recvEAMRP_def assertE_def split: if_splits)
    moreover have "offers p = {(rp_src rp, rp_dst rp, rp_dst_seqno rp, rp_hop_count rp)}" "\<forall>h. hdr p \<noteq> Hello h"
      using p(1) Rrep by (simp_all add: offers_def)
    ultimately show ?thesis using h by (intro recvReply_honest [OF buf _ E]) auto
  next
    case (Rerr re)
    then have "recvError E p re s = Inr s'" using f by (auto simp: recvEAMRP_def assertE_def split: if_splits)
    then show ?thesis using p Rerr by (intro recvError_honest [OF inv _ _ E]) (simp_all add: msg_wf_def)
  next
    case (Hello rp)
    then have "recvHello E p rp s = Inr s'" using f by (auto simp: recvEAMRP_def assertE_def split: if_splits)
    then show ?thesis using p h Hello by (intro recvHello_honest [OF buf _ E]) (simp_all add: offers_def)
  next
    case (Raw t)
    with f show ?thesis by (auto simp: recvEAMRP_def assertE_def split: if_splits)
  qed
qed

lemma recv_honest:
  assumes inv: "node_inv s" and p: "msg_wf p" and f: "recv E p s = Inr s'"
    and E: "infty_is infty E" and h: "\<forall>(x, c, n, h)\<in>offers p. uint h < 255"
  shows "honest infty (offers p) s s'"
proof (cases "ch_ptype p = PT_EAMRP")
  case True
  have ttl: "offers (p\<lparr>ih_ttl := x\<rparr>) = offers p" for x by (simp add: offers_def split: hdr_all_eamrp.split)
  have "recvEAMRP E (p\<lparr>ih_ttl := ih_ttl p - 1\<rparr>) s = Inr s'"
    using f True by (simp add: recv_def assertE_def split: if_splits)
  from recvEAMRP_honest [OF inv _ _ this E] True p h show ?thesis by (simp add: ttl)
next
  case False
  consider q why where "s' = emit (Dropped q why) s"
    | q where "recv_deliver E q s = Inr s'" "ch_ptype q = ch_ptype p"
    using f False by (auto simp: recv_def assertE_def Let_def split: if_splits)
  then show ?thesis
  proof cases
    case 2
    with False have q: "ch_ptype q \<noteq> PT_EAMRP" by simp
    from 2(1) rt_resolve_honest [OF q] forward_data_honest [OF _ q] show ?thesis
      unfolding recv_deliver_def by (cases "ih_daddr q = IP_BROADCAST") simp_all
  qed simp
qed

fun offered :: "input \<Rightarrow> offer set" where
  "offered (Recv p) = offers p"
| "offered _ = {}"

lemma node_step_honest:
  assumes inv: "node_inv s" and i: "input_ok i" and f: "node_step E i s = Inr s'" and E: "infty_is infty E"
    and h: "\<forall>(x, c, n, h)\<in>offered i. uint h < 255"
  shows "honest infty (offered i) s s'"
proof (cases i)
  case (Recv p)
  with f i h recv_honest [OF inv _ _ E] show ?thesis by simp
next
  case (Ll_failed p)
  with f have "s' = emit (Dropped p DROP_RTR_MAC_CALLBACK) s" by (simp add: rt_ll_failed_def)
  then show ?thesis by simp
next
  case Bcast_expired
  with f have "s' = broadcast_timer E s" by simp
  then show ?thesis by (auto simp: broadcast_timer_def intro: honest_frame)
next
  case Hello_expired
  with f show ?thesis by (simp add: hello_timer_honest)
next
  case Nb_expired
  with f obtain s1 where "nb_purge E s = Inr s1" "s' = emit (Timer_set Ntimer HELLO_INTERVAL) s1"
    by (auto simp: neighbor_timer_def dest!: bindE_InrD)
  with nb_purge_honest [OF _ E] show ?thesis by simp
next
  case Route_expired
  with f obtain s1 where "rt_purge E s = Inr s1" "s' = emit (Timer_set Rtimer FREQUENCY) s1"
    by (auto simp: route_cache_timer_def dest!: bindE_InrD)
  with rt_purge_honest [OF inv _ E] show ?thesis by simp
next
  case (Repair_expired p)
  with f have "s' = emit (Freed p) s" using local_repair_timer_id [OF inv, of E p] by simp
  then show ?thesis by simp
qed

end
