(* ===== verification/History.thy ===== *)
theory History
  imports OfferRecv Machine
begin

text \<open>
  The network remembers. Every node is given the history of the hop counts it has ever
  advertised; then each route, each message under way and each promise rests on a promise of
  another node that is one hop nearer, down to the destination itself. This is the invariant
  behind loop freedom, the bound on hop counts and the hop count assertion of the handlers.
\<close>

section \<open>Steps of the network\<close>

text \<open>
  A step of \<open>net_step\<close> taken by node \<open>a\<close>, in a program built with \<open>infty\<close> for \<^verbatim>\<open>INFINITY\<close>; a run
  of such steps of the nodes \<open>A\<close>; and a run in which no message the nodes may accept has reached
  the largest hop count, which the next node would wrap.
\<close>

inductive route_step :: "u16 \<Rightarrow> nsaddr \<Rightarrow> net \<Rightarrow> net \<Rightarrow> bool" for infty a n where
  route_stepI: "a \<noteq> IP_BROADCAST \<Longrightarrow> env_ok E \<Longrightarrow> infty_is infty E \<Longrightarrow> input_ok i \<Longrightarrow>
     \<forall>p. i = Recv p \<longrightarrow> ch_ptype p = PT_EAMRP \<longrightarrow> (\<exists>q\<in>air n. same_message q p) \<Longrightarrow>
     node_step E i (nodes n a) = Inr s' \<Longrightarrow> route_step infty a n (put_node a s' n)"

inductive_cases route_stepE: "route_step infty a n n'"

inductive nodes_reach :: "u16 \<Rightarrow> nsaddr set \<Rightarrow> net \<Rightarrow> net \<Rightarrow> bool" for infty A n0 where
  nodes_start: "nodes_reach infty A n0 n0"
| nodes_step: "nodes_reach infty A n0 n \<Longrightarrow> a \<in> A \<Longrightarrow> route_step infty a n n' \<Longrightarrow> nodes_reach infty A n0 n'"

definition hop_room :: "net \<Rightarrow> bool" where
  "hop_room n \<longleftrightarrow> (\<forall>p\<in>air n. msg_live p \<longrightarrow> (\<forall>(x, c, m, h)\<in>offers p. h \<noteq> 255))"

inductive hop_reach :: "u16 \<Rightarrow> nsaddr set \<Rightarrow> net \<Rightarrow> net \<Rightarrow> bool" for infty A n0 where
  hop_start: "hop_reach infty A n0 n0"
| hop_step: "hop_reach infty A n0 n \<Longrightarrow> hop_room n \<Longrightarrow> a \<in> A \<Longrightarrow> route_step infty a n n' \<Longrightarrow> hop_reach infty A n0 n'"

section \<open>The invariant\<close>

type_synonym history = "nsaddr \<Rightarrow> promises"

definition said :: "nsaddr set \<Rightarrow> history \<Rightarrow> nsaddr \<Rightarrow> nsaddr \<Rightarrow> u32 \<Rightarrow> int \<Rightarrow> bool" where
  "said A G x c m k \<longleftrightarrow> x \<in> A \<and> (if c = x then k = 0 else G x (c, m) = Some k)"

text \<open>A fresh entry carries number zero and the hop count of the constructor.\<close>

definition blank_promises :: promises where
  "blank_promises = (\<lambda>(c, m). if m = 0 then Some 255 else None)"

definition faithful :: "u16 \<Rightarrow> nsaddr set \<Rightarrow> history \<Rightarrow> net \<Rightarrow> bool" where
  "faithful infty A G n \<longleftrightarrow>
     (\<forall>a. index (nodes n a) = a \<and> small infty (nodes n a) \<and> sent (nodes n a) \<subseteq> air n \<and> keeps infty (nodes n a) (G a))
     \<and> (\<forall>q\<in>air n. \<forall>(x, c, m, h)\<in>offers q. said A G x c m (uint h))
     \<and> (\<forall>a c. \<forall>p\<in>set (rt_path_list (entry_at c (nodes n a))).
          said A G (nexthop p) c (rt_seqno (entry_at c (nodes n a))) (uint (hopcount p) - 1))
     \<and> (\<forall>a c m k. G a (c, m) = Some k \<longrightarrow> m = 0 \<or> 1 \<le> k \<and> (\<exists>y. said A G y c m (k - 1)))"

lemma faithfulD:
  assumes "faithful infty A G n"
  shows "index (nodes n a) = a" "small infty (nodes n a)" "sent (nodes n a) \<subseteq> air n" "keeps infty (nodes n a) (G a)"
    and "q \<in> air n \<Longrightarrow> (x, c, m, h) \<in> offers q \<Longrightarrow> said A G x c m (uint h)"
    and "p \<in> set (rt_path_list (entry_at c (nodes n a))) \<Longrightarrow>
      said A G (nexthop p) c (rt_seqno (entry_at c (nodes n a))) (uint (hopcount p) - 1)"
    and "G a (c, m) = Some k \<Longrightarrow> m = 0 \<or> 1 \<le> k \<and> (\<exists>y. said A G y c m (k - 1))"
  using assms unfolding faithful_def by blast+

lemma said_fun: "said A G x c m k \<Longrightarrow> said A G x c m k' \<Longrightarrow> k' = k"
  by (auto simp: said_def split: if_splits)

lemma said_extend: "said A G x c m k \<Longrightarrow> (\<And>x. G x \<subseteq>\<^sub>m G' x) \<Longrightarrow> said A G' x c m k"
  by (auto simp: said_def map_le_def dom_def split: if_splits)

section \<open>The invariant holds\<close>

lemma same_message_offers: "same_message q p \<Longrightarrow> offers p = offers q"
  by (auto simp: same_message_def offers_def split: hdr_all_eamrp.split)

lemma uint_u8 [simp]: "uint (h :: u8) < 256"
  using uint_lt2p [of h] by simp

lemma u8_below: "(h :: u8) \<noteq> 255 \<longleftrightarrow> uint h < 255"
proof -
  have "h = 255 \<longleftrightarrow> uint h = uint (255 :: u8)" by (metis word_uint_eqI)
  then have "h = 255 \<longleftrightarrow> uint h = 255" by simp
  then show ?thesis using uint_u8 [of h] by linarith
qed

lemma put_node_nodes [simp]: "nodes (put_node a s n) b = (if b = a then s else nodes n b)"
  by (simp add: put_node_def)

text \<open>What a node hears is said, and leaves room to count one hop more.\<close>

lemma heard_offers:
  assumes "faithful infty A G n" and "hop_room n" and i: "input_ok i"
    and src: "\<forall>p. i = Recv p \<longrightarrow> ch_ptype p = PT_EAMRP \<longrightarrow> (\<exists>q\<in>air n. same_message q p)"
    and o: "(x, c, m, h) \<in> offered i"
  shows "said A G x c m (uint h)" "uint h < 255"
proof -
  obtain p where p: "i = Recv p" "(x, c, m, h) \<in> offers p" using o by (cases i) simp_all
  then have "ch_ptype p = PT_EAMRP" by (cases "ch_ptype p = PT_EAMRP") simp_all
  with src p(1) obtain q where "q \<in> air n" "same_message q p" by blast
  then have q: "q \<in> air n" "(x, c, m, h) \<in> offers q" "msg_live q"
    using p i same_message_offers same_message_wf(2) by auto
  from faithfulD(5) [OF assms(1) q(1,2)] show "said A G x c m (uint h)" .
  show "uint h < 255" using assms(2) q u8_below [of h] by (fastforce simp: hop_room_def)
qed

lemma supported_said:
  assumes F: "faithful infty A G n" and C: "\<And>x c m h. (x, c, m, h) \<in> C \<Longrightarrow> said A G x c m (uint h)"
    and s: "supported C (entry_at c (nodes n a)) m k"
  shows "1 \<le> k \<and> (\<exists>y. said A G y c m (k - 1))"
  using s unfolding supported_def
proof (elim disjE conjE bexE exE)
  fix p assume p: "m = rt_seqno (entry_at c (nodes n a))" "p \<in> set (rt_path_list (entry_at c (nodes n a)))" "uint (hopcount p) = k"
  have "1 \<le> uint (hopcount p)" using faithfulD(2) [OF F, of a] p(2) by (auto simp: small_def hops_small_def)
  with faithfulD(6) [OF F p(2)] p show ?thesis by blast
next
  fix y h assume "(y, rt_dst (entry_at c (nodes n a)), m, h) \<in> C" "k = uint h + 1"
  with C [of y c m h] show ?thesis by auto
qed

text \<open>A node that takes an honest step, with the promises it makes: the air, the paths, all of it.\<close>

lemma step_air:
  assumes F: "faithful infty A G n" and a: "a \<in> A" and le: "\<And>x. G x \<subseteq>\<^sub>m G' x"
    and s: "\<And>q. q \<in> sent s \<Longrightarrow> q \<in> sent (nodes n a) \<or> offers q \<subseteq> promised a (G' a)"
    and q: "q \<in> air (put_node a s n)" "(x, c, m, k) \<in> offers q"
  shows "said A G' x c m (uint k)"
proof (cases "q \<in> air n")
  case True
  from said_extend [OF faithfulD(5) [OF F True q(2)] le] show ?thesis .
next
  case False
  then have "offers q \<subseteq> promised a (G' a)" using q(1) faithfulD(3) [OF F, of a] s by (auto simp: put_node_def)
  with q(2) a show ?thesis by (auto simp: promised_def said_def split: if_splits)
qed

lemma step_paths:
  assumes F: "faithful infty A G n" and h: "honest infty C (nodes n a) s" and le: "\<And>x. G x \<subseteq>\<^sub>m G' x"
    and C: "\<And>x c m k. (x, c, m, k) \<in> C \<Longrightarrow> said A G x c m (uint k)"
    and p: "p \<in> set (rt_path_list (entry_at c (nodes (put_node a s n) b)))"
  shows "said A G' (nexthop p) c (rt_seqno (entry_at c (nodes (put_node a s n) b))) (uint (hopcount p) - 1)"
proof (cases "b = a")
  case False
  then have "p \<in> set (rt_path_list (entry_at c (nodes n b)))" using p by simp
  from said_extend [OF faithfulD(6) [OF F this] le] False show ?thesis by simp
next
  case True
  let ?e = "entry_at c (nodes n a)"
  have p': "p \<in> set (rt_path_list (entry_at c s))" using p True by simp
  from entry_stepD(3) [OF honestD(2) [OF h] p'] consider q where "q \<in> set (rt_path_list ?e)"
      "rt_seqno (entry_at c s) = rt_seqno ?e" "nexthop q = nexthop p" "hopcount q = hopcount p"
    | k where "(nexthop p, c, rt_seqno (entry_at c s), k) \<in> C" "uint (hopcount p) = uint k + 1"
    by (metis entry_at_dst)
  then show ?thesis
  proof cases
    case 1
    with said_extend [OF faithfulD(6) [OF F 1(1)] le] True show ?thesis by simp
  next
    case 2
    with said_extend [OF C [OF 2(1)] le] True show ?thesis by simp
  qed
qed

lemma faithful_step:
  assumes F: "faithful infty A G n" and a: "a \<in> A" and h: "honest infty C (nodes n a) s"
    and C: "\<And>x c m k. (x, c, m, k) \<in> C \<Longrightarrow> said A G x c m (uint k)"
  shows "\<exists>G'. faithful infty A G' (put_node a s n)"
proof -
  let ?n = "put_node a s n"
  obtain H where H: "grows C (nodes n a) (G a) H" "keeps infty s H"
    "\<And>q. q \<in> sent s \<Longrightarrow> q \<in> sent (nodes n a) \<or> offers q \<subseteq> promised a H"
    using honest_promises [OF h faithfulD(2,4) [OF F]] faithfulD(1) [OF F, of a] by metis
  define G' where "G' = G(a := H)"
  have le: "G x \<subseteq>\<^sub>m G' x" for x using H(1) by (simp add: grows_def G'_def)
  have "index s = a" "small infty s"
    using honestD(1) [OF h] small_step [OF _ h] faithfulD(1,2) [OF F, of a] by simp_all
  then have nodes: "\<forall>b. index (nodes ?n b) = b \<and> small infty (nodes ?n b) \<and> sent (nodes ?n b) \<subseteq> air ?n \<and> keeps infty (nodes ?n b) (G' b)"
    using faithfulD(1-4) [OF F] H(2) by (auto simp: put_node_def G'_def)
  have support: "m = 0 \<or> 1 \<le> k \<and> (\<exists>y. said A G' y c m (k - 1))" if g: "G' b (c, m) = Some k" for b c m k
  proof -
    have "G b (c, m) = Some k \<or> supported C (entry_at c (nodes n a)) m k"
      using g H(1) by (auto simp: G'_def grows_def split: if_splits)
    then have "m = 0 \<or> 1 \<le> k \<and> (\<exists>y. said A G y c m (k - 1))"
      using faithfulD(7) [OF F] supported_said [OF F C] by blast
    moreover have "said A G' y c m (k - 1)" if "said A G y c m (k - 1)" for y by (rule said_extend [OF that le])
    ultimately show ?thesis by blast
  qed
  have "G' a = H" by (simp add: G'_def)
  with step_air [OF F a le] H(3) have "\<forall>q\<in>air ?n. \<forall>(x, c, m, h)\<in>offers q. said A G' x c m (uint h)" by blast
  then have "faithful infty A G' ?n"
    unfolding faithful_def using nodes support step_paths [OF F h le C] by blast
  then show ?thesis by blast
qed

lemma route_step_inv:
  assumes st: "route_step infty a n n'" and a: "a \<in> A" and inv: "net_inv n" and F: "faithful infty A G n" and room: "hop_room n"
  shows "net_inv n' \<and> (\<exists>G'. faithful infty A G' n')"
  using st
proof (rule route_stepE)
  fix E i s'
  assume n': "n' = put_node a s' n" and b: "a \<noteq> IP_BROADCAST" and E: "env_ok E" "infty_is infty E" and i: "input_ok i"
    and src: "\<forall>p. i = Recv p \<longrightarrow> ch_ptype p = 73 \<longrightarrow> (\<exists>q\<in>air n. same_message q p)"
    and f: "node_step E i (nodes n a) = Inr s'"
  have s: "node_inv (nodes n a)" using inv b by (simp add: net_inv_def)
  note heard = heard_offers [OF F room i, simplified, OF src]
  have h: "honest infty (offered i) (nodes n a) s'"
    using heard(2) by (intro node_step_honest [OF s i f E(2)]) auto
  have "net_inv n'"
    unfolding n' by (rule put_node_inv [OF inv node_step_inv(1) [OF s E(1) i f]])
  with faithful_step [OF F a h heard(1)] show ?thesis unfolding n' by blast
qed

lemma connected_faithful:
  assumes "nodes n = connected_node" and "air n = {}" and "256 \<le> uint infty"
  shows "faithful infty A (\<lambda>_. blank_promises) n"
  using assms
  by (auto simp: faithful_def small_def hops_small_def keeps_def entry_at_def connected_node_def EAMRP_new_def
      new_rt_entry_def sent_def INFINITY2_def blank_promises_def split: if_splits)

end
