(* ===== verification/LoopFree.thy ===== *)
theory LoopFree
  imports History
begin

text \<open>
  What the history of the network gives: the routes of all nodes to one destination, all
  alternate paths included, never form a cycle; no hop count exceeds the number of nodes, so that
  up to 255 nodes no hop count wraps; and every check of hop counts in the handlers succeeds.
\<close>

section \<open>Reachable networks\<close>

lemma hop_reach_inv:
  assumes "hop_reach infty A n0 n" and "net_inv n0" and "faithful infty A G0 n0"
  shows "net_inv n \<and> (\<exists>G. faithful infty A G n)"
  using assms(1)
proof (induction rule: hop_reach.induct)
  case hop_start
  with assms(2,3) show ?case by blast
next
  case (hop_step n a n')
  then show ?case using route_step_inv by blast
qed

text \<open>A run of steps needs a proper \<open>infty\<close>; without steps any one does.\<close>

lemma hop_reach_infty: "hop_reach infty A n0 n \<Longrightarrow> n = n0 \<or> 256 \<le> uint infty"
  by (induction rule: hop_reach.induct) (auto elim!: route_stepE dest: infty_large)

lemma connected_reach:
  assumes start: "nodes n0 = connected_node" "air n0 = {}" and reach: "hop_reach infty A n0 n"
  shows "net_inv n \<and> (\<exists>infty' G. faithful infty' A G n)"
proof -
  have inv: "net_inv n0" using start connected_node_inv by (simp add: net_inv_def)
  from hop_reach_infty [OF reach] show ?thesis
  proof
    assume "n = n0"
    with inv connected_faithful [OF start, where infty = "0xffff" and A = A] show ?thesis by auto
  next
    assume "256 \<le> uint infty"
    from hop_reach_inv [OF reach inv connected_faithful [OF start this]] show ?thesis by blast
  qed
qed

section \<open>No cycles\<close>

text \<open>The edges to the next hops of all paths to a destination, except those of the destination itself.\<close>

definition next_hops :: "net \<Rightarrow> nsaddr \<Rightarrow> (nsaddr \<times> nsaddr) set" where
  "next_hops n d = {(a, nexthop p) |a rt p. a \<noteq> d \<and> a \<noteq> IP_BROADCAST
     \<and> rt_lookup d (rtable (nodes n a)) = Some rt \<and> p \<in> set (rt_path_list rt)}"

definition nearer :: "net \<Rightarrow> nsaddr \<Rightarrow> nsaddr \<Rightarrow> nsaddr \<Rightarrow> bool" where
  "nearer n d a b \<longleftrightarrow> (let e = entry_at d (nodes n a); e' = entry_at d (nodes n b) in
     rt_seqno e < rt_seqno e' \<or> rt_seqno e = rt_seqno e' \<and> rt_advertised_hops e' < rt_advertised_hops e)"

lemma nearer_trans: "nearer n d a b \<Longrightarrow> nearer n d b c \<Longrightarrow> nearer n d a c"
  unfolding nearer_def Let_def by (elim disjE conjE) (simp_all add: order_less_trans)

lemma next_hop_nearer:
  assumes inv: "net_inv n" and F: "faithful infty A G n" and e: "(a, b) \<in> next_hops n d"
  shows "b = d \<or> nearer n d a b"
proof -
  obtain rt p where rt: "rt_lookup d (rtable (nodes n a)) = Some rt" "p \<in> set (rt_path_list rt)" "b = nexthop p"
    and a: "a \<noteq> IP_BROADCAST" using e by (auto simp: next_hops_def)
  have "node_inv (nodes n a)" using inv a by (simp add: net_inv_def)
  from table_entry(1) [OF node_invD(3) [OF this] rt(1)] rt(2)
  have "uint (hopcount p) \<le> uint (rt_advertised_hops rt)" by (simp add: entry_ok_def hops_ok_def word_le_def)
  moreover have "said A G b d (rt_seqno rt) (uint (hopcount p) - 1)"
    using faithfulD(6) [OF F, of p d a] rt by (simp add: entry_at_Some)
  then have "b = d \<or> G b (d, rt_seqno rt) = Some (uint (hopcount p) - 1)" by (auto simp: said_def split: if_splits)
  ultimately show ?thesis
    using keepsD(1) [OF faithfulD(4) [OF F, of b], of d "rt_seqno rt" "uint (hopcount p) - 1"] entry_at_Some [OF rt(1)]
    by (auto simp: nearer_def Let_def word_less_def)
qed

lemma route_nearer:
  assumes inv: "net_inv n" and F: "faithful infty A G n" and r: "(a, b) \<in> (next_hops n d)\<^sup>+"
  shows "b = d \<or> nearer n d a b"
  using r
proof (induction rule: trancl_induct)
  case (base b)
  then show ?case by (rule next_hop_nearer [OF inv F])
next
  case (step b c)
  have "b \<noteq> d" using step.hyps(2) by (auto simp: next_hops_def)
  with step.IH next_hop_nearer [OF inv F step.hyps(2)] show ?case by (blast intro: nearer_trans)
qed

lemma no_cycle:
  assumes "net_inv n" and "faithful infty A G n" shows "acyclic (next_hops n d)"
proof (rule acyclicI, rule allI, rule notI)
  fix a
  assume c: "(a, a) \<in> (next_hops n d)\<^sup>+"
  have "a \<noteq> d" using tranclD [OF c] by (auto simp: next_hops_def)
  with route_nearer [OF assms c] show False by (simp add: nearer_def)
qed

section \<open>Hop counts\<close>

text \<open>Whoever promised \<open>k\<close> hops rests on promises of every smaller number of hops, by as many nodes.\<close>

lemma said_down:
  assumes F: "faithful infty A G n" and m: "m \<noteq> 0"
  shows "said A G x c m (int k) \<Longrightarrow> j \<le> k \<Longrightarrow> \<exists>y. said A G y c m (int j)"
proof (induction k arbitrary: x)
  case (Suc k)
  show ?case
  proof (cases "j = Suc k")
    case False
    have "G x (c, m) = Some (int (Suc k))" using Suc.prems(1) by (auto simp: said_def split: if_splits)
    then obtain y where "said A G y c m (int k)" using faithfulD(7) [OF F] m by fastforce
    from Suc.IH [OF this] Suc.prems(2) False show ?thesis by simp
  qed (use Suc.prems in blast)
qed auto

lemma said_nonneg:
  assumes F: "faithful infty A G n" and m: "m \<noteq> 0" and s: "said A G x c m k" shows "0 \<le> k"
  using s faithfulD(7) [OF F, of x c m k] m by (cases "c = x") (auto simp: said_def)

lemma said_bounded:
  assumes F: "faithful infty A G n" and m: "m \<noteq> 0" and s: "said A G x c m k" shows "k < int (card A)"
proof -
  have k: "k = int (nat k)" using said_nonneg [OF F m s] by simp
  with s said_down [OF F m, of x c "nat k"] obtain f where f: "\<And>j. j \<le> nat k \<Longrightarrow> said A G (f j) c m (int j)" by metis
  have "inj_on f {..nat k}" using f said_fun by (metis atMost_iff inj_onI of_nat_eq_iff)
  moreover have "f ` {..nat k} \<subseteq> A" using f by (auto simp: said_def)
  ultimately have "card {..nat k} \<le> card A" by (metis card_inj_on_le finite)
  with k show ?thesis by simp
qed

text \<open>What a usable route rests on.\<close>

lemma route_said:
  assumes inv: "net_inv n" and F: "faithful infty A G n" and a: "a \<noteq> IP_BROADCAST"
    and rt: "rt_lookup d (rtable (nodes n a)) = Some rt" and p: "p \<in> set (rt_path_list rt)"
  shows "rt_seqno rt \<noteq> 0" "said A G (nexthop p) d (rt_seqno rt) (uint (hopcount p) - 1)"
proof -
  have "node_inv (nodes n a)" using inv a by (simp add: net_inv_def)
  from table_entry(1) [OF node_invD(3) [OF this] rt] have ok: "entry_ok (eamrp_max_paths (nodes n a)) rt" .
  from entry_okD(6,8) [OF ok] p show "rt_seqno rt \<noteq> 0" by auto
  show "said A G (nexthop p) d (rt_seqno rt) (uint (hopcount p) - 1)"
    using faithfulD(6) [OF F, of p d a] rt p by (simp add: entry_at_Some)
qed

lemma live_offer_number: "msg_live p \<Longrightarrow> (x, c, m, h) \<in> offers p \<Longrightarrow> m \<noteq> 0"
  by (auto simp: msg_live_def offers_def split: if_splits hdr_all_eamrp.splits)

lemma small_hop_room:
  assumes F: "faithful infty A G n" and A: "card A \<le> 255" shows "hop_room n"
  unfolding hop_room_def
proof (intro ballI impI, clarify)
  fix p x c m
  assume p: "p \<in> air n" "msg_live p" "(x, c, m, 255) \<in> offers p"
  from said_bounded [OF F live_offer_number [OF p(2,3)] faithfulD(5) [OF F p(1,3)]] A show False by simp
qed

text \<open>So runs of at most 255 nodes always have room.\<close>

lemma small_reach_room:
  assumes start: "nodes n0 = connected_node" "air n0 = {}" and A: "card A \<le> 255" and reach: "nodes_reach infty A n0 n"
  shows "hop_reach infty A n0 n"
  using reach
proof (induction rule: nodes_reach.induct)
  case nodes_start
  show ?case by (rule hop_start)
next
  case (nodes_step n a n')
  obtain infty' G where "faithful infty' A G n" using connected_reach [OF start nodes_step.IH] by blast
  from hop_step [OF nodes_step.IH small_hop_room [OF this A] nodes_step.hyps(2,3)] show ?case .
qed

section \<open>The hop count assertion\<close>

lemma no_msg_faults:
  assumes F: "faithful infty A G n" and q: "q \<in> air n" "same_message q p"
  shows "msg_faults p (nodes n a) = {}"
proof -
  have "\<not> wrong_length x m h rt" if o: "(x, c, m, h) \<in> offers p" and rt: "rt_lookup c (rtable (nodes n a)) = Some rt"
    for x c m h rt
  proof
    assume "wrong_length x m h rt"
    then obtain r where r: "rt_seqno rt = m" "r \<in> set (rt_path_list rt)" "nexthop r = x" "uint (hopcount r) \<noteq> uint h + 1"
      by (auto simp: wrong_length_def)
    have "said A G x c m (uint h)" using o q same_message_offers [OF q(2)] faithfulD(5) [OF F q(1)] by simp
    moreover have "said A G x c m (uint (hopcount r) - 1)"
      using faithfulD(6) [OF F, of r c a] r entry_at_Some [OF rt] by simp
    ultimately have "uint (hopcount r) - 1 = uint h" by (rule said_fun)
    with r(4) show False by simp
  qed
  then have "hop_faults x c m h (nodes n a) = {}" if "(x, c, m, h) \<in> offers p" for x c m h
    using that by (auto simp: hop_faults_def)
  then show ?thesis unfolding msg_faults_def by blast
qed

lemma heard_no_faults:
  assumes "faithful infty A G n" and "\<forall>p. i = Recv p \<longrightarrow> ch_ptype p = PT_EAMRP \<longrightarrow> (\<exists>q\<in>air n. same_message q p)"
    and "i \<noteq> Nb_expired"
  shows "input_faults i (nodes n a) = {}"
proof (cases i)
  case (Recv p)
  then show ?thesis
  proof (cases "ch_ptype p = PT_EAMRP")
    case True
    with Recv assms no_msg_faults show ?thesis by fastforce
  qed (simp add: msg_faults_def)
qed (use assms(3) in simp_all)

text \<open>
  The destination of a usable route is a node of the network. So up to 100 nodes there are at most
  100 routes, and the check of the neighbours succeeds too.
\<close>

lemma route_destination:
  assumes inv: "net_inv n" and F: "faithful infty A G n" and a: "a \<noteq> IP_BROADCAST"
    and rt: "rt_lookup d (rtable (nodes n a)) = Some rt" and p: "p \<in> set (rt_path_list rt)"
  shows "d \<in> A"
proof -
  note r = route_said [OF assms]
  have "0 \<le> uint (hopcount p) - 1" by (rule said_nonneg [OF F r])
  then obtain y where "said A G y d (rt_seqno rt) 0"
    using said_down [OF F r(1), of "nexthop p" d "nat (uint (hopcount p) - 1)" 0] r(2) by auto
  with faithfulD(7) [OF F, of y d "rt_seqno rt" 0] r(1) show ?thesis by (auto simp: said_def split: if_splits)
qed

lemma up_routes_bounded:
  assumes inv: "net_inv n" and F: "faithful infty A G n" and a: "a \<noteq> IP_BROADCAST"
  shows "up_count (rtable (nodes n a)) \<le> card A"
proof -
  let ?up = "filter (\<lambda>rt. rt_flags rt = RTF_UP) (rtable (nodes n a))"
  have t: "table_ok (eamrp_max_paths (nodes n a)) (rtable (nodes n a))"
    using inv a node_invD(3) by (simp add: net_inv_def)
  have "rt_dst rt \<in> A" if rt: "rt \<in> set ?up" for rt
  proof -
    have l: "rt_lookup (rt_dst rt) (rtable (nodes n a)) = Some rt"
      using rt t by (auto simp: table_ok_def intro: rtl.lookup_distinct)
    have "rt_path_list rt \<noteq> []" using rt entry_okD(6) [OF table_entry(1) [OF t l]] by simp
    then obtain p where "p \<in> set (rt_path_list rt)" by (cases "rt_path_list rt") auto
    then show ?thesis by (rule route_destination [OF inv F a l])
  qed
  then have "rt_dst ` set ?up \<subseteq> A" by blast
  moreover have "distinct (map rt_dst ?up)" using t distinct_map_filter by (auto simp: table_ok_def)
  ultimately show ?thesis unfolding up_count_def by (metis card_mono distinct_card finite length_map list.set_map)
qed

lemma up_to_100_nodes:
  assumes "net_inv n" and "faithful infty A G n" and "a \<noteq> IP_BROADCAST" and "card A \<le> 100"
  shows "overflow_faults (nodes n a) = {}"
  using up_routes_bounded [OF assms(1-3)] assms(4) by (simp add: overflow_faults_def EAMRP_MAX_ERRORS_def)

end
