(* ===== verification/Builds.thy ===== *)
theory Builds
  imports AgentFlow
begin

text \<open>
  Two sections of \<^verbatim>\<open>eamrp.cc\<close> that the switches of \<^verbatim>\<open>eamrp.h\<close> leave out of the build: the treatment
  of a failure the link layer reports (\<^verbatim>\<open>EAMRP_LINK_LAYER_DETECTION\<close>, with local repair and
  salvaging as selected) and the relay of replies over link-disjoint paths
  (\<^verbatim>\<open>EAMRP_LINK_DISJOINT_PATHS\<close>).
\<close>

section \<open>Failures reported by the link layer\<close>

definition rt_ll_failed_detect :: "ns2 \<Rightarrow> packet \<Rightarrow> eamrp \<Rightarrow> fault + eamrp" where
  "rt_ll_failed_detect E p s =
     (let broken_nbr = ch_next_hop p in
      if \<not> DATA_PACKET (ch_ptype p) \<or> ih_daddr p = IP_BROADCAST
      then Inr (emit (Dropped p DROP_RTR_MAC_CALLBACK) s)
      else
        case rt_lookup (ih_daddr p) (rtable s) of
          None \<Rightarrow> Inr (emit (Dropped p DROP_RTR_MAC_CALLBACK) s)
        | Some rt \<Rightarrow>
            if ch_num_forwards p > uint (rt_hops rt) then local_rt_repair E (rt_dst rt) p s
            else
              bindE (handle_link_failure E broken_nbr s) (\<lambda>s1.
              bindE (salvage DROP_RTR_MAC_CALLBACK E p s1) (\<lambda>s2.
                salvage_loop (case ifqueue s2 of None \<Rightarrow> 0 | Some q \<Rightarrow> length (q_packets q))
                  DROP_RTR_MAC_CALLBACK E broken_nbr s2)))"

lemma accounted_drop: "accounted p s (emit (Dropped p why) s)"
  by (rule accounted_emit [of "Dropped p why"]) simp_all

lemma salvage_cases:
  "salvage why E p s = Inr (emit (Dropped p why) s)
   \<or> salvage why E p s = forward E (Some (ih_daddr p))
       (p\<lparr>ch_eamrp_salvage_count := ch_eamrp_salvage_count p + 1\<rparr>) NO_EAMRP_DELAY s"
  by (simp add: salvage_def split: option.split)

lemma salvage_accounted:
  assumes f: "salvage why E p s = Inr s'" shows "accounted p s s'"
  using salvage_cases [of why E p s]
proof
  assume "salvage why E p s = Inr (emit (Dropped p why) s)"
  with f have "s' = emit (Dropped p why) s" by simp
  then show ?thesis using accounted_drop by blast
next
  let ?p = "p\<lparr>ch_eamrp_salvage_count := ch_eamrp_salvage_count p + 1\<rparr>"
  assume "salvage why E p s = forward E (Some (ih_daddr p)) ?p NO_EAMRP_DELAY s"
  then have "accounted ?p s s'" using f by (intro forward_accounted) simp
  then show ?thesis by (simp only: accounted_content [of ?p p s s'] content_frame)
qed

lemma accounted_more: "accounted p s t \<Longrightarrow> out s' = out t @ es \<Longrightarrow> rqueue s' = rqueue t \<Longrightarrow> accounted p s s'"
  unfolding accounted_def by (elim exE conjE) (auto intro!: exI [of _ "_ @ es"])

lemma salvage_out: "salvage why E p s = Inr s' \<Longrightarrow> rqueue s' = rqueue s \<and> (\<exists>es. out s' = out s @ es)"
  using salvage_cases [of why E p s] forward_out forward_rqueue by fastforce

lemma salvage_loop_out:
  "salvage_loop n why E nb s = Inr s' \<Longrightarrow> rqueue s' = rqueue s \<and> (\<exists>es. out s' = out s @ es)"
proof (induction n arbitrary: s)
  case 0
  then show ?case by (subst (asm) salvage_loop.simps) (auto split: option.splits prod.splits)
next
  case (Suc n)
  obtain q where q: "ifqueue s = Some q" using Suc.prems
    by (subst (asm) salvage_loop.simps) (auto split: option.splits)
  consider x where "s' = s\<lparr>ifqueue := x\<rparr>"
    | p x s1 where "salvage why E p (s\<lparr>ifqueue := x\<rparr>) = Inr s1" "salvage_loop n why E nb s1 = Inr s'"
    using Suc.prems q by (subst (asm) salvage_loop.simps) (auto dest!: bindE_InrD split: option.splits prod.splits)
  then show ?case
  proof cases
    case 2
    with salvage_out [OF 2(1)] Suc.IH [OF 2(2)] show ?thesis by auto
  qed simp
qed

lemma handle_link_failure_out: "handle_link_failure E nb s = Inr s' \<Longrightarrow> \<exists>e. out s' = out s @ [e]"
proof -
  assume "handle_link_failure E nb s = Inr s'"
  then obtain re t where s': "s' = (if DestCount re > 0 then sendError E re False (s\<lparr>rtable := t\<rparr>)
      else emit (Freed (packet_alloc\<lparr>hdr := Rerr re\<rparr>)) (s\<lparr>rtable := t\<rparr>))"
    by (auto simp: handle_link_failure_def Let_def dest!: bindE_InrD)
  obtain e where "out (sendError E re False (s\<lparr>rtable := t\<rparr>)) = out (s\<lparr>rtable := t\<rparr>) @ [e]" using sendError_out by blast
  with s' show ?thesis by (cases "DestCount re > 0") simp_all
qed

text \<open>The route is repaired where it broke if the packet has come far enough.\<close>

lemma sendRequest_keeps_entry:
  assumes f: "sendRequest E d s = Inr s'" and rt: "rt_lookup d (rtable s) = Some rt"
  shows "\<exists>rt'. rt_lookup d (rtable s') = Some rt' \<and> rt_flags rt' = rt_flags rt \<and> rt_path_list rt' = rt_path_list rt"
proof -
  have d: "rt_dst rt = d" using rtl.lookup_key [OF rt] .
  obtain ttl rt1 where r: "ring_ttl rt = (ttl, rt1)" by (cases "ring_ttl rt")
  then have rt1: "rt_flags rt1 = rt_flags rt \<and> rt_path_list rt1 = rt_path_list rt \<and> rt_dst rt1 = rt_dst rt"
    by (auto simp: ring_ttl_def Let_def split: if_splits prod.splits)
  have put: "rt_lookup d (rt_put r (rtable s)) = Some r" if "rt_dst r = d" for r
    using rtl.lookup_put [of d r "rtable s"] that rt by simp
  consider "rtable s' = rtable s"
    | r where "rtable s' = rt_put r (rtable s)" "rt_flags r = rt_flags rt" "rt_path_list r = rt_path_list rt" "rt_dst r = d"
    using f rt r rt1 d by (auto simp: sendRequest_def Let_def assertE_def drain_drop_eq dest!: bindE_InrD split: if_splits)
  then show ?thesis using put rt by cases auto
qed

lemma sendRequest_returns:
  assumes inv: "node_inv s" and rt: "rt_lookup d (rtable s) = Some rt" and r: "rt_flags r \<noteq> RTF_UP" "rt_dst r = d"
  shows "\<exists>s'. sendRequest E d (s\<lparr>rtable := rt_put r (rtable s)\<rparr>) = Inr s'"
  using node_invD(1) [OF inv] rtl.lookup_put [of d r "rtable s"] rt r
  by (auto simp: sendRequest_def Let_def assertE_def drain_drop_eq split: prod.splits)

lemma local_rt_repair_spec:
  assumes inv: "node_inv s" and rt: "rt_lookup d (rtable s) = Some rt" and p: "ih_daddr p = d" "ch_ptype p \<noteq> PT_EAMRP"
    and d: "d \<noteq> IP_BROADCAST"
  shows "\<exists>s' rt'. local_rt_repair E d p s = Inr s' \<and> accounted p s s'
    \<and> rt_lookup d (rtable s') = Some rt' \<and> rt_flags rt' = RTF_IN_REPAIR \<and> rt_path_list rt' = rt_path_list rt"
proof -
  obtain s1 where s1: "buffer_packet E p s = Inr s1" "node_inv s1"
    using buffer_packet_ok [OF inv, of p E] p d by (cases "buffer_packet E p s") auto
  have same: "rtable s1 = rtable s" using buffer_packet_keeps [OF s1(1)] by blast
  let ?r = "rt\<lparr>rt_flags := RTF_IN_REPAIR\<rparr>"
  let ?s2 = "s1\<lparr>rtable := rt_put ?r (rtable s1)\<rparr>"
  have r: "rt_lookup d (rtable s1) = Some rt" "rt_dst ?r = d" "rt_flags ?r \<noteq> RTF_UP"
    using rt rtl.lookup_key [OF rt] by (simp_all add: same RTF_IN_REPAIR_def RTF_UP_def)
  have up: "upd_rt d (\<lambda>rt. rt\<lparr>rt_flags := RTF_IN_REPAIR\<rparr>) s1 = Inr ?s2" using r by (simp add: upd_rt_def)
  obtain s3 where s3: "sendRequest E d ?s2 = Inr s3" using sendRequest_returns [OF s1(2) r(1,3,2)] by blast
  have "rt_lookup d (rtable ?s2) = Some ?r" using r rtl.lookup_put [of d ?r "rtable s1"] by simp
  from sendRequest_keeps_entry [OF s3 this] obtain rt' where rt': "rt_lookup d (rtable s3) = Some rt'"
    "rt_flags rt' = RTF_IN_REPAIR" "rt_path_list rt' = rt_path_list rt" by auto
  let ?p = "p\<lparr>ch_ts := now E + rq_timeout (rqueue s)\<rparr>"
  obtain es where es: "?p \<in> set (rq_pkts (rqueue s1))" "out s1 = out s @ es" using buffer_packet_keeps [OF s1(1)] by blast
  have "\<not> rq_aged (now E) ?p" using node_invD(4) [OF inv] by (simp add: rq_aged_def buffer_ok_def EAMRP_RTQ_TIMEOUT_def)
  then have "accounted ?p ?s2 s3" using es(1) by (intro sendRequest_keeps [OF s3]) simp_all
  then have "accounted p ?s2 s3" using accounted_content [of ?p p ?s2 s3] by simp
  then have "accounted p s s3" using es(2) by (intro accounted_trans [of ?s2 s es]) simp_all
  from accounted_more [OF this, of "emit e s3" "[e]" for e] s1(1) up s3 rt' show ?thesis
    by (simp add: local_rt_repair_def)
qed



text \<open>A repair that brings no answer ends when its timer expires: the route is down.\<close>

lemma repair_given_up:
  assumes rt: "rt_lookup (ih_daddr p) (rtable s) = Some rt" and f: "rt_flags rt = RTF_IN_REPAIR"
  shows "rt_lookup (ih_daddr p) (rtable (local_repair_timer E p s)) = Some (rt_down E rt)"
    and "rt_flags (rt_down E rt) = RTF_DOWN \<and> rt_path_list (rt_down E rt) = []"
proof -
  have down: "rt_flags (rt_down E rt) = RTF_DOWN \<and> rt_path_list (rt_down E rt) = [] \<and> rt_dst (rt_down E rt) = rt_dst rt"
    using f by (simp add: rt_down_def path_delete_all_def RTF_IN_REPAIR_def RTF_DOWN_def)
  then show "rt_flags (rt_down E rt) = RTF_DOWN \<and> rt_path_list (rt_down E rt) = []" by blast
  have "rt_dst (rt_down E rt) = ih_daddr p" using down rtl.lookup_key [OF rt] by simp
  then show "rt_lookup (ih_daddr p) (rtable (local_repair_timer E p s)) = Some (rt_down E rt)"
    using rt f rtl.lookup_put [of "ih_daddr p" "rt_down E rt" "rtable s"]
    by (simp add: local_repair_timer_def RTF_IN_REPAIR_def RTF_UP_def)
qed

section \<open>Replies over link-disjoint paths\<close>

text \<open>
  The reply goes back over the first path to the source not used for this request yet, and only if
  the path it came from was not used either. \<open>fp\<close> is the forward path it was stored under.
\<close>

definition rrep_send_links ::
  "ns2 \<Rightarrow> packet \<Rightarrow> hdr_eamrp_reply \<Rightarrow> EAMRP_Path \<Rightarrow> EAMRPBroadcastID \<Rightarrow> EAMRP_Path \<Rightarrow> eamrp \<Rightarrow> fault + eamrp" where
  "rrep_send_links E p rp fp b reverse_path s =
     bindE (assertE Forward_nexthop (nexthop fp = rp_src rp)) (\<lambda>_.
     bindE (assertE Forward_lasthop (lasthop fp = rp_first_hop rp)) (\<lambda>_.
     let b1 = forward_path_insert (nexthop fp) (lasthop fp)
                (reverse_path_insert (nexthop reverse_path) (lasthop reverse_path) b) in
     bindE (upd_rt (rp_dst rp) (advertise E) (s\<lparr>bihead := id_put b1 (bihead s)\<rparr>)) (\<lambda>s1.
     case rt_lookup (rp_dst rp) (rtable s1) of
       None \<Rightarrow> Inl Null_deref
     | Some rt \<Rightarrow>
         let rp1 = rp\<lparr>rp_hop_count := ucast (rt_advertised_hops rt), rp_src := index s\<rparr>;
             p1 = put_reply rp1 (p\<lparr>ch_addr_type := AF_INET E, ch_next_hop := nexthop reverse_path,
                    ch_xmit_failure := Some Eamrp_rt_failed_callback\<rparr>)
         in bindE (upd_rt (ih_daddr p)
                     (path_put (reverse_path\<lparr>path_expire := now E + ACTIVE_ROUTE_TIMEOUT\<rparr>)) s1) (\<lambda>s2.
            bindE (upd_rt (rp_dst rp) (\<lambda>r. r\<lparr>rt_error := True\<rparr>) s2)
              (forwardReply E (Some (ih_daddr p)) p1 NO_EAMRP_DELAY)))))"

definition rrep_relay_links ::
  "ns2 \<Rightarrow> packet \<Rightarrow> hdr_eamrp_reply \<Rightarrow> EAMRP_Path \<Rightarrow> eamrp \<Rightarrow> fault + eamrp" where
  "rrep_relay_links E p rp fp s =
     (let d = ih_daddr p in
      case (rt_lookup d (rtable s), id_get (d, rp_bcast_id rp) (bihead s)) of
        (Some rt0, Some b) \<Rightarrow>
          if rt_flags rt0 \<noteq> RTF_UP then Inr (emit (Freed p) s)
          else
            (case find (\<lambda>r. reverse_path_lookup (nexthop r) (lasthop r) b = None) (rt_path_list rt0) of
               None \<Rightarrow> Inr (emit (Freed p) s)
             | Some reverse_path \<Rightarrow>
                 if forward_path_lookup (nexthop fp) (lasthop fp) b \<noteq> None then Inr (emit (Freed p) s)
                 else rrep_send_links E p rp fp b reverse_path s)
      | _ \<Rightarrow> Inr (emit (Freed p) s))"

text \<open>\<^verbatim>\<open>recvReply\<close> of this build: the same as in \<^theory_text>\<open>AgentRecv\<close> up to the relay.\<close>

definition rrep_continue_links ::
  "ns2 \<Rightarrow> packet \<Rightarrow> hdr_eamrp_reply \<Rightarrow> eamrp_rt_entry \<times> bool \<Rightarrow> eamrp \<Rightarrow> fault + eamrp" where
  "rrep_continue_links E p rp res s =
     (let s1 = s\<lparr>rtable := rt_put (fst res) (rtable s)\<rparr> in
      if \<not> snd res then Inr (emit (Freed p) s1)
      else
        case disjoint_path_lookup (rp_src rp) (rp_first_hop rp) (fst res) of
          None \<Rightarrow> Inl Null_deref
        | Some forward_path \<Rightarrow>
            bindE (flush_buffer E (rp_dst rp) s1) (\<lambda>s2.
              if ih_daddr p = index s then Inr (emit (Freed p) s2)
              else rrep_relay_links E p rp forward_path s2))"

definition recvReply_links :: "ns2 \<Rightarrow> packet \<Rightarrow> hdr_eamrp_reply \<Rightarrow> eamrp \<Rightarrow> fault + eamrp" where
  "recvReply_links E p rp s =
     (if rp_dst rp = index s then Inr (emit (Freed p) s)
      else bindE (ensure_rt E (rp_dst rp) s) (\<lambda>s1.
        case rt_lookup (rp_dst rp) (rtable s1) of
          None \<Rightarrow> Inl Null_deref
        | Some rt \<Rightarrow>
            bindE (rrep_forward_path E (eamrp_max_paths s1) (eamrp_prim_alt_path_len_diff s1) rp rt)
              (\<lambda>res. rrep_continue_links E p rp res s1)))"

lemma forwardReply_out:
  "forwardReply E r p delay s = Inr s' \<Longrightarrow> \<exists>e. out s' = out s @ [e] \<and> bihead s' = bihead s
     \<and> (\<forall>q t. e = Scheduled q t \<longrightarrow> ch_next_hop q = ch_next_hop p)"
  by (auto simp: forwardReply_def assertE_def Let_def split: if_splits option.splits)

lemma put_reply_next_hop [simp]: "ch_next_hop (put_reply rp p) = ch_next_hop p"
  by (simp add: put_reply_def)

lemma rrep_send_links_out:
  assumes f: "rrep_send_links E p rp fp b r s = Inr s'" and k: "id_get k (bihead s) = Some b"
  shows "\<exists>e. out s' = out s @ [e] \<and> (\<forall>q t. e = Scheduled q t \<longrightarrow> ch_next_hop q = nexthop r)
    \<and> id_get k (bihead s') = Some (forward_path_insert (rp_src rp) (rp_first_hop rp)
        (reverse_path_insert (nexthop r) (lasthop r) b))"
proof -
  let ?b = "forward_path_insert (nexthop fp) (lasthop fp) (reverse_path_insert (nexthop r) (lasthop r) b)"
  obtain s1 s2 s3 q where s1: "upd_rt (rp_dst rp) (advertise E) (s\<lparr>bihead := id_put ?b (bihead s)\<rparr>) = Inr s1"
    and s2: "upd_rt (ih_daddr p) (path_put (r\<lparr>path_expire := now E + ACTIVE_ROUTE_TIMEOUT\<rparr>)) s1 = Inr s2"
    and s3: "upd_rt (rp_dst rp) (\<lambda>r. r\<lparr>rt_error := True\<rparr>) s2 = Inr s3"
    and fwd: "forwardReply E (Some (ih_daddr p)) q NO_EAMRP_DELAY s3 = Inr s'" and q: "ch_next_hop q = nexthop r"
    and fp: "nexthop fp = rp_src rp" "lasthop fp = rp_first_hop rp"
    using f by (fastforce simp: rrep_send_links_def Let_def assertE_def dest!: bindE_InrD split: option.splits if_splits)
  have "(bi_src b, bi_id b) = k" by (rule ids.lookup_key [OF k])
  then have "id_get k (id_put ?b (bihead s)) = Some ?b"
    using ids.lookup_put_same [of ?b "bihead s" b] k by (simp add: forward_path_insert_def reverse_path_insert_def)
  with forwardReply_out [OF fwd] upd_rt_frame [OF s1] upd_rt_frame [OF s2] upd_rt_frame [OF s3] q fp
  show ?thesis by auto
qed

text \<open>A pair of paths not used before is marked as used.\<close>

definition marks_links :: "nsaddr \<times> u32 \<Rightarrow> nsaddr \<times> nsaddr \<Rightarrow> nsaddr \<times> nsaddr \<Rightarrow> eamrp \<Rightarrow> eamrp \<Rightarrow> bool" where
  "marks_links k fw rv s s' \<longleftrightarrow> (\<exists>b. id_get k (bihead s) = Some b
     \<and> reverse_path_lookup (fst rv) (snd rv) b = None \<and> forward_path_lookup (fst fw) (snd fw) b = None
     \<and> id_get k (bihead s') = Some (forward_path_insert (fst fw) (snd fw) (reverse_path_insert (fst rv) (snd rv) b)))"

lemma rrep_relay_links_out:
  assumes f: "rrep_relay_links E p rp fp s = Inr s'" and fp: "nexthop fp = rp_src rp" "lasthop fp = rp_first_hop rp"
    and k: "k = (ih_daddr p, rp_bcast_id rp)"
  shows "s' = emit (Freed p) s \<or> (\<exists>nh lh e. marks_links k (rp_src rp, rp_first_hop rp) (nh, lh) s s'
     \<and> out s' = out s @ [e] \<and> (\<forall>q t. e = Scheduled q t \<longrightarrow> ch_next_hop q = nh))"
proof (cases "s' = emit (Freed p) s")
  case False
  then obtain rt0 b where b: "rt_lookup (ih_daddr p) (rtable s) = Some rt0" "id_get k (bihead s) = Some b" "rt_flags rt0 = RTF_UP"
    using f k by (auto simp: rrep_relay_links_def Let_def split: option.splits if_splits)
  let ?find = "find (\<lambda>r. reverse_path_lookup (nexthop r) (lasthop r) b = None) (rt_path_list rt0)"
  obtain r where r: "?find = Some r"
    using f b False k by (cases ?find) (simp_all add: rrep_relay_links_def)
  with f b False k have fw: "forward_path_lookup (nexthop fp) (lasthop fp) b = None"
    and snd: "rrep_send_links E p rp fp b r s = Inr s'"
    by (auto simp: rrep_relay_links_def split: if_splits)
  have "reverse_path_lookup (nexthop r) (lasthop r) b = None" using r by (auto simp: find_Some_iff)
  then have "marks_links k (rp_src rp, rp_first_hop rp) (nexthop r, lasthop r) s s'"
    using rrep_send_links_out [OF snd b(2)] b(2) fw fp by (auto simp: marks_links_def)
  with rrep_send_links_out [OF snd b(2)] show ?thesis by blast
qed simp

lemma rrep_continue_links_out:
  assumes buf: "buffer_ok (rqueue s)" and c: "rrep_continue_links E p rp (rt, ok) s = Inr s'"
  shows "no_routing_out s s' \<or> ih_daddr p \<noteq> index s \<and> (\<exists>nh lh es e. out s' = out s @ es @ [e]
     \<and> (\<forall>q t. Scheduled q t \<in> set es \<longrightarrow> ch_ptype q \<noteq> PT_EAMRP) \<and> (\<forall>q t. e = Scheduled q t \<longrightarrow> ch_next_hop q = nh)
     \<and> marks_links (ih_daddr p, rp_bcast_id rp) (rp_src rp, rp_first_hop rp) (nh, lh) s s')"
proof -
  let ?s = "s\<lparr>rtable := rt_put rt (rtable s)\<rparr>"
  have start: "no_routing_out s ?s" by (simp add: no_routing_out_def)
  consider "s' = emit (Freed p) ?s"
    | t fp where "disjoint_path_lookup (rp_src rp) (rp_first_hop rp) rt = Some fp" "flush_buffer E (rp_dst rp) ?s = Inr t"
        "ih_daddr p = index s \<and> s' = emit (Freed p) t \<or> ih_daddr p \<noteq> index s \<and> rrep_relay_links E p rp fp t = Inr s'"
    using c by (auto simp: rrep_continue_links_def Let_def dest!: bindE_InrD split: if_splits option.splits)
  then show ?thesis
  proof cases
    case 1
    with no_routing_freed [OF start] show ?thesis by simp
  next
    case 2
    have t: "no_routing_out s t" "bihead t = bihead s"
      using flush_buffer_out [OF _ 2(2)] buf by (auto simp: no_routing_out_def)
    then obtain es where es: "out t = out s @ es" "\<forall>q tm. Scheduled q tm \<in> set es \<longrightarrow> ch_ptype q \<noteq> PT_EAMRP"
      by (auto simp: no_routing_out_def)
    show ?thesis
    proof (cases "s' = emit (Freed p) t")
      case True
      with no_routing_freed [OF t(1)] show ?thesis by simp
    next
      case False
      with 2(3) have ne: "ih_daddr p \<noteq> index s" and rl: "rrep_relay_links E p rp fp t = Inr s'" by auto
      have fp: "nexthop fp = rp_src rp" "lasthop fp = rp_first_hop rp" using disjoint_lookup_SomeD [OF 2(1)] by simp_all
      from rrep_relay_links_out [OF rl fp refl] False obtain nh lh e where
        m: "marks_links (ih_daddr p, rp_bcast_id rp) (rp_src rp, rp_first_hop rp) (nh, lh) t s'"
        and e: "out s' = out t @ [e]" "\<forall>q t. e = Scheduled q t \<longrightarrow> ch_next_hop q = nh" by blast
      have "marks_links (ih_daddr p, rp_bcast_id rp) (rp_src rp, rp_first_hop rp) (nh, lh) s s'"
        using m t(2) by (simp add: marks_links_def)
      moreover have "out s' = out s @ es @ [e]" using e(1) es(1) by simp
      ultimately show ?thesis using ne es(2) e(2) by blast
    qed
  qed
qed

text \<open>
  C16. In a build with link-disjoint paths, a reply is relayed only over a reverse path that no
  earlier reply to this request used, and only if it came over a forward path that none used; both
  are then marked as used. Everything else \<^verbatim>\<open>recvReply\<close> sends is buffered data.
\<close>

theorem replies_over_disjoint_links:
  assumes buf: "buffer_ok (rqueue s)" and r: "recvReply_links E p rp s = Inr s'"
  shows "\<exists>es. out s' = out s @ es \<and> (\<forall>q t. Scheduled q t \<in> set es \<and> ch_ptype q = PT_EAMRP \<longrightarrow>
     ih_daddr p \<noteq> index s \<and> (\<exists>b lh. id_get (ih_daddr p, rp_bcast_id rp) (bihead s) = Some b
       \<and> reverse_path_lookup (ch_next_hop q) lh b = None \<and> forward_path_lookup (rp_src rp) (rp_first_hop rp) b = None
       \<and> id_get (ih_daddr p, rp_bcast_id rp) (bihead s') = Some (forward_path_insert (rp_src rp) (rp_first_hop rp)
           (reverse_path_insert (ch_next_hop q) lh b))))"
proof (cases "rp_dst rp = index s")
  case True
  with r show ?thesis by (auto simp: recvReply_links_def)
next
  case False
  obtain s1 rt ok where e: "ensure_rt E (rp_dst rp) s = Inr s1" and c: "rrep_continue_links E p rp (rt, ok) s1 = Inr s'"
    using r False by (auto simp: recvReply_links_def dest!: bindE_InrD split: option.splits)
  note fr = ensure_rt_frame [OF e]
  have buf1: "buffer_ok (rqueue s1)" using buf fr by simp
  from rrep_continue_links_out [OF buf1 c] show ?thesis
  proof
    assume "no_routing_out s1 s'"
    then show ?thesis using fr unfolding no_routing_out_def by metis
  next
    assume "ih_daddr p \<noteq> index s1 \<and> (\<exists>nh lh es e. out s' = out s1 @ es @ [e]
      \<and> (\<forall>q t. Scheduled q t \<in> set es \<longrightarrow> ch_ptype q \<noteq> PT_EAMRP) \<and> (\<forall>q t. e = Scheduled q t \<longrightarrow> ch_next_hop q = nh)
      \<and> marks_links (ih_daddr p, rp_bcast_id rp) (rp_src rp, rp_first_hop rp) (nh, lh) s1 s')"
    then obtain nh lh es e where o: "out s' = out s @ es @ [e]" "ih_daddr p \<noteq> index s"
      "\<forall>q t. Scheduled q t \<in> set es \<longrightarrow> ch_ptype q \<noteq> PT_EAMRP" "\<forall>q t. e = Scheduled q t \<longrightarrow> ch_next_hop q = nh"
      "marks_links (ih_daddr p, rp_bcast_id rp) (rp_src rp, rp_first_hop rp) (nh, lh) s1 s'"
      using fr by auto
    have "e = Scheduled q tm" if "Scheduled q tm \<in> set (es @ [e])" "ch_ptype q = PT_EAMRP" for q tm
      using that o(3) by auto
    moreover have "bihead s1 = bihead s" using fr by simp
    ultimately show ?thesis using o(1,2,4,5) unfolding marks_links_def fst_conv snd_conv
      by (intro exI [of _ "es @ [e]"]) metis
  qed
qed

text \<open>Node 9 relays a reply about node 7 to node 5, from whom it has a cached request.\<close>

definition demo_relay :: eamrp where
  "demo_relay = (connected_node 9)\<lparr>rtable := [demo_route], bihead := id_insert 3 5 3 []\<rparr>"

definition demo_link_reply :: hdr_eamrp_reply where
  "demo_link_reply = demo_reply\<lparr>rp_dst := 7\<rparr>"

lemma demo_relay_sent:
  "\<exists>s' q t. recvReply_links (demo_env 3) (packet_alloc\<lparr>ch_ptype := PT_EAMRP, ih_daddr := 5, ih_ttl := 30\<rparr>)
      demo_link_reply demo_relay = Inr s'
    \<and> out s' = out demo_relay @ [Scheduled q t] \<and> ch_ptype q = PT_EAMRP"
  by (simp add: recvReply_links_def ensure_rt_def rt_add_def rrep_forward_path_def rrep_continue_links_def demo_link_reply_def
      demo_reply_def demo_relay_def new_rt_entry_def fresh_path_def path_delete_all_def path_insert_def new_path_def
      disjoint_path_lookup_def connected_node_def EAMRP_new_def flush_buffer_def reset_soft_state_def drain_all_def
      drain.simps rq_new_def rq_deque_dst_def rq_purge_def remove_all_loop_filter rrep_relay_links_def rrep_send_links_def upd_rt_def
      id_insert_def reverse_path_lookup_def forward_path_lookup_def demo_route_def advertise_def path_put_def put_reply_def
      forwardReply_def NO_EAMRP_DELAY_def IP_BROADCAST_def assertE_def Let_def demo_env_def)

theorem replies_over_disjoint_links_witness:
  "\<exists>s' q t b. recvReply_links (demo_env 3) (packet_alloc\<lparr>ch_ptype := PT_EAMRP, ih_daddr := 5, ih_ttl := 30\<rparr>)
      demo_link_reply demo_relay = Inr s'
    \<and> out s' = out demo_relay @ [Scheduled q t] \<and> id_get (5, 3) (bihead s') = Some b
    \<and> forward_path_list b = [\<lparr>nh_addr = 4, lh_addr = 14\<rparr>]"
proof -
  let ?p = "packet_alloc\<lparr>ch_ptype := PT_EAMRP, ih_daddr := 5, ih_ttl := 30\<rparr>"
  have buf: "buffer_ok (rqueue demo_relay)"
    using node_invD(4) [OF connected_node_inv [of 9]] by (simp add: demo_relay_def IP_BROADCAST_def)
  obtain s' q t where s': "recvReply_links (demo_env 3) ?p demo_link_reply demo_relay = Inr s'"
    "out s' = out demo_relay @ [Scheduled q t]" "ch_ptype q = PT_EAMRP" using demo_relay_sent by blast
  from replies_over_disjoint_links [OF buf s'(1)] s'(2,3) obtain b lh where
    b: "id_get (5, 3) (bihead demo_relay) = Some b"
    "id_get (5, 3) (bihead s') = Some (forward_path_insert 4 14 (reverse_path_insert (ch_next_hop q) lh b))"
    by (auto simp: demo_link_reply_def demo_reply_def)
  have "forward_path_list b = []" using b(1) by (auto simp: demo_relay_def id_insert_def)
  with s' b show ?thesis by (simp add: forward_path_insert_def reverse_path_insert_def)
qed

end
