(* ===== verification/Printf.thy ===== *)
theory Printf
  imports Prelude
begin

text \<open>
  The part of C's \<^verbatim>\<open>printf\<close> that the sources use: the directives \<^verbatim>\<open>%d\<close> with and without width, \<^verbatim>\<open>%u\<close>,
  \<^verbatim>\<open>%x\<close>, \<^verbatim>\<open>%02x\<close>, \<^verbatim>\<open>%04x\<close>, \<^verbatim>\<open>%c\<close>, \<^verbatim>\<open>%s\<close> with and without width, and \<^verbatim>\<open>%f\<close> with and without precision.
  Format strings are interpreted, so the formatter quotes them as the source has them.
\<close>

section \<open>Numbers\<close>

definition digit :: "nat \<Rightarrow> char" where
  "digit d = (if d < 10 then char_of (48 + d) else char_of (87 + d))"

fun digits :: "nat \<Rightarrow> nat \<Rightarrow> string" where
  "digits b n = (if n < b \<or> b < 2 then [digit n] else digits b (n div b) @ [digit (n mod b)])"

declare digits.simps [simp del]

definition dec_int :: "int \<Rightarrow> string" where
  "dec_int i = (if i < 0 then CHR ''-'' # digits 10 (nat (- i)) else digits 10 (nat i))"

text \<open>Rounding to the nearest integer, ties to even, as the C library prints an exact value.\<close>

definition round_even :: "real \<Rightarrow> int" where
  "round_even x = (let f = \<lfloor>x\<rfloor>; d = x - of_int f in
     if d < 1 / 2 then f else if d > 1 / 2 then f + 1 else if even f then f else f + 1)"

definition fixed :: "nat \<Rightarrow> real \<Rightarrow> string" where
  "fixed n x =
     (let k = nat (round_even (\<bar>x\<bar> * 10 ^ n)); frac = digits 10 (k mod 10 ^ n) in
      (if x < 0 then ''-'' else []) @ digits 10 (k div 10 ^ n)
        @ (if n = 0 then [] else CHR ''.'' # replicate (n - length frac) (CHR ''0'') @ frac))"

definition pad :: "char \<Rightarrow> nat \<Rightarrow> string \<Rightarrow> string" where
  "pad c n s = replicate (n - length s) c @ s"

lemma pad_0 [simp]: "pad c 0 s = s"
  by (simp add: pad_def)

section \<open>Directives\<close>

text \<open>A variadic argument: an \<^verbatim>\<open>int\<close> after promotion, a \<^verbatim>\<open>double\<close>, or a string.\<close>

datatype arg = I u32 | R real | S string

datatype conv = Conv_d nat | Conv_u | Conv_x nat | Conv_c | Conv_s nat | Conv_f nat

definition conv_at :: "string \<Rightarrow> (conv \<times> string) option" where
  "conv_at s =
     (case s of [] \<Rightarrow> None
      | c # r \<Rightarrow>
          if c = CHR ''d'' then Some (Conv_d 0, r)
          else if c = CHR ''u'' then Some (Conv_u, r)
          else if c = CHR ''x'' then Some (Conv_x 0, r)
          else if c = CHR ''c'' then Some (Conv_c, r)
          else if c = CHR ''s'' then Some (Conv_s 0, r)
          else if c = CHR ''f'' then Some (Conv_f 6, r)
          else if c = CHR ''0'' \<and> take 2 r = ''4x'' then Some (Conv_x 4, drop 2 r)
          else if c = CHR ''0'' \<and> take 2 r = ''2x'' then Some (Conv_x 2, drop 2 r)
          else if c = CHR ''6'' \<and> take 1 r = ''d'' then Some (Conv_d 6, drop 1 r)
          else if c = CHR ''6'' \<and> take 1 r = ''s'' then Some (Conv_s 6, drop 1 r)
          else if c = CHR ''3'' \<and> take 1 r = ''s'' then Some (Conv_s 3, drop 1 r)
          else if c = CHR ''4'' \<and> take 1 r = ''s'' then Some (Conv_s 4, drop 1 r)
          else if c = CHR ''.'' \<and> take 2 r = ''2f'' then Some (Conv_f 2, drop 2 r)
          else if c = CHR ''.'' \<and> take 2 r = ''3f'' then Some (Conv_f 3, drop 2 r)
          else if c = CHR ''.'' \<and> take 2 r = ''9f'' then Some (Conv_f 9, drop 2 r)
          else None)"

fun show_arg :: "conv \<Rightarrow> arg \<Rightarrow> string option" where
  "show_arg (Conv_d n) (I w) = Some (pad (CHR '' '') n (dec_int (sint w)))"
| "show_arg Conv_u (I w) = Some (digits 10 (unat w))"
| "show_arg (Conv_x n) (I w) = Some (pad (CHR ''0'') n (digits 16 (unat w)))"
| "show_arg Conv_c (I w) = Some [char_of (unat w)]"
| "show_arg (Conv_s n) (S s) = Some (pad (CHR '' '') n s)"
| "show_arg (Conv_f n) (R x) = Some (fixed n x)"
| "show_arg _ _ = None"

lemma conv_at_shorter: "conv_at s = Some (d, r) \<Longrightarrow> length r < length s"
  by (cases s) (auto simp: conv_at_def split: if_splits)

text \<open>A directive without a fitting argument is undefined in C; the result is \<open>None\<close>.\<close>

function sprintf :: "string \<Rightarrow> arg list \<Rightarrow> string option" where
  "sprintf fmt args =
     (case fmt of [] \<Rightarrow> Some []
      | c # r \<Rightarrow>
          if c = CHR ''%'' then
            (case (conv_at r, args) of
               (Some (d, r1), a # as) \<Rightarrow>
                 (case (show_arg d a, sprintf r1 as) of
                    (Some t, Some u) \<Rightarrow> Some (t @ u) | _ \<Rightarrow> None)
             | _ \<Rightarrow> None)
          else map_option ((#) c) (sprintf r args))"
  by pat_completeness auto
termination
  by (relation "measure (length \<circ> fst)") (auto dest!: sym [of "Some _"] conv_at_shorter)

declare sprintf.simps [simp del]

lemma sprintf_Nil [simp]: "sprintf [] args = Some []"
  by (simp add: sprintf.simps)

lemma sprintf_Cons:
  "sprintf (c # r) args =
     (if c = CHR ''%'' then
        (case (conv_at r, args) of
           (Some (d, r1), a # as) \<Rightarrow>
             (case (show_arg d a, sprintf r1 as) of (Some t, Some u) \<Rightarrow> Some (t @ u) | _ \<Rightarrow> None)
         | _ \<Rightarrow> None)
      else map_option ((#) c) (sprintf r args))"
  by (subst sprintf.simps) simp

section \<open>Numbers can be read back\<close>

lemma char_of_inj: "m < 256 \<Longrightarrow> n < 256 \<Longrightarrow> (char_of (m :: nat) :: char) = char_of n \<Longrightarrow> m = n"
  by (metis of_char_of mod_less)

lemma digit_inj: "d < 16 \<Longrightarrow> e < 16 \<Longrightarrow> digit d = digit e \<Longrightarrow> d = e"
  by (auto simp: digit_def split: if_splits dest!: char_of_inj [rotated 2])

lemma digits_nonempty [simp]: "digits b n \<noteq> []"
  by (subst digits.simps) simp

lemma digits_inj: "2 \<le> b \<Longrightarrow> b \<le> 16 \<Longrightarrow> digits b m = digits b n \<Longrightarrow> m = n"
proof (induction b m arbitrary: n rule: digits.induct)
  case (1 b m)
  have last: "last (digits b k) = digit (k mod b)" for k
    using "1.prems"(1) by (subst digits.simps) auto
  have butlast: "butlast (digits b k) = (if k < b then [] else digits b (k div b))" for k
    using "1.prems"(1) by (subst digits.simps) simp
  have "digit (m mod b) = digit (n mod b)" using last [of m] last [of n] "1.prems"(3) by simp
  then have mods: "m mod b = n mod b"
    using "1.prems"(1,2) by (intro digit_inj) (auto intro: less_le_trans [OF mod_less_divisor])
  have "m div b = n div b"
  proof (cases "m < b \<or> n < b")
    case True
    then have "m < b \<and> n < b" using butlast [of m] butlast [of n] "1.prems"(3) digits_nonempty [of b]
      by (metis (no_types))
    then show ?thesis by simp
  next
    case False
    then show ?thesis
      using "1.IH" [of "n div b"] butlast [of m] butlast [of n] "1.prems" by simp
  qed
  with mods show ?case by (metis div_mult_mod_eq)
qed

definition number_chars :: "char set" where
  "number_chars = insert (CHR ''-'') (digit ` {..<16})"

lemma digits_chars: "2 \<le> b \<Longrightarrow> b \<le> 16 \<Longrightarrow> set (digits b n) \<subseteq> digit ` {..<16}"
proof (induction b n rule: digits.induct)
  case (1 b n)
  have m: "n mod b < 16" using "1.prems" less_le_trans [OF mod_less_divisor [of b n]] by simp
  show ?case
  proof (cases "n < b")
    case True
    with "1.prems" show ?thesis by (subst digits.simps) auto
  next
    case False
    with 1 m show ?thesis by (subst digits.simps) auto
  qed
qed

lemma dec_int_chars: "set (dec_int i) \<subseteq> number_chars"
proof -
  have "set (digits 10 n) \<subseteq> number_chars" for n using digits_chars [of 10 n] by (auto simp: number_chars_def)
  then show ?thesis by (simp add: dec_int_def) (simp add: number_chars_def)
qed

lemma minus_no_digit: "CHR ''-'' \<notin> digit ` {..<16}"
  by (auto simp: digit_def image_iff split: if_splits dest!: arg_cong [where f = "of_char :: char \<Rightarrow> nat"])

lemma dec_int_inj: "dec_int i = dec_int j \<Longrightarrow> i = j"
proof -
  assume e: "dec_int i = dec_int j"
  have no: "CHR ''-'' \<notin> set (digits 10 n)" for n using digits_chars [of 10 n] minus_no_digit by auto
  then have sign: "i < 0 \<longleftrightarrow> j < 0" using e by (auto simp: dec_int_def split: if_splits) (metis list.set_intros(1))+
  have eq: "nat k = nat l \<Longrightarrow> 0 \<le> k \<Longrightarrow> 0 \<le> l \<Longrightarrow> k = l" for k l :: int by linarith
  from sign e digits_inj [of 10] eq [of i j] eq [of "- i" "- j"] show ?thesis
    by (auto simp: dec_int_def split: if_splits)
qed

lemma prefix_inj:
  assumes "set a \<subseteq> A" and "set b \<subseteq> A" and "c \<notin> A" and "d \<notin> A"
  shows "a @ c # xs = b @ d # ys \<longleftrightarrow> a = b \<and> c = d \<and> xs = ys"
proof
  assume e: "a @ c # xs = b @ d # ys"
  have "takeWhile (\<lambda>x. x \<in> A) (a @ c # xs) = a" "takeWhile (\<lambda>x. x \<in> A) (b @ d # ys) = b"
    using assms by (subst takeWhile_append2; force)+
  with e show "a = b \<and> c = d \<and> xs = ys" by auto
qed simp

text \<open>A number followed by a character that cannot belong to it can be read back.\<close>

lemma dec_int_sep:
  "c \<notin> number_chars \<Longrightarrow> d \<notin> number_chars \<Longrightarrow>
     dec_int i @ c # xs = dec_int j @ d # ys \<longleftrightarrow> i = j \<and> c = d \<and> xs = ys"
  using prefix_inj [OF dec_int_chars dec_int_chars, of c d i xs j ys] dec_int_inj by auto

end
