(* ===== verification/CMUTrace.thy ===== *)
theory CMUTrace
  imports NsPacket Printf
begin

text \<open>
  The trace formatter of \<^verbatim>\<open>trace/cmu-trace.cc\<close>: which line a packet leaves in the trace. The
  state is that of a \<^verbatim>\<open>CMUTrace\<close> object with the text buffer of its \<^verbatim>\<open>BaseTrace\<close>; every
  \<^verbatim>\<open>sprintf(pt_->buffer() + offset, ...)\<close> is a \<open>print\<close> with the format of the source.
  Headers of protocols whose files are not in the repository are records of the fields the
  formatter reads, and their constants are parameters.
\<close>

section \<open>Surroundings\<close>


definition DROP :: char where "DROP = CHR ''D''"
definition RECV :: char where "RECV = CHR ''r''"
definition SEND :: char where "SEND = CHR ''s''"
definition FWRD :: char where "FWRD = CHR ''f''"
definition EOT :: char where "EOT = CHR ''x''"

datatype layer = TR_ROUTER | TR_MAC | TR_IFQ | TR_AGENT | TR_PHY

text \<open>Constants of headers that are not in the repository.\<close>

datatype hdr_const =
    MAC_Type_Control | MAC_Type_Management
  | MAC_Subtype_RTS | MAC_Subtype_CTS | MAC_Subtype_ACK | MAC_Subtype_Beacon
  | MAC_Subtype_Command_AssoReq | MAC_Subtype_Command_AssoRsp | MAC_Subtype_Command_DAssNtf
  | MAC_Subtype_Command_DataReq | MAC_Subtype_Command_PIDCNtf | MAC_Subtype_Command_OrphNtf
  | MAC_Subtype_Command_BconReq | MAC_Subtype_Command_CoorRea | MAC_Subtype_Command_GTSReq
  | MAC_Subtype_80211_Beacon | MAC_Subtype_AssocReq | MAC_Subtype_AssocRep
  | MAC_Subtype_Auth | MAC_Subtype_ProbeReq | MAC_Subtype_ProbeRep
  | RTS_PKT | CTS_PKT | ACK_PKT | SYNC_PKT
  | ARPOP_REQUEST | BLOCK_FLAG_ACK | BLOCK_FLAG_HELLO | BLOCK_FLAG_OBJECT
  | TORATYPE_QRY | TORATYPE_UPD | TORATYPE_CLR
  | AODVTYPE_RREQ | AODVTYPE_RREP | AODVTYPE_HELLO | AODVTYPE_RERR
  | AOMDVTYPE_RREQ | AOMDVTYPE_RREP | AOMDVTYPE_HELLO | AOMDVTYPE_RERR

record energy_model =
  energy :: real
  ei :: real
  es :: real
  et :: real
  er :: real
  powersavingflag :: bool
  initialenergy :: real
  level1 :: real
  level2 :: real

record sim_node =
  nodeid :: u32
  node_energy_model :: "energy_model option"

text \<open>
  \<^verbatim>\<open>Scheduler\<close>, \<^verbatim>\<open>Simulator\<close>, \<^verbatim>\<open>Node\<close> and \<^verbatim>\<open>Address\<close> of ns-2 as the formatter uses them.
\<close>

record sim =
  clock :: real
  macType :: string
  get_node_by_address :: "u32 \<Rightarrow> sim_node option"
  get_nodeaddr :: "u32 \<Rightarrow> u32"
  getLoc :: "real \<times> real \<times> real"
  hconst :: "hdr_const \<Rightarrow> int"
  time_format :: "real \<Rightarrow> string"
  double_of :: "u32 \<Rightarrow> u32 \<Rightarrow> real"
  have_stl :: bool
  namchannel :: bool
  Nam_Status :: bool
  findAttrLink :: "packet_t \<Rightarrow> (u32 \<times> u32) option \<Rightarrow> u32 option"
  atof_tcl :: "string \<Rightarrow> real"

record hdr_arp =
  arp_op :: int
  arp_sha :: u32
  arp_spa :: u32
  arp_tha :: u32
  arp_tpa :: u32

record hdr_sr =
  num_addrs :: int
  route_request :: int
  rtreq_seq :: int
  route_reply :: int
  route_reply_len :: int
  reply_addrs :: "int \<Rightarrow> u32"
  route_error :: int
  num_route_errors :: int
  tell_addr :: "int \<Rightarrow> u32"
  from_addr :: "int \<Rightarrow> u32"
  to_addr :: "int \<Rightarrow> u32"

datatype sctp_type =
    SCTP_CHUNK_INIT | SCTP_CHUNK_INIT_ACK | SCTP_CHUNK_COOKIE_ECHO | SCTP_CHUNK_COOKIE_ACK
  | SCTP_CHUNK_DATA | SCTP_CHUNK_SACK | SCTP_CHUNK_FORWARD_TSN | SCTP_CHUNK_HB | SCTP_CHUNK_HB_ACK
  | SCTP_CHUNK_OTHER

record sctp_chunk =
  eType :: sctp_type
  uiTsn :: u32
  usStreamId :: u16
  usStreamSeqNum :: u16

record hdr_tora =
  th_type :: u16
  t_dst :: u32
  t_tau :: real
  t_oid :: u32
  t_r :: int
  t_delta :: int
  t_id :: u32

text \<open>
  The fields of the headers of AODV and its descendants: one type byte, and the two structures
  laid over what follows.
\<close>

record request_view =
  q_hop_count :: u8
  q_bcast_id :: u32
  q_dst :: nsaddr
  q_dst_seqno :: u32
  q_src :: nsaddr
  q_src_seqno :: u32

record reply_view =
  r_hop_count :: u8
  r_dst :: nsaddr
  r_dst_seqno :: u32
  r_lifetime :: real
  r_bcast_id :: u32
  r_first_hop :: nsaddr

record aodv_view =
  a_type :: u8
  a_request :: request_view
  a_reply :: reply_view

text \<open>The packet as the formatter reads it: further fields and headers beside those of the agent.\<close>

record trace_packet = packet +
  opt_num_forwards :: int
  ih_flowid :: int
  fc_type :: int
  fc_subtype :: int
  dh_duration :: u32
  dh_ra :: u32
  dh_ta :: u32
  ether_type :: u32
  smac_type :: int
  smac_duration :: real
  smac_dstAddr :: u32
  smac_srcAddr :: u32
  arp_hdr :: hdr_arp
  sr_hdr :: hdr_sr
  tcp_seqno :: int
  tcp_ackno :: int
  SctpTrace :: "sctp_chunk list"
  rtp_seqno :: int
  imep_block_flags :: u8
  imep_length :: u16
  tora_hdr :: hdr_tora
  aodv_hdr :: aodv_view
  aomdv_hdr :: aodv_view
  cdiff_is_data :: bool
  p802_15_4macSA :: u32
  p802_15_4macDA :: u32

section \<open>The object\<close>

datatype trace_event =
    Dumped string
  | Nam_dumped string
  | Stamped trace_packet
  | Trace_freed trace_packet
  | Trace_sent trace_packet
  | Node_inroute u32

datatype trace_fault =
    Trace_assert
  | Trace_exit
  | Trace_abort
  | Trace_null
  | Trace_undefined
  | Trace_overflow

record cmu_trace =
  trace_type :: char
  trace_src :: u32
  tracename :: string
  tracetype :: layer
  trace_node :: bool
  newtrace :: int
  trace_target :: bool
  tagged :: bool
  buffer :: string
  nodeColor :: "u32 \<Rightarrow> int"
  bradius :: real
  radius_scaling_factor :: real
  duration_scaling_factor :: real
  traced :: "trace_event list"

definition MAX_ID_LEN :: nat where "MAX_ID_LEN = 3"

definition MAX_NODE :: int where "MAX_NODE = 4096"

text \<open>
  The three scaling values are static members; every object here has a copy that starts at the
  initial value. \<^verbatim>\<open>strncpy\<close> into the zeroed array keeps the first three characters.\<close>

definition layer_of :: "string \<Rightarrow> layer option" where
  "layer_of nm =
     (if nm = ''RTR'' then Some TR_ROUTER
      else if nm = ''TRP'' then Some TR_ROUTER
      else if nm = ''PHY'' then Some TR_PHY
      else if nm = ''MAC'' then Some TR_MAC
      else if nm = ''IFQ'' then Some TR_IFQ
      else if nm = ''AGT'' then Some TR_AGENT
      else None)"

definition CMUTrace_new :: "string \<Rightarrow> char \<Rightarrow> u32 \<Rightarrow> bool \<Rightarrow> bool \<Rightarrow> trace_fault + cmu_trace" where
  "CMUTrace_new s t src tgt tg =
     (let nm = take MAX_ID_LEN s in
      case layer_of nm of
        None \<Rightarrow> Inl Trace_exit
      | Some l \<Rightarrow>
          if t = DROP \<or> t = SEND \<or> t = RECV \<or> (t = EOT \<and> l = TR_MAC)
          then Inr \<lparr>trace_type = t, trace_src = src, tracename = nm, tracetype = l, trace_node = False, newtrace = 0,
                    trace_target = tgt, tagged = tg, buffer = [], nodeColor = (\<lambda>_. 3), bradius = 0,
                    radius_scaling_factor = 0, duration_scaling_factor = 0, traced = []\<rparr>
          else Inl Trace_assert)"

definition print :: "nat \<Rightarrow> string \<Rightarrow> arg list \<Rightarrow> cmu_trace \<Rightarrow> trace_fault + cmu_trace" where
  "print offset fmt args s =
     (case sprintf fmt args of
        None \<Rightarrow> Inl Trace_undefined
      | Some t \<Rightarrow> Inr (s\<lparr>buffer := take offset (buffer s) @ t\<rparr>))"

definition i32 :: "int \<Rightarrow> arg" where
  "i32 n = I (of_int n)"

text \<open>\<^verbatim>\<open>packet_info.name\<close>; printing a null pointer or an unnamed slot is undefined.\<close>

definition type_name :: "sim \<Rightarrow> packet_t \<Rightarrow> trace_fault + string" where
  "type_name N t = (case p_info_name (have_stl N) t of Inr (Some nm) \<Rightarrow> Inr nm | _ \<Rightarrow> Inl Trace_undefined)"

section \<open>Tracers added at run time\<close>

text \<open>
  A \<^verbatim>\<open>PacketTracer\<close> is its virtual \<^verbatim>\<open>format\<close>, which may write to the buffer and says whether it
  knew the packet; the chain through \<^verbatim>\<open>next_\<close> is the list of the tracers, newest first.
\<close>

type_synonym tracer = "trace_packet \<Rightarrow> nat \<Rightarrow> int \<Rightarrow> string \<Rightarrow> bool \<times> string"

fun format_unknow :: "tracer list \<Rightarrow> trace_packet \<Rightarrow> nat \<Rightarrow> int \<Rightarrow> string \<Rightarrow> bool \<times> string" where
  "format_unknow [] p offset nt buf = (False, buf)"
| "format_unknow (f # fs) p offset nt buf =
     (let (known, buf1) = f p offset nt buf in
      if known then (True, buf1) else format_unknow fs p offset nt buf1)"

definition addPacketTracer :: "tracer option \<Rightarrow> tracer list \<Rightarrow> tracer list" where
  "addPacketTracer pt chain = (case pt of None \<Rightarrow> chain | Some f \<Rightarrow> f # chain)"

section \<open>The MAC layer\<close>

definition format_phy :: "nat \<Rightarrow> cmu_trace \<Rightarrow> trace_fault + cmu_trace" where
  "format_phy offset = print offset '' '' []"

definition print_ether_type :: "sim \<Rightarrow> trace_packet \<Rightarrow> bool" where
  "print_ether_type N p \<longleftrightarrow> \<not> (ch_ptype p = PT_MAC \<and>
     (fc_type p = hconst N MAC_Type_Control \<or> fc_type p = hconst N MAC_Type_Management))"

definition format_mac :: "sim \<Rightarrow> trace_packet \<Rightarrow> nat \<Rightarrow> cmu_trace \<Rightarrow> trace_fault + cmu_trace" where
  "format_mac N p offset s =
     (let args = [I (dh_duration p), I (dh_ra p), I (dh_ta p),
                  I (if print_ether_type N p then ether_type p else 0)] in
      if tagged s then print offset ''-M:dur %x -M:s %x -M:d %x -M:t %x '' args s
      else if newtrace s \<noteq> 0 then print offset ''-Ma %x -Md %x -Ms %x -Mt %x '' args s
      else print offset '' [%x %x %x %x] '' args s)"

definition format_smac :: "trace_packet \<Rightarrow> nat \<Rightarrow> cmu_trace \<Rightarrow> trace_fault + cmu_trace" where
  "format_smac p offset =
     print offset '' [%.2f %d %d] '' [R (smac_duration p), I (smac_dstAddr p), I (smac_srcAddr p)]"

text \<open>The kind of a frame in the old format: the first constant that matches.\<close>

fun first_match :: "(hdr_const \<times> string) list \<Rightarrow> sim \<Rightarrow> int \<Rightarrow> string" where
  "first_match [] N k = ''UNKN''"
| "first_match ((c, nm) # cs) N k = (if k = hconst N c then nm else first_match cs N k)"

definition control_kinds :: "(hdr_const \<times> string) list" where
  "control_kinds = [(MAC_Subtype_RTS, ''RTS''), (MAC_Subtype_CTS, ''CTS''), (MAC_Subtype_ACK, ''ACK''),
     (MAC_Subtype_Beacon, ''BCN''), (MAC_Subtype_Command_AssoReq, ''CM1''),
     (MAC_Subtype_Command_AssoRsp, ''CM2''), (MAC_Subtype_Command_DAssNtf, ''CM3''),
     (MAC_Subtype_Command_DataReq, ''CM4''), (MAC_Subtype_Command_PIDCNtf, ''CM5''),
     (MAC_Subtype_Command_OrphNtf, ''CM6''), (MAC_Subtype_Command_BconReq, ''CM7''),
     (MAC_Subtype_Command_CoorRea, ''CM8''), (MAC_Subtype_Command_GTSReq, ''CM9'')]"

definition management_kinds :: "(hdr_const \<times> string) list" where
  "management_kinds = [(MAC_Subtype_80211_Beacon, ''BCN''), (MAC_Subtype_AssocReq, ''ACRQ''),
     (MAC_Subtype_AssocRep, ''ACRP''), (MAC_Subtype_Auth, ''AUTH''), (MAC_Subtype_ProbeReq, ''PRRQ''),
     (MAC_Subtype_ProbeRep, ''PRRP'')]"

definition smac_kinds :: "(hdr_const \<times> string) list" where
  "smac_kinds = [(RTS_PKT, ''RTS''), (CTS_PKT, ''CTS''), (ACK_PKT, ''ACK''), (SYNC_PKT, ''SYNC'')]"

text \<open>Only one of the two header pointers is set, by the MAC type; the other is uninitialised.\<close>

definition frame_kind :: "sim \<Rightarrow> trace_packet \<Rightarrow> trace_fault + string" where
  "frame_kind N p =
     (if ch_ptype p = PT_MAC then
        (if macType N = ''Mac/SMAC'' then Inl Trace_undefined
         else Inr (if fc_type p = hconst N MAC_Type_Control then first_match control_kinds N (fc_subtype p)
                   else if fc_type p = hconst N MAC_Type_Management
                   then first_match management_kinds N (fc_subtype p) else ''UNKN''))
      else if ch_ptype p = PT_SMAC then
        (if macType N = ''Mac/SMAC'' then Inr (first_match smac_kinds N (smac_type p))
         else Inl Trace_undefined)
      else type_name N (ch_ptype p))"

definition node_model :: "sim \<Rightarrow> u32 \<Rightarrow> energy_model option" where
  "node_model N a = (case get_node_by_address N a of None \<Rightarrow> None | Some nd \<Rightarrow> node_energy_model nd)"

definition mac_or_smac :: "sim \<Rightarrow> trace_packet \<Rightarrow> nat \<Rightarrow> cmu_trace \<Rightarrow> trace_fault + cmu_trace" where
  "mac_or_smac N p offset s =
     (if macType N = ''Mac/SMAC'' then format_smac p offset s else format_mac N p offset s)"

definition trace_op :: "sim \<Rightarrow> trace_packet \<Rightarrow> cmu_trace \<Rightarrow> char" where
  "trace_op N p s =
     (if tracetype s = TR_ROUTER \<and> trace_type s = SEND \<and> trace_src s \<noteq> get_nodeaddr N (ih_saddr p) then FWRD
      else trace_type s)"

definition c_arg :: "char \<Rightarrow> arg" where
  "c_arg c = I (of_nat (of_char c))"

text \<open>The three formats of \<^verbatim>\<open>format_mac_common\<close>.\<close>

definition mac_common_tagged ::
  "sim \<Rightarrow> trace_packet \<Rightarrow> real \<Rightarrow> nat \<Rightarrow> cmu_trace \<Rightarrow> trace_fault + cmu_trace" where
  "mac_common_tagged N p en offset s =
     (if \<not> trace_node s then Inl Trace_null
      else
        let next_hop = (case get_node_by_address N (ch_next_hop p) of None \<Rightarrow> - 1 | Some nd \<Rightarrow> nodeid nd);
            (x, y, z) = getLoc N;
            op0 = trace_op N p s;
            op = (if op0 = DROP then CHR ''d'' else if op0 = SEND then CHR ''+''
                  else if op0 = FWRD then CHR ''h'' else op0)
        in bindE (type_name N (ch_ptype p)) (\<lambda>nm.
           bindE (print offset ''%c %s -s %d -d %d -p %s -k %3s -i %d -N:loc {%.2f %.2f %.2f} -N:en %f ''
                    [c_arg op, S (time_format N (clock N)), I (trace_src s), I next_hop, S nm, S (tracename s),
                     i32 (ch_uid p), R x, R y, R z, R en] s)
             (\<lambda>s1. mac_or_smac N p (length (buffer s1)) s1)))"

definition mac_common_new ::
  "sim \<Rightarrow> trace_packet \<Rightarrow> string \<Rightarrow> real \<Rightarrow> nat \<Rightarrow> cmu_trace \<Rightarrow> trace_fault + cmu_trace" where
  "mac_common_new N p why en offset s =
     (if \<not> trace_node s then Inl Trace_null
      else
        let (x, y, z) = getLoc N;
            op0 = trace_op N p s; op = (if op0 = DROP then CHR ''d'' else op0)
        in bindE (print offset
               ''%c -t %.9f -Hs %d -Hd %d -Ni %d -Nx %.2f -Ny %.2f -Nz %.2f -Ne %f -Nl %3s -Nw %s ''
               [c_arg op, R (clock N), I (trace_src s), I (ch_next_hop p), I (trace_src s), R x, R y, R z, R en,
                S (tracename s), S why] s)
             (\<lambda>s1. mac_or_smac N p (length (buffer s1)) s1))"

definition mac_common_old ::
  "sim \<Rightarrow> trace_packet \<Rightarrow> string \<Rightarrow> nat \<Rightarrow> cmu_trace \<Rightarrow> trace_fault + cmu_trace" where
  "mac_common_old N p why offset s =
     bindE (frame_kind N p) (\<lambda>kind.
     bindE (print offset ''%c %.9f _%d_ %3s %4s %d %s %d''
              [c_arg (trace_op N p s), R (clock N), I (trace_src s), S (tracename s), S why,
               i32 (ch_uid p), S kind, i32 (ch_size p)] s) (\<lambda>s1.
     if tracetype s1 = TR_PHY then format_phy (length (buffer s1)) s1
     else
       bindE (if take 8 (macType N) = ''Mac/SMAC'' then format_smac p (length (buffer s1)) s1
              else format_mac N p (length (buffer s1)) s1) (\<lambda>s2.
       case node_model N (trace_src s2) of
         None \<Rightarrow> Inr s2
       | Some m \<Rightarrow>
           print (length (buffer s2)) ''[energy %f ei %.3f es %.3f et %.3f er %.3f] ''
             [R (energy m), R (ei m), R (es m), R (et m), R (er m)] s2)))"

definition format_mac_common ::
  "sim \<Rightarrow> trace_packet \<Rightarrow> string \<Rightarrow> nat \<Rightarrow> cmu_trace \<Rightarrow> trace_fault + cmu_trace" where
  "format_mac_common N p why offset s =
     (let en = (case node_model N (trace_src s) of None \<Rightarrow> - 1 | Some m \<Rightarrow> energy m) in
      if tagged s then mac_common_tagged N p en offset s
      else if newtrace s \<noteq> 0 then mac_common_new N p why en offset s
      else mac_common_old N p why offset s)"

end
