(* ===== verification/CMUFormat.thy ===== *)
theory CMUFormat
  imports CMUTrace
begin

text \<open>
  The formatter of \<^verbatim>\<open>trace/cmu-trace.cc\<close>, continued: the part of the line for each protocol.
\<close>

section \<open>One protocol each\<close>

text \<open>The three formats of a line: tagged, new and old.\<close>

definition print3 :: "nat \<Rightarrow> string \<Rightarrow> string \<Rightarrow> string \<Rightarrow> arg list \<Rightarrow> cmu_trace \<Rightarrow> trace_fault + cmu_trace" where
  "print3 offset tag new old args s =
     print offset (if tagged s then tag else if newtrace s \<noteq> 0 then new else old) args s"

definition format_ip :: "sim \<Rightarrow> trace_packet \<Rightarrow> nat \<Rightarrow> cmu_trace \<Rightarrow> trace_fault + cmu_trace" where
  "format_ip N p offset s =
     (let src = get_nodeaddr N (ih_saddr p); dst = get_nodeaddr N (ih_daddr p) in
      if tagged s then
        bindE (type_name N (ch_ptype p)) (\<lambda>nm.
          print offset ''-IP:s %d -IP:sp %d -IP:d %d -IP:dp %d -p %s -e %d -c %d -i %d -IP:ttl %d ''
            [I src, i32 (ih_sport p), I dst, i32 (ih_dport p), S nm, i32 (ch_size p), i32 (ih_flowid p),
             i32 (ch_uid p), i32 (ih_ttl p)] s)
      else if newtrace s \<noteq> 0 then
        bindE (type_name N (ch_ptype p)) (\<lambda>nm.
          print offset ''-Is %d.%d -Id %d.%d -It %s -Il %d -If %d -Ii %d -Iv %d ''
            [I src, i32 (ih_sport p), I dst, i32 (ih_dport p), S nm, i32 (ch_size p), i32 (ih_flowid p),
             i32 (ch_uid p), i32 (ih_ttl p)] s)
      else
        print offset ''------- [%d:%d %d:%d %d %d] ''
          [I src, i32 (ih_sport p), I dst, i32 (ih_dport p), i32 (ih_ttl p),
           I (if sint (ch_next_hop p) < 0 then 0 else ch_next_hop p)] s)"

definition format_arp :: "sim \<Rightarrow> trace_packet \<Rightarrow> nat \<Rightarrow> cmu_trace \<Rightarrow> trace_fault + cmu_trace" where
  "format_arp N p offset =
     (let ah = arp_hdr p in
      print3 offset ''-arp:op %s -arp:ms %d -arp:s %d -arp:md %d -arp:d %d ''
        ''-P arp -Po %s -Pms %d -Ps %d -Pmd %d -Pd %d '' ''------- [%s %d/%d %d/%d]''
        [S (if arp_op ah = hconst N ARPOP_REQUEST then ''REQUEST'' else ''REPLY''),
         I (arp_sha ah), I (arp_spa ah), I (arp_tha ah), I (arp_tpa ah)])"

definition format_dsr :: "trace_packet \<Rightarrow> nat \<Rightarrow> cmu_trace \<Rightarrow> trace_fault + cmu_trace" where
  "format_dsr p offset =
     (let srh = sr_hdr p;
          last_err_index = (if num_route_errors srh > 1 then num_route_errors srh - 1 else 0);
          last_reply_index = (if route_reply_len srh > 1 then route_reply_len srh - 1 else 0) in
      print3 offset
        ''-dsr:h %d -dsr:q %d -dsr:s %d -dsr:p %d -dsr:n %d -dsr:l %d -dsr:e {%d %d} -dsr:w %d -dsr:m %d -dsr:c %d -dsr:b {%d %d} ''
        ''-P dsr -Ph %d -Pq %d -Ps %d -Pp %d -Pn %d -Pl %d -Pe %d->%d -Pw %d -Pm %d -Pc %d -Pb %d->%d ''
        ''%d [%d %d] [%d %d %d %d->%d] [%d %d %d %d->%d]''
        [i32 (num_addrs srh), i32 (route_request srh), i32 (rtreq_seq srh), i32 (route_reply srh),
         i32 (rtreq_seq srh), i32 (route_reply_len srh), I (reply_addrs srh 0),
         I (reply_addrs srh last_reply_index), i32 (route_error srh), i32 (num_route_errors srh),
         I (tell_addr srh last_err_index), I (from_addr srh last_err_index), I (to_addr srh last_err_index)])"

definition format_msg :: "cmu_trace \<Rightarrow> trace_fault + cmu_trace" where
  "format_msg s = Inr s"

definition format_tcp :: "trace_packet \<Rightarrow> nat \<Rightarrow> cmu_trace \<Rightarrow> trace_fault + cmu_trace" where
  "format_tcp p offset =
     print3 offset ''-tcp:s %d -tcp:a %d -tcp:f %d -tcp:o %d '' ''-Pn tcp -Ps %d -Pa %d -Pf %d -Po %d ''
       ''[%d %d] %d %d''
       [i32 (tcp_seqno p), i32 (tcp_ackno p), i32 (ch_num_forwards p), i32 (opt_num_forwards p)]"

fun chunk_char :: "sctp_type \<Rightarrow> trace_fault + char" where
  "chunk_char SCTP_CHUNK_INIT = Inr (CHR ''I'')"
| "chunk_char SCTP_CHUNK_INIT_ACK = Inr (CHR ''I'')"
| "chunk_char SCTP_CHUNK_COOKIE_ECHO = Inr (CHR ''I'')"
| "chunk_char SCTP_CHUNK_COOKIE_ACK = Inr (CHR ''I'')"
| "chunk_char SCTP_CHUNK_DATA = Inr (CHR ''D'')"
| "chunk_char SCTP_CHUNK_SACK = Inr (CHR ''S'')"
| "chunk_char SCTP_CHUNK_FORWARD_TSN = Inr (CHR ''R'')"
| "chunk_char SCTP_CHUNK_HB = Inr (CHR ''H'')"
| "chunk_char SCTP_CHUNK_HB_ACK = Inr (CHR ''B'')"
| "chunk_char SCTP_CHUNK_OTHER = Inl Trace_assert"

text \<open>The loop over the chunks prints each one at the same offset.\<close>

definition format_chunk :: "trace_packet \<Rightarrow> nat \<Rightarrow> sctp_chunk \<Rightarrow> cmu_trace \<Rightarrow> trace_fault + cmu_trace" where
  "format_chunk p offset c s =
     bindE (chunk_char (eType c)) (\<lambda>k.
       print offset
         (if newtrace s \<noteq> 0 then ''-Pn sctp -Pnc %d -Pct %c -Ptsn %d -Psid %d -Pssn %d -Pf %d -Po %d ''
          else ''[%d %c %d %d %d] %d %d'')
         [i32 (int (length (SctpTrace p))), c_arg k, I (uiTsn c), I (ucast (usStreamId c)),
          I (ucast (usStreamSeqNum c)), i32 (ch_num_forwards p), i32 (opt_num_forwards p)] s)"

definition format_sctp :: "trace_packet \<Rightarrow> nat \<Rightarrow> cmu_trace \<Rightarrow> trace_fault + cmu_trace" where
  "format_sctp p offset s = foldE (format_chunk p offset) (SctpTrace p) s"

definition format_rtp :: "sim \<Rightarrow> trace_packet \<Rightarrow> nat \<Rightarrow> cmu_trace \<Rightarrow> trace_fault + cmu_trace" where
  "format_rtp N p offset s =
     bindE
       (if get_nodeaddr N (ih_daddr p) = trace_src s then
          (case get_node_by_address N (trace_src s) of
             None \<Rightarrow> Inl Trace_null
           | Some nd \<Rightarrow>
               (case node_energy_model nd of
                  Some m \<Rightarrow> Inr (if powersavingflag m
                                 then s\<lparr>traced := traced s @ [Node_inroute (trace_src s)]\<rparr> else s)
                | None \<Rightarrow> Inr s))
        else Inr s)
       (print3 offset ''-cbr:s %d -cbr:f %d -cbr:o %d '' ''-Pn cbr -Pi %d -Pf %d -Po %d '' ''[%d] %d %d''
          [i32 (rtp_seqno p), i32 (ch_num_forwards p), i32 (opt_num_forwards p)])"

definition flag_char :: "sim \<Rightarrow> u8 \<Rightarrow> hdr_const \<Rightarrow> char \<Rightarrow> arg" where
  "flag_char N flags k c = c_arg (if and flags (of_int (hconst N k)) \<noteq> 0 then c else CHR ''-'')"

definition format_imep :: "sim \<Rightarrow> trace_packet \<Rightarrow> nat \<Rightarrow> cmu_trace \<Rightarrow> trace_fault + cmu_trace" where
  "format_imep N p offset =
     print3 offset ''-imep:a %c -imep:h %c -imep:o %c -imep:l %04x ''
       ''-P imep -Pa %c -Ph %c -Po %c -Pl 0x%04x ] '' ''[%c %c %c 0x%04x] ''
       [flag_char N (imep_block_flags p) BLOCK_FLAG_ACK (CHR ''A''),
        flag_char N (imep_block_flags p) BLOCK_FLAG_HELLO (CHR ''H''),
        flag_char N (imep_block_flags p) BLOCK_FLAG_OBJECT (CHR ''O''),
        I (ucast (imep_length p))]"

definition format_tora :: "sim \<Rightarrow> trace_packet \<Rightarrow> nat \<Rightarrow> cmu_trace \<Rightarrow> trace_fault + cmu_trace" where
  "format_tora N p offset s =
     (let th = tora_hdr p; t = uint (th_type th); ty = I (ucast (th_type th)) in
      if t = hconst N TORATYPE_QRY then
        print3 offset ''-tora:t %x -tora:d %d -tora:c QUERY'' ''-P tora -Pt 0x%x -Pd %d -Pc QUERY ''
          ''[0x%x %d] (QUERY)'' [ty, I (t_dst th)] s
      else if t = hconst N TORATYPE_UPD then
        print3 offset
          ''-tora:t %x -tora:d %d -tora:a %f -tora:o %d -tora:r %d -tora:e %d -tora:i %d -tora:c UPDATE''
          ''-P tora -Pt 0x%x -Pd %d (%f %d %d %d %d) -Pc UPDATE ''
          ''-Pt 0x%x -Pd %d -Pa %f -Po %d -Pr %d -Pe %d -Pi %d -Pc UPDATE ''
          [ty, I (t_dst th), R (t_tau th), I (t_oid th), i32 (t_r th), i32 (t_delta th), I (t_id th)] s
      else if t = hconst N TORATYPE_CLR then
        print3 offset ''-tora:t %x -tora:d %d -tora:a %f -tora:o %d -tora:c CLEAR ''
          ''-P tora -Pt 0x%x -Pd %d -Pa %f -Po %d -Pc CLEAR '' ''[0x%x %d %f %d] (CLEAR)''
          [ty, I (t_dst th), R (t_tau th), I (t_oid th)] s
      else Inr s)"

section \<open>AODV and its descendants\<close>

definition request_args :: "u8 \<Rightarrow> request_view \<Rightarrow> arg list" where
  "request_args t q = [I (ucast t), I (ucast (q_hop_count q)), I (q_bcast_id q), I (q_dst q), I (q_dst_seqno q),
     I (q_src q), I (q_src_seqno q)]"

definition reply_args :: "u8 \<Rightarrow> reply_view \<Rightarrow> string \<Rightarrow> arg list" where
  "reply_args t r nm = [I (ucast t), I (ucast (r_hop_count r)), I (r_dst r), I (r_dst_seqno r), R (r_lifetime r), S nm]"

text \<open>The name of a reply-like message, by the constants of the protocol.\<close>

definition reply_name :: "int \<Rightarrow> int \<Rightarrow> u8 \<Rightarrow> string" where
  "reply_name rrep rerr t = (if uint t = rrep then ''REPLY'' else if uint t = rerr then ''ERROR'' else ''HELLO'')"

definition format_aodv :: "sim \<Rightarrow> trace_packet \<Rightarrow> nat \<Rightarrow> cmu_trace \<Rightarrow> trace_fault + cmu_trace" where
  "format_aodv N p offset s =
     (let ah = aodv_hdr p; t = a_type ah; k = hconst N in
      if uint t = k AODVTYPE_RREQ then
        print3 offset
          ''-aodv:t %x -aodv:h %d -aodv:b %d -aodv:d %d -aodv:ds %d -aodv:s %d -aodv:ss %d -aodv:c REQUEST ''
          ''-P aodv -Pt 0x%x -Ph %d -Pb %d -Pd %d -Pds %d -Ps %d -Pss %d -Pc REQUEST ''
          ''[0x%x %d %d [%d %d] [%d %d]] (REQUEST)'' (request_args t (a_request ah)) s
      else if uint t = k AODVTYPE_RREP \<or> uint t = k AODVTYPE_HELLO \<or> uint t = k AODVTYPE_RERR then
        print3 offset
          ''-aodv:t %x -aodv:h %d -aodv:d %d -adov:ds %d -aodv:l %f -aodv:c %s ''
          ''-P aodv -Pt 0x%x -Ph %d -Pd %d -Pds %d -Pl %f -Pc %s ''
          ''[0x%x %d [%d %d] %f] (%s)''
          (reply_args t (a_reply ah) (reply_name (k AODVTYPE_RREP) (k AODVTYPE_RERR) t)) s
      else Inl Trace_abort)"

text \<open>In the old format the two descendants name the message by AODV's constants and add two fields.\<close>

definition old_reply_args :: "sim \<Rightarrow> u8 \<Rightarrow> reply_view \<Rightarrow> arg list" where
  "old_reply_args N t r =
     reply_args t r (reply_name (hconst N AODVTYPE_RREP) (hconst N AODVTYPE_RERR) t)
       @ [I (r_bcast_id r), I (r_first_hop r)]"

definition format_aomdv :: "sim \<Rightarrow> trace_packet \<Rightarrow> nat \<Rightarrow> cmu_trace \<Rightarrow> trace_fault + cmu_trace" where
  "format_aomdv N p offset s =
     (let ah = aomdv_hdr p; t = a_type ah; k = hconst N in
      if uint t = k AOMDVTYPE_RREQ then
        print3 offset
          ''-aomdv:t %x -aomdv:h %d -aomdv:b %d -aomdv:d %d -aomdv:ds %d -aomdv:s %d -aomdv:ss %d -aomdv:c REQUEST ''
          ''-P aomdv -Pt 0x%x -Ph %d -Pb %d -Pd %d -Pds %d -Ps %d -Pss %d -Pc REQUEST ''
          ''[0x%x %d %d [%d %d] [%d %d]] (REQUEST)'' (request_args t (a_request ah)) s
      else if uint t = k AOMDVTYPE_RREP \<or> uint t = k AOMDVTYPE_HELLO \<or> uint t = k AOMDVTYPE_RERR then
        (if tagged s \<or> newtrace s \<noteq> 0 then
           print offset
             (if tagged s then ''-aomdv:t %x -aomdv:h %d -aomdv:d %d -admov:ds %d -aomdv:l %f -aomdv:c %s ''
              else ''-P aomdv -Pt 0x%x -Ph %d -Pd %d -Pds %d -Pl %f -Pc %s '')
             (reply_args t (a_reply ah) (reply_name (k AOMDVTYPE_RREP) (k AOMDVTYPE_RERR) t)) s
         else print offset ''[0x%x %d [%d %d] %f] (%s) [%d %d]'' (old_reply_args N t (a_reply ah)) s)
      else Inl Trace_abort)"

text \<open>
  The agent's header union as the formatter reads it. An error message is read through the
  structure of a reply: with 4-byte addresses and numbers the reply's fields lie over the first
  entries of the list of unreachable destinations.
\<close>

definition eamrp_request_view :: "hdr_eamrp_request \<Rightarrow> request_view" where
  "eamrp_request_view rq = \<lparr>q_hop_count = rq_hop_count rq, q_bcast_id = rq_bcast_id rq, q_dst = rq_dst rq,
     q_dst_seqno = rq_dst_seqno rq, q_src = rq_src rq, q_src_seqno = rq_src_seqno rq\<rparr>"

definition eamrp_reply_view :: "hdr_eamrp_reply \<Rightarrow> reply_view" where
  "eamrp_reply_view rp = \<lparr>r_hop_count = rp_hop_count rp, r_dst = rp_dst rp, r_dst_seqno = rp_dst_seqno rp,
     r_lifetime = rp_lifetime rp, r_bcast_id = rp_bcast_id rp, r_first_hop = rp_first_hop rp\<rparr>"

definition eamrp_error_view :: "sim \<Rightarrow> hdr_eamrp_error \<Rightarrow> reply_view" where
  "eamrp_error_view N re =
     (let u = unreachable_dst re in
      \<lparr>r_hop_count = DestCount re, r_dst = u ! 0, r_dst_seqno = u ! 1,
       r_lifetime = double_of N (u ! 3) (u ! 4), r_bcast_id = u ! 7, r_first_hop = u ! 8\<rparr>)"

definition format_eamrp_reply :: "sim \<Rightarrow> u8 \<Rightarrow> reply_view \<Rightarrow> nat \<Rightarrow> cmu_trace \<Rightarrow> trace_fault + cmu_trace" where
  "format_eamrp_reply N t r offset s =
     (if tagged s \<or> newtrace s \<noteq> 0 then
        print offset
          (if tagged s then ''-eamrp:t %x -eamrp:h %d -eamrp:d %d -admov:ds %d -eamrp:l %f -eamrp:c %s ''
           else ''-P eamrp -Pt 0x%x -Ph %d -Pd %d -Pds %d -Pl %f -Pc %s '')
          (reply_args t r (reply_name (uint EAMRPTYPE_RREP) (uint EAMRPTYPE_RERR) t)) s
      else print offset ''[0x%x %d [%d %d] %f] (%s) [%d %d]'' (old_reply_args N t r) s)"

definition format_eamrp :: "sim \<Rightarrow> trace_packet \<Rightarrow> nat \<Rightarrow> cmu_trace \<Rightarrow> trace_fault + cmu_trace" where
  "format_eamrp N p offset s =
     (case hdr p of
        Rreq rq \<Rightarrow>
          print3 offset
            ''-eamrp:t %x -eamrp:h %d -eamrp:b %d -eamrp:d %d -eamrp:ds %d -eamrp:s %d -eamrp:ss %d -eamrp:c REQUEST ''
            ''-P eamrp -Pt 0x%x -Ph %d -Pb %d -Pd %d -Pds %d -Ps %d -Pss %d -Pc REQUEST ''
            ''[0x%x %d %d [%d %d] [%d %d]] (REQUEST)'' (request_args EAMRPTYPE_RREQ (eamrp_request_view rq)) s
      | Rrep rp \<Rightarrow> format_eamrp_reply N EAMRPTYPE_RREP (eamrp_reply_view rp) offset s
      | Hello rp \<Rightarrow> format_eamrp_reply N EAMRPTYPE_HELLO (eamrp_reply_view rp) offset s
      | Rerr re \<Rightarrow> format_eamrp_reply N EAMRPTYPE_RERR (eamrp_error_view N re) offset s
      | Raw t \<Rightarrow> Inl Trace_abort)"

section \<open>M-DART\<close>

text \<open>
  \<^verbatim>\<open>format_mdart\<close> is defined and declared, but the dispatch never reaches it. Its headers lie over
  each other in the packet; a field the formatter reads has a name of its own in each. The
  new format prints addresses in binary, by \<^verbatim>\<open>bitset<ADDR_SIZE>::to_string\<close>.
\<close>

record mdart_hello =
  mh_type :: u32
  mh_dstAdd :: u32
  mh_srcAdd :: u32
  mh_srcId :: u32
  mh_seqNum :: u32

record mdart_req =
  mr_type :: u32
  mr_dstAdd :: u32
  mr_srcAdd :: u32
  mr_dstId :: u32
  mr_srcId :: u32
  mr_forAdd :: u32
  mr_forId :: u32
  mr_reqAdd :: u32
  mr_reqId :: u32
  mr_seqNum :: u32

datatype mdart_type =
    MDART_TYPE_HELLO | MDART_TYPE_DARQ | MDART_TYPE_DARP | MDART_TYPE_DAUP | MDART_TYPE_DABR | MDART_TYPE_OTHER

record hdr_mdart =
  mdart_kind :: mdart_type
  rhHello :: mdart_hello
  rhDarq :: mdart_req
  rhDarp :: mdart_req
  rhDaup :: mdart_req

definition bitset_string :: "nat \<Rightarrow> u32 \<Rightarrow> string" where
  "bitset_string ADDR_SIZE a =
     map (\<lambda>i. if i < 32 \<and> bit a i then CHR ''1'' else CHR ''0'') (rev [0..<ADDR_SIZE])"

text \<open>One message: the format that is selected, with its own arguments.\<close>

definition print3_args ::
  "nat \<Rightarrow> string \<times> arg list \<Rightarrow> string \<times> arg list \<Rightarrow> string \<times> arg list \<Rightarrow> cmu_trace \<Rightarrow> trace_fault + cmu_trace" where
  "print3_args offset tag new old s =
     (let (f, a) = (if tagged s then tag else if newtrace s \<noteq> 0 then new else old) in print offset f a s)"

definition format_mdart :: "nat \<Rightarrow> hdr_mdart \<Rightarrow> nat \<Rightarrow> cmu_trace \<Rightarrow> trace_fault + cmu_trace" where
  "format_mdart ADDR_SIZE m offset s =
     (let bits = (\<lambda>a. S (bitset_string ADDR_SIZE a)); h = rhHello m; q = rhDarq m; r = rhDarp m; u = rhDaup m;
          daup_tag = (''-mdart:t %x -mdart:dAdd %d -mdart:sAdd %d -mdart:dId %d -mdart:sId %d -mdart:fAdd %d -mdart:fId %d -mdart:pAId %u -mdart:c DAUP'',
            [I (mr_type u), I (mr_dstAdd u), I (mr_srcAdd u), I (mr_dstId u), I (mr_srcId u), I (mr_forAdd u),
             I (mr_forId u), I (mr_seqNum u)]);
          daup_old = (''[0x%x [%d %d] [%d %d] [%d %d] %u] (DAUP)'', snd daup_tag)
      in case mdart_kind m of
        MDART_TYPE_HELLO \<Rightarrow>
          print3_args offset
            (''-mdart:t %x -mdart:dAdd %d -mdart:sAdd %d -mdart:sId %d'',
             [I (mh_type h), I (mh_dstAdd h), I (mh_srcAdd h), I (mh_srcId h)])
            (''-type HELLO -srcId %d -srcAdd %s dstAdd %s -seqNum %d'',
             [I (mh_srcId h), bits (mh_srcAdd h), bits (mh_dstAdd h), I (mh_seqNum h)])
            (''[0x%x [%d %d] [%d]]'', [I (mh_type h), I (mh_dstAdd h), I (mh_srcAdd h), I (mh_srcId h)]) s
      | MDART_TYPE_DARQ \<Rightarrow>
          print3_args offset
            (''-mdart:t %x -mdart:dstAdd %d -mdart:srcAdd %d -mdart:dstId %d -mdart:srcId %d -mdart:forAdd %d -mdart:forId %d -mdart:rId %d -mdart:pId %u -mdart:c DARQ'',
             [I (mr_type q), I (mr_dstAdd q), I (mr_srcAdd q), I (mr_dstId q), I (mr_srcId q), I (mr_forAdd q),
              I (mr_forId q), I (mr_reqId q), I (mr_seqNum q)])
            (''-type DARQ -srcId %d -srcAdd %s -forId %d -forAdd %s -dstId %d dstAdd %s -reqId %d -seqNum %d'',
             [I (mr_srcId q), bits (mr_srcAdd q), I (mr_forId q), bits (mr_forAdd q), I (mr_dstId q),
              bits (mr_dstAdd q), I (mr_reqId q), I (mr_seqNum q)])
            (''[0x%x [%d %d] [%d %d] [%d %d] [%d] %u] (DARQ)'',
             [I (mr_type q), I (mr_dstAdd q), I (mr_srcAdd q), I (mr_dstId q), I (mr_srcId q), I (mr_forAdd q),
              I (mr_forId q), I (mr_reqId q), I (mr_seqNum q)]) s
      | MDART_TYPE_DARP \<Rightarrow>
          print3_args offset
            (''-mdart:t %x -mdart:dAdd %d -mdart:sAdd %d -mdart:dId %d -mdart:sId %d -mdart:fAdd %d -mdart:fId %d -mdart:rAdd %d -mdart:rId %d -mdart:pAId %d mdart:c DARP'',
             [I (mr_type r), I (mr_dstAdd r), I (mr_srcAdd r), I (mr_dstId r), I (mr_srcId r), I (mr_forAdd r),
              I (mr_forId r), I (mr_reqAdd r), I (mr_reqId r), I (mr_seqNum r)])
            (''-type DARP -srcId %d -srcAdd %s -forId %d -forAdd %s -dstId %d dstAdd %s -reqId %d -reqAdd %s -seqNum %d'',
             [I (mr_srcId r), bits (mr_srcAdd r), I (mr_forId r), bits (mr_forAdd r), I (mr_dstId r),
              bits (mr_dstAdd r), I (mr_reqId r), bits (mr_reqAdd r), I (mr_seqNum r)])
            (''[0x%x [%d %d] [%d %d] [%d %d] [%d %d] %u] (DARP)'',
             [I (mr_type r), I (mr_dstAdd r), I (mr_srcAdd r), I (mr_dstId r), I (mr_srcId r), I (mr_forAdd r),
              I (mr_forId r), I (mr_reqAdd r), I (mr_reqId r), I (mr_seqNum r)]) s
      | MDART_TYPE_DAUP \<Rightarrow>
          print3_args offset daup_tag
            (''-type DAUP -srcId %d -srcAdd %s -forId %d -forAdd %s -dstId %d dstAdd %s -seqNum %d'',
             [I (mr_srcId u), bits (mr_srcAdd u), I (mr_forId u), bits (mr_forAdd u), I (mr_dstId u),
              bits (mr_dstAdd u), I (mr_seqNum u)])
            daup_old s
      | MDART_TYPE_DABR \<Rightarrow>
          print3_args offset daup_tag
            (''-type DABR -srcId %d -srcAdd %s dstAdd %s'', [I (mr_srcId q), bits (mr_srcAdd q), bits (mr_dstAdd q)])
            daup_old s
      | MDART_TYPE_OTHER \<Rightarrow> Inr s)"

end
