(* ===== verification/CMUNam.thy ===== *)
theory CMUNam
  imports CMUFormat
begin

text \<open>
  The rest of \<^verbatim>\<open>trace/cmu-trace.cc\<close>: the lines for the network animator, the dispatch of
  \<^verbatim>\<open>format\<close>, and what the object does with a packet it is handed.
\<close>

section \<open>The radius of a broadcast\<close>

text \<open>
  The Tcl variables are read by name. \<^verbatim>\<open>pow\<close> is the real power and division that of the reals,
  which is what the code computes, up to rounding, for positive settings.
\<close>

definition calculate_broadcast_parameters :: "sim \<Rightarrow> cmu_trace \<Rightarrow> cmu_trace" where
  "calculate_broadcast_parameters N s =
     (let v = atof_tcl N;
          P_t = v ''Phy/WirelessPhy set Pt_''; P_r = v ''Phy/WirelessPhy set RXThresh_'';
          L = v ''Phy/WirelessPhy set L_''; G_t = v ''Antenna/OmniAntenna set Gt_'';
          G_r = v ''Antenna/OmniAntenna set Gr_''; h = v ''Antenna/OmniAntenna set Z_'';
          far = (P_t * G_r * G_t * h ^ 4 / (P_r * L)) powr (1 / 4);
          PI = 314159265359 / 100000000000;
          lambda = 300000000 / v ''Phy/WirelessPhy set freq_'';
          crossover_dist = 4 * PI * h * h / lambda;
          rad = (if far < crossover_dist
                 then (P_t * G_r * G_t * lambda ^ 2 / (P_r * L)) powr (1 / 2) / (4 * PI) else far)
      in s\<lparr>bradius := rad, radius_scaling_factor := v ''CMUTrace set radius_scaling_factor_'',
           duration_scaling_factor := v ''CMUTrace set duration_scaling_factor_''\<rparr>)"

section \<open>The network animator\<close>

definition nam_kinds :: "(hdr_const \<times> string) list" where
  "nam_kinds = [(MAC_Subtype_RTS, ''RTS''), (MAC_Subtype_CTS, ''CTS''), (MAC_Subtype_ACK, ''ACK''),
     (MAC_Subtype_Beacon, ''BCN''), (MAC_Subtype_AssocReq, ''ACRQ''), (MAC_Subtype_AssocRep, ''ACRP''),
     (MAC_Subtype_Command_AssoReq, ''CM1''),
     (MAC_Subtype_Command_AssoRsp, ''CM2''), (MAC_Subtype_Command_DAssNtf, ''CM3''),
     (MAC_Subtype_Command_DataReq, ''CM4''), (MAC_Subtype_Command_PIDCNtf, ''CM5''),
     (MAC_Subtype_Command_OrphNtf, ''CM6''), (MAC_Subtype_Command_BconReq, ''CM7''),
     (MAC_Subtype_Command_CoorRea, ''CM8''), (MAC_Subtype_Command_GTSReq, ''CM9'')]"

text \<open>The name is copied into an array of eleven characters.\<close>

definition nam_ptype :: "sim \<Rightarrow> trace_packet \<Rightarrow> trace_fault + string" where
  "nam_ptype N p =
     bindE (if ch_ptype p = PT_MAC then Inr (first_match nam_kinds N (fc_subtype p)) else type_name N (ch_ptype p))
       (\<lambda>nm. if length nm < 11 then Inr nm else Inl Trace_overflow)"

text \<open>Division by an initial energy of zero gives no comparison that holds, as in IEEE arithmetic.\<close>

definition energy_level :: "energy_model option \<Rightarrow> int" where
  "energy_level m =
     (let (en, ini, l1, l2) = (case m of None \<Rightarrow> (- 1, - 1, 1 / 2, 2 / 10)
                               | Some e \<Rightarrow> (energy e, initialenergy e, level1 e, level2 e));
          left = en / ini;
          a = (if ini \<noteq> 0 \<and> left \<le> 1 \<and> left \<ge> l1 then 3 else 0);
          b = (if ini \<noteq> 0 \<and> left \<ge> l2 \<and> left < l1 then 2 else a)
      in if ini \<noteq> 0 \<and> left > 0 \<and> left < l2 then 1 else b)"

definition level_colors :: "int \<Rightarrow> string" where
  "level_colors l =
     (if l = 0 then ''-c black -o red'' else if l = 1 then ''-c red -o yellow''
      else if l = 2 then ''-c yellow -o green'' else ''-c green -o black'')"

definition nam_color :: "sim \<Rightarrow> trace_packet \<Rightarrow> u32" where
  "nam_color N p =
     (let c0 = (if ch_ptype p = PT_DIFF \<and> \<not> cdiff_is_data p then 1 else 0) in
      if Nam_Status N then
        let ends = (if ch_ptype p = PT_MAC then (p802_15_4macSA p, p802_15_4macDA p)
                    else (ih_saddr p, ih_daddr p));
            attr = (case findAttrLink N (ch_ptype p) (Some ends) of
                      Some a \<Rightarrow> a
                    | None \<Rightarrow> (case findAttrLink N (ch_ptype p) None of Some a \<Rightarrow> a | None \<Rightarrow> 0))
        in if sint attr \<ge> 32 then attr else c0
      else c0)"

definition nam_print :: "string \<Rightarrow> arg list \<Rightarrow> string \<Rightarrow> cmu_trace \<Rightarrow> trace_fault + cmu_trace" where
  "nam_print fmt args suffix s =
     (case sprintf fmt args of
        None \<Rightarrow> Inl Trace_undefined
      | Some t \<Rightarrow> Inr (s\<lparr>traced := traced s @ [Nam_dumped (t @ suffix)]\<rparr>))"

definition nam_args :: "sim \<Rightarrow> trace_packet \<Rightarrow> u32 \<Rightarrow> string \<Rightarrow> cmu_trace \<Rightarrow> arg list" where
  "nam_args N p next_hop nm s =
     [R (clock N), I (trace_src s), I next_hop, S nm, i32 (ch_size p), I (nam_color N p), i32 (ch_uid p),
      S (tracename s)]"

text \<open>The change of a node's colour; \<^verbatim>\<open>src_\<close> and \<^verbatim>\<open>MAX_NODE\<close> are compared as signed integers.\<close>

definition nam_recolor :: "sim \<Rightarrow> cmu_trace \<Rightarrow> trace_fault + cmu_trace" where
  "nam_recolor N s =
     (case node_model N (trace_src s) of
        None \<Rightarrow> Inr s
      | Some m \<Rightarrow>
          if energy m = - 1 then Inr s
          else if sint (trace_src s) \<ge> MAX_NODE then Inl Trace_exit
          else if sint (trace_src s) < 0 then Inl Trace_overflow
          else
            let l = energy_level (Some m) in
            if nodeColor s (trace_src s) \<noteq> l then
              bindE (nam_print ''n -t %.9f -s %d -S COLOR %s'' [R (clock N), I (trace_src s), S (level_colors l)] [] s)
                (\<lambda>s1. Inr (s1\<lparr>nodeColor := (nodeColor s1)(trace_src s1 := l)\<rparr>))
            else Inr s)"

text \<open>The extra fields of a broadcast, and the object with the parameters they need.\<close>

definition nam_broadcast :: "sim \<Rightarrow> trace_packet \<Rightarrow> u32 \<Rightarrow> char \<Rightarrow> cmu_trace \<Rightarrow> trace_fault + string \<times> cmu_trace" where
  "nam_broadcast N p next_hop op s =
     (if Nam_Status N \<and> (tracename s \<noteq> ''AGT'' \<or> ih_daddr p = 0xffffffff) \<and> next_hop = - 1 \<and> op = CHR ''h'' then
        let s1 = (if bradius s = 0 then calculate_broadcast_parameters N s else s);
            radius = bradius s1 * radius_scaling_factor s1;
            d = bradius s1 / 299792458 * duration_scaling_factor s1;
            duration = (if d < 1 / 1000000000 then 1 / 1000000000 else d)
        in (case sprintf '' -R %.2f -D %.2f'' [R radius, R duration] of
              None \<Rightarrow> Inl Trace_undefined | Some t \<Rightarrow> Inr (t, s1))
      else Inr ([], s))"

definition nam_format :: "sim \<Rightarrow> trace_packet \<Rightarrow> cmu_trace \<Rightarrow> trace_fault + cmu_trace" where
  "nam_format N p s =
     (if trace_type s = EOT then Inl Trace_assert
      else
        bindE (nam_ptype N p) (\<lambda>nm.
        let dst = get_nodeaddr N (ih_daddr p);
            next_hop = (case get_node_by_address N (ch_next_hop p) of None \<Rightarrow> - 1 | Some nd \<Rightarrow> nodeid nd);
            op = (if trace_type s = SEND then CHR ''h'' else if trace_type s = DROP then CHR ''d'' else trace_type s);
            args = nam_args N p next_hop nm s
        in bindE
             (if op = CHR ''h'' then
                bindE (nam_print ''+ -t %.9f -s %d -d %d -p %s -e %d -c 2 -a %d -i %d -k %3s '' args [] s)
                  (nam_print ''- -t %.9f -s %d -d %d -p %s -e %d -c 2 -a %d -i %d -k %3s'' args [])
              else Inr s)
             (\<lambda>s1.
                if tracetype s1 = TR_ROUTER \<and> trace_type s1 = RECV \<and> dst \<noteq> - 1 then Inr s1
                else
                  bindE (nam_recolor N s1) (\<lambda>s2.
                  bindE (nam_broadcast N p next_hop op s2) (\<lambda>(suffix, s3).
                    nam_print ''%c -t %.9f -s %d -d %d -p %s -e %d -c 2 -a %d -i %d -k %3s''
                      (c_arg op # args) suffix s3)))))"

section \<open>The dispatch\<close>

definition format_unknown ::
  "tracer list \<Rightarrow> trace_packet \<Rightarrow> nat \<Rightarrow> cmu_trace \<Rightarrow> trace_fault + cmu_trace" where
  "format_unknown chain p offset s =
     Inr (s\<lparr>buffer := snd (format_unknow chain p offset (newtrace s) (buffer s))\<rparr>)"

definition format_payload ::
  "sim \<Rightarrow> tracer list \<Rightarrow> trace_packet \<Rightarrow> nat \<Rightarrow> cmu_trace \<Rightarrow> trace_fault + cmu_trace" where
  "format_payload N chain p offset s =
     (let t = ch_ptype p in
      if t = PT_AODV then format_aodv N p offset s
      else if t = PT_AOMDV then format_aomdv N p offset s
      else if t = PT_EAMRP then format_eamrp N p offset s
      else if t = PT_TORA then format_tora N p offset s
      else if t = PT_IMEP then format_imep N p offset s
      else if t = PT_DSR then format_dsr p offset s
      else if t = PT_MESSAGE \<or> t = PT_UDP then format_msg s
      else if t = PT_TCP \<or> t = PT_ACK then format_tcp p offset s
      else if t = PT_SCTP then format_sctp p offset s
      else if t = PT_CBR then format_rtp N p offset s
      else if t = PT_DIFF then Inr s
      else if t = PT_GAF \<or> t = PT_PING then Inr s
      else format_unknown chain p offset s)"

definition format :: "sim \<Rightarrow> tracer list \<Rightarrow> trace_packet \<Rightarrow> string \<Rightarrow> cmu_trace \<Rightarrow> trace_fault + cmu_trace" where
  "format N chain p why s =
     bindE (format_mac_common N p why 0 s) (\<lambda>s1.
     bindE (if namchannel N then nam_format N p s1 else Inr s1) (\<lambda>s2.
     let offset = length (buffer s2); t = ch_ptype p in
     if t = PT_MAC \<or> t = PT_SMAC then Inr s2
     else if t = PT_ARP then format_arp N p offset s2
     else
       bindE (format_ip N p offset s2) (\<lambda>s3.
         format_payload N chain p (length (buffer s3)) s3)))"

section \<open>Packets through the object\<close>

definition node_energy :: "sim \<Rightarrow> cmu_trace \<Rightarrow> bool" where
  "node_energy N s \<longleftrightarrow> (case node_model N (trace_src s) of None \<Rightarrow> 1 | Some m \<Rightarrow> energy m) > 0"

definition trace_emit :: "trace_event \<Rightarrow> cmu_trace \<Rightarrow> cmu_trace" where
  "trace_emit e s = s\<lparr>traced := traced s @ [e]\<rparr>"

definition dump :: "cmu_trace \<Rightarrow> cmu_trace" where
  "dump s = trace_emit (Dumped (buffer s)) s"

text \<open>\<^verbatim>\<open>recv(p, h)\<close> of a tracer in the path of packets, then \<^verbatim>\<open>recv(p, why)\<close> of a drop target.\<close>

definition trace_recv :: "sim \<Rightarrow> tracer list \<Rightarrow> trace_packet \<Rightarrow> cmu_trace \<Rightarrow> trace_fault + cmu_trace" where
  "trace_recv N chain p s =
     (if \<not> node_energy N s then Inr (trace_emit (Trace_freed p) s)
      else if \<not> trace_node s then Inl Trace_assert
      else
        let s1 = (if tracetype s = TR_AGENT \<and> trace_type s = SEND then trace_emit (Stamped p) s else s) in
        bindE (format N chain p ''---'' s1) (\<lambda>s2.
          let s3 = dump s2 in
          Inr (trace_emit (if trace_target s3 then Trace_sent p else Trace_freed p) s3)))"

definition trace_drop :: "sim \<Rightarrow> tracer list \<Rightarrow> trace_packet \<Rightarrow> string \<Rightarrow> cmu_trace \<Rightarrow> trace_fault + cmu_trace" where
  "trace_drop N chain p why s =
     (if \<not> (trace_node s \<and> trace_type s = DROP) then Inl Trace_assert
      else if \<not> node_energy N s then Inr (trace_emit (Trace_freed p) s)
      else bindE (format N chain p why s) (\<lambda>s1. Inr (trace_emit (Trace_freed p) (dump s1))))"

definition trace_command ::
  "(string \<Rightarrow> bool) \<Rightarrow> (string \<Rightarrow> int) \<Rightarrow> (string list \<Rightarrow> bool) \<Rightarrow> string list \<Rightarrow> cmu_trace \<Rightarrow> bool \<times> cmu_trace" where
  "trace_command lookup atoi base argv s =
     (case argv of
        [_, a, b] \<Rightarrow>
          if a = ''node'' then (lookup b, s\<lparr>trace_node := lookup b\<rparr>)
          else if a = ''newtrace'' then (True, s\<lparr>newtrace := atoi b\<rparr>)
          else (base argv, s)
      | _ \<Rightarrow> (base argv, s))"

end
