(* ===== verification/TraceProps.thy ===== *)
theory TraceProps
  imports CMUNam
begin

text \<open>
  What a line of the trace says and what becomes of a traced packet: formatting produces only
  animation output beside the text, whatever the type of the packet, so the events of a tracer
  are known exactly; and the line of a route request determines the request.
\<close>

section \<open>What formatting changes\<close>

fun internal :: "trace_event \<Rightarrow> bool" where
  "internal (Nam_dumped t) = True"
| "internal (Node_inroute a) = True"
| "internal _ = False"

text \<open>Formatting adds only internal events and leaves the configuration of the object alone.\<close>

definition quiet :: "cmu_trace \<Rightarrow> cmu_trace \<Rightarrow> bool" where
  "quiet s s' \<longleftrightarrow> (\<exists>es. traced s' = traced s @ es \<and> list_all internal es) \<and> trace_target s' = trace_target s"

lemma quiet_refl [simp]: "quiet s s"
  by (simp add: quiet_def)

lemma quiet_trans: "quiet s t \<Longrightarrow> quiet t u \<Longrightarrow> quiet s u"
  by (auto simp: quiet_def)

lemma quiet_buffer [simp]: "quiet s (t\<lparr>buffer := b\<rparr>) = quiet s t" "quiet (s\<lparr>buffer := b\<rparr>) t = quiet s t"
  by (simp_all add: quiet_def)

abbreviation quietly :: "cmu_trace \<Rightarrow> trace_fault + cmu_trace \<Rightarrow> bool" where
  "quietly s \<equiv> safe UNIV (quiet s)"

lemma quietly_step:
  assumes "quiet s t" and "quietly t m"
  shows "quietly s m"
  using assms by (cases m) (auto intro: quiet_trans)

lemma quietly_bind:
  assumes "quietly s m" and "\<And>t. quietly t (f t)"
  shows "quietly s (bindE m f)"
proof (cases m)
  case (Inr t)
  with assms(1) have "quiet s t" by simp
  with Inr assms(2) [of t] show ?thesis by (simp add: quietly_step)
qed simp

lemma quietly_if: "quietly s m \<Longrightarrow> quietly s m' \<Longrightarrow> quietly s (if b then m else m')"
  by simp

lemma quietly_Inl: "quietly s (Inl e)"
  by simp

lemma quietly_arg: "(\<And>x. quietly s (f x)) \<Longrightarrow> quietly s (bindE m f)" for m :: "trace_fault + 'a"
  by (cases m) auto

lemma quietly_print [simp]: "quietly s (print offset fmt args s)"
  by (auto simp: print_def split: option.split)

lemma quietly_print3 [simp]: "quietly s (print3 offset a b c args s)"
  by (simp add: print3_def)

lemma quietly_mac [simp]:
  "quietly s (format_mac N p offset s)" "quietly s (format_smac p offset s)" "quietly s (format_phy offset s)"
  "quietly s (mac_or_smac N p offset s)"
  by (simp_all add: format_mac_def format_smac_def format_phy_def mac_or_smac_def Let_def)

declare safe_bindE [simp del]

lemma quietly_mac_common: "quietly s (format_mac_common N p why offset s)"
proof -
  have energy: "quietly t (case node_model N (trace_src t) of None \<Rightarrow> Inr t
       | Some m \<Rightarrow> print (length (buffer t)) fmt (args m) t)" for t fmt args
    by (auto split: option.split)
  have "quietly s (mac_common_tagged N p en offset s)" for en
    unfolding mac_common_tagged_def Let_def split_beta
    by (rule quietly_if [OF quietly_Inl]) (intro quietly_arg quietly_bind quietly_print quietly_mac)
  moreover have "quietly s (mac_common_new N p why en offset s)" for en
    unfolding mac_common_new_def Let_def split_beta
    by (rule quietly_if [OF quietly_Inl]) (intro quietly_bind quietly_print quietly_mac)
  moreover have "quietly s (mac_common_old N p why offset s)"
    unfolding mac_common_old_def
  proof (rule quietly_arg, rule quietly_bind [OF quietly_print])
    fix kind t
    have m: "quietly t (if take 8 (macType N) = ''Mac/SMAC'' then format_smac p (length (buffer t)) t
              else format_mac N p (length (buffer t)) t)" by simp
    show "quietly t (if tracetype t = TR_PHY then format_phy (length (buffer t)) t
      else bindE (if take 8 (macType N) = ''Mac/SMAC'' then format_smac p (length (buffer t)) t
              else format_mac N p (length (buffer t)) t) (\<lambda>s2.
       case node_model N (trace_src s2) of
         None \<Rightarrow> Inr s2
       | Some m \<Rightarrow>
           print (length (buffer s2)) ''[energy %f ei %.3f es %.3f et %.3f er %.3f] ''
             [R (energy m), R (ei m), R (es m), R (et m), R (er m)] s2))"
      using quietly_bind [OF m energy] by simp
  qed
  ultimately show ?thesis by (simp add: format_mac_common_def Let_def)
qed

lemma quietly_sctp: "quietly s (format_sctp p offset s)"
proof -
  have "quietly t (format_chunk p offset c t)" for c t
    unfolding format_chunk_def by (rule quietly_arg) simp
  then have "quietly s (format_chunk p offset c t)" if "quiet s t" for c t
    using that quietly_step by blast
  then show ?thesis unfolding format_sctp_def by (intro safe_foldE) auto
qed

lemma quietly_rtp: "quietly s (format_rtp N p offset s)"
proof -
  have "quiet s (s\<lparr>traced := traced s @ [Node_inroute a]\<rparr>)" for a by (simp add: quiet_def)
  then show ?thesis
    unfolding format_rtp_def by (intro quietly_bind quietly_print3) (simp split: option.split)
qed

lemma quietly_eamrp: "quietly s (format_eamrp N p offset s)"
  by (simp add: format_eamrp_def format_eamrp_reply_def split: hdr_all_eamrp.split)

lemma quietly_payload: "quietly s (format_payload N chain p offset s)"
  by (simp add: format_payload_def Let_def format_aodv_def format_aomdv_def quietly_eamrp
      format_tora_def format_imep_def format_dsr_def format_msg_def format_tcp_def format_unknown_def
      quietly_sctp quietly_rtp)

lemma quietly_ip: "quietly s (format_ip N p offset s)"
  unfolding format_ip_def Let_def
  by (intro quietly_if quietly_arg quietly_print)

lemma quiet_nam: "quiet s t \<Longrightarrow> quiet s (t\<lparr>traced := traced t @ [Nam_dumped x]\<rparr>)"
  by (auto simp: quiet_def)

lemma quietly_nam_print [simp]: "quietly s (nam_print fmt args suffix s)"
  by (auto simp: nam_print_def quiet_nam split: option.split)

lemma quietly_recolor: "quietly s (nam_recolor N s)"
proof -
  have "quietly t (Inr (t\<lparr>nodeColor := c\<rparr>))" for t c by (simp add: quiet_def)
  then have "quietly s (bindE (nam_print f a x s) (\<lambda>s1. Inr (s1\<lparr>nodeColor := g s1\<rparr>)))" for f a x g
    by (intro quietly_bind quietly_nam_print)
  then show ?thesis
    by (simp add: nam_recolor_def Let_def split: option.split)
qed

lemma nam_broadcast_quiet: "nam_broadcast N p nh op s = Inr (x, t) \<Longrightarrow> quiet s t"
  by (auto simp: nam_broadcast_def calculate_broadcast_parameters_def Let_def quiet_def
      split: if_splits option.splits)

lemma quietly_nam: "quietly s (nam_format N p s)"
proof -
  have last: "quietly t (bindE (nam_broadcast N p nh op t) (\<lambda>(suffix, u). nam_print fmt args suffix u))"
    for t nh op fmt args
  proof (cases "nam_broadcast N p nh op t")
    case (Inr y)
    obtain x u where y: "y = (x, u)" by (cases y)
    have "quietly u (nam_print fmt args x u)" by simp
    with nam_broadcast_quiet [of N p nh op t x u] Inr y show ?thesis
      by (simp add: quietly_step)
  qed simp
  have first: "quietly s (if b then bindE (nam_print f a [] s) (nam_print f' a []) else Inr s)" for b f f' a
    by (rule quietly_if) (intro quietly_bind quietly_nam_print, simp)
  have rest: "quietly t (bindE (nam_recolor N t) (\<lambda>s2.
                  bindE (nam_broadcast N p nh op s2) (\<lambda>(suffix, s3). nam_print fmt args suffix s3)))"
    for t nh op fmt args
    by (rule quietly_bind [OF quietly_recolor last])
  show ?thesis
  proof (cases "trace_type s = EOT")
    case False
    show ?thesis
      unfolding nam_format_def Let_def if_not_P [OF False]
      by (rule quietly_arg, rule quietly_bind [OF first]) (simp add: rest)
  qed (simp add: nam_format_def)
qed

lemma quietly_format: "quietly s (format N chain p why s)"
  unfolding format_def Let_def
proof (rule quietly_bind [OF quietly_mac_common], rule quietly_bind)
  show "quietly t (if namchannel N then nam_format N p t else Inr t)" for t
    by (simp add: quietly_nam)
  have "quietly t (bindE (format_ip N p o1 t) (\<lambda>s3. format_payload N chain p (length (buffer s3)) s3))" for t o1
    by (rule quietly_bind [OF quietly_ip quietly_payload])
  then show "quietly t (if ch_ptype p = PT_MAC \<or> ch_ptype p = PT_SMAC then Inr t
         else if ch_ptype p = PT_ARP then format_arp N p (length (buffer t)) t
         else bindE (format_ip N p (length (buffer t)) t)
                (\<lambda>s3. format_payload N chain p (length (buffer s3)) s3))" for t
    by (simp add: format_arp_def Let_def)
qed

section \<open>What a line says\<close>

lemma number_chars_eq: "number_chars = set ''-0123456789abcdef''"
proof -
  have "{..<16} = set [0..<16 :: nat]" by auto
  then have "digit ` {..<16} = set (map digit [0..<16])" by (simp only: set_map)
  also have "map digit [0..<16] = ''0123456789abcdef''" by code_simp
  finally show ?thesis by (simp add: number_chars_def)
qed

lemma separators [simp]: "CHR '' '' \<notin> number_chars" "CHR '']'' \<notin> number_chars"
  by (simp_all add: number_chars_eq)

lemma sprintf_dec:
  "sprintf (CHR ''%'' # CHR ''d'' # r) (I w # as) = map_option (\<lambda>u. dec_int (sint w) @ u) (sprintf r as)"
  by (simp add: sprintf_Cons conv_at_def split: option.split)

lemma sprintf_hex:
  "sprintf (CHR ''%'' # CHR ''x'' # r) (I w # as) = map_option (\<lambda>u. digits 16 (unat w) @ u) (sprintf r as)"
  by (simp add: sprintf_Cons conv_at_def pad_def split: option.split)

lemma sprintf_lit: "c \<noteq> CHR ''%'' \<Longrightarrow> sprintf (c # r) args = map_option ((#) c) (sprintf r args)"
  by (simp add: sprintf_Cons)

lemmas sprintf_text = sprintf_dec sprintf_hex sprintf_lit request_args_def eamrp_request_view_def

lemma octet_inj: "(ucast (x :: u8) :: u32) = ucast y \<longleftrightarrow> x = y"
  by transfer simp

lemma sint_inj: "sint x = sint y \<longleftrightarrow> x = y" for x y :: u32
  by (auto intro: signed_word_eqI)

lemma dec_int_eq: "dec_int i = dec_int j \<longleftrightarrow> i = j"
  by (auto dest: dec_int_inj)

lemma buffer_inj: "s\<lparr>buffer := a\<rparr> = s\<lparr>buffer := b\<rparr> \<longleftrightarrow> a = b" for s :: cmu_trace
proof
  assume "s\<lparr>buffer := a\<rparr> = s\<lparr>buffer := b\<rparr>"
  then have "buffer (s\<lparr>buffer := a\<rparr>) = buffer (s\<lparr>buffer := b\<rparr>)" by (rule arg_cong)
  then show "a = b" by simp
qed simp

lemmas read_back = dec_int_sep dec_int_eq sint_inj octet_inj buffer_inj

text \<open>A small configuration to evaluate the formatter on.\<close>

definition sample_sim :: sim where
  "sample_sim = \<lparr>clock = 0, macType = ''Mac/802_11'', get_node_by_address = (\<lambda>_. None), get_nodeaddr = (\<lambda>a. a),
     getLoc = (0, 0, 0), hconst = (\<lambda>_. 1), time_format = (\<lambda>_. ''0''), double_of = (\<lambda>_ _. 0), have_stl = True,
     namchannel = False, Nam_Status = False, findAttrLink = (\<lambda>_ _. None), atof_tcl = (\<lambda>_. 1)\<rparr>"

definition sample_request :: hdr_eamrp_request where
  "sample_request = \<lparr>rq_hop_count = 1, rq_bcast_id = 2, rq_dst = 3, rq_dst_seqno = 0, rq_src = 4, rq_src_seqno = 2,
     rq_timestamp = 0, rq_first_hop = 4\<rparr>"

definition sample_view :: aodv_view where
  "sample_view = \<lparr>a_type = 1,
     a_request = \<lparr>q_hop_count = 0, q_bcast_id = 0, q_dst = 0, q_dst_seqno = 0, q_src = 0, q_src_seqno = 0\<rparr>,
     a_reply = \<lparr>r_hop_count = 0, r_dst = 0, r_dst_seqno = 0, r_lifetime = 0, r_bcast_id = 0, r_first_hop = 0\<rparr>\<rparr>"

definition sample_packet :: trace_packet where
  "sample_packet = packet.extend packet_alloc
     (trace_packet.fields 0 0 0 0 0 0 0 0 0 0 0 0 \<lparr>arp_op = 0, arp_sha = 0, arp_spa = 0, arp_tha = 0, arp_tpa = 0\<rparr>
       \<lparr>num_addrs = 0, route_request = 0, rtreq_seq = 0, route_reply = 0, route_reply_len = 0,
        reply_addrs = (\<lambda>_. 0), route_error = 0, num_route_errors = 0, tell_addr = (\<lambda>_. 0), from_addr = (\<lambda>_. 0),
        to_addr = (\<lambda>_. 0)\<rparr> 0 0 [] 0 0 0
       \<lparr>th_type = 0, t_dst = 0, t_tau = 0, t_oid = 0, t_r = 0, t_delta = 0, t_id = 0\<rparr>
       sample_view sample_view False 0 0)"

definition sample_trace :: cmu_trace where
  "sample_trace = \<lparr>trace_type = SEND, trace_src = 0, tracename = ''AGT'', tracetype = TR_AGENT, trace_node = True,
     newtrace = 0, trace_target = True, tagged = False, buffer = [], nodeColor = (\<lambda>_. 3), bradius = 0,
     radius_scaling_factor = 0, duration_scaling_factor = 0, traced = []\<rparr>"

text \<open>
  C40. A route request always gives a line, in each of the three formats, and two requests give
  the same line exactly when they agree on the hop count, the broadcast identifier, and both
  addresses and both sequence numbers: the trace can be read back.
\<close>

theorem request_line_faithful:
  assumes "hdr p = Rreq q" and "hdr p' = Rreq q'"
  shows "(\<exists>t. format_eamrp N p offset s = Inr t)
    \<and> (format_eamrp N p offset s = format_eamrp N p' offset s \<longleftrightarrow>
         rq_hop_count q = rq_hop_count q' \<and> rq_bcast_id q = rq_bcast_id q' \<and> rq_dst q = rq_dst q'
         \<and> rq_dst_seqno q = rq_dst_seqno q' \<and> rq_src q = rq_src q' \<and> rq_src_seqno q = rq_src_seqno q')"
  using assms
  by (cases "tagged s"; cases "newtrace s = 0")
    (simp_all add: format_eamrp_def print3_def print_def sprintf_text read_back)

lemma request_line_faithful_witness:
  "format_eamrp sample_sim (sample_packet\<lparr>hdr := Rreq sample_request\<rparr>) 0 sample_trace
     \<noteq> format_eamrp sample_sim (sample_packet\<lparr>hdr := Rreq (sample_request\<lparr>rq_src_seqno := 5\<rparr>)\<rparr>) 0 sample_trace"
  using request_line_faithful [of "sample_packet\<lparr>hdr := Rreq sample_request\<rparr>" sample_request
      "sample_packet\<lparr>hdr := Rreq (sample_request\<lparr>rq_src_seqno := 5\<rparr>)\<rparr>" "sample_request\<lparr>rq_src_seqno := 5\<rparr>"
      sample_sim 0 sample_trace]
  by (simp add: sample_request_def)

section \<open>What becomes of a packet\<close>

text \<open>
  C39. A tracer in the path of packets treats each packet once. If its node has energy left the
  packet is stamped when an agent sends it, exactly one line is dumped, the one in the buffer,
  and after it the packet is either sent on or, without a target, freed; in between there is
  only animation output and the change of an energy model. With no energy left the packet is
  freed and nothing is printed.
\<close>

theorem traced_packet_leaves_once:
  assumes "trace_recv N chain p s = Inr t"
  shows "if node_energy N s
     then \<exists>es. list_all internal es \<and>
       traced t = traced s @ (if tracetype s = TR_AGENT \<and> trace_type s = SEND then [Stamped p] else []) @ es
         @ [Dumped (buffer t), if trace_target s then Trace_sent p else Trace_freed p]
     else t = s\<lparr>traced := traced s @ [Trace_freed p]\<rparr>"
proof (cases "node_energy N s")
  case True
  define u where "u = (if tracetype s = TR_AGENT \<and> trace_type s = SEND then trace_emit (Stamped p) s else s)"
  obtain v where v: "format N chain p ''---'' u = Inr v"
    and t: "t = trace_emit (if trace_target (dump v) then Trace_sent p else Trace_freed p) (dump v)"
    using assms True by (auto simp: trace_recv_def u_def Let_def bindE_def split: sum.splits if_splits)
  from quietly_format [of u N chain p "''---''"] v have "quiet u v" by simp
  with True t show ?thesis by (auto simp: quiet_def u_def trace_emit_def dump_def)
next
  case False
  with assms show ?thesis by (simp add: trace_recv_def trace_emit_def)
qed

lemma sample_name: "type_name sample_sim 0 = Inr ''tcp''"
  by (simp add: type_name_def sample_sim_def) code_simp

lemma sample_is_traced: "\<exists>t. trace_recv sample_sim [] sample_packet sample_trace = Inr t"
  using sample_name
  by (simp add: trace_recv_def node_energy_def node_model_def sample_sim_def sample_trace_def sample_packet_def
      packet.defs trace_packet.defs packet_alloc_def packet_init_def Let_def format_def format_mac_common_def
      mac_common_old_def frame_kind_def trace_op_def print_def
      sprintf_Cons conv_at_def c_arg_def i32_def format_mac_def print_ether_type_def format_ip_def
      format_payload_def format_tcp_def print3_def trace_emit_def dump_def)

lemma traced_packet_leaves_once_witness:
  "\<exists>t. trace_recv sample_sim [] sample_packet sample_trace = Inr t \<and>
     hd (traced t) = Stamped sample_packet \<and> last (traced t) = Trace_sent sample_packet"
proof -
  obtain t where t: "trace_recv sample_sim [] sample_packet sample_trace = Inr t"
    using sample_is_traced by blast
  have "node_energy sample_sim sample_trace"
    by (simp add: node_energy_def node_model_def sample_sim_def sample_trace_def)
  with traced_packet_leaves_once [OF t] t show ?thesis by (auto simp: sample_trace_def)
qed

section \<open>Only the last chunk of an SCTP packet\<close>

text \<open>Every chunk is printed at the same offset, so the line of a packet is that of its last chunk.\<close>

lemma print_again: "print offset f a s = Inr t \<Longrightarrow> offset \<le> length (buffer s) \<Longrightarrow> print offset g b t = print offset g b s"
  by (auto simp: print_def split: option.splits)

lemma chunk_again:
  assumes "format_chunk p offset c s = Inr t" and "offset \<le> length (buffer s)"
  shows "format_chunk p offset d t = format_chunk p offset d s"
    and "offset \<le> length (buffer t)"
proof -
  obtain k where "chunk_char (eType c) = Inr k" using assms(1) by (cases "chunk_char (eType c)") (auto simp: format_chunk_def)
  then obtain f a where p: "print offset f a s = Inr t" using assms(1) by (auto simp: format_chunk_def)
  then have "newtrace t = newtrace s" "offset \<le> length (buffer t)"
    using assms(2) by (auto simp: print_def split: option.splits)
  with print_again [OF p assms(2)]
  show "format_chunk p offset d t = format_chunk p offset d s" "offset \<le> length (buffer t)"
    by (simp_all add: format_chunk_def)
qed

lemma chunks_overwritten:
  "foldE (format_chunk p offset) (cs @ [c]) s = Inr t \<Longrightarrow> offset \<le> length (buffer s) \<Longrightarrow>
     format_chunk p offset c s = Inr t"
proof (induction cs arbitrary: s)
  case Nil
  then show ?case by (cases "format_chunk p offset c s") simp_all
next
  case (Cons d cs)
  then obtain u where u: "format_chunk p offset d s = Inr u" "foldE (format_chunk p offset) (cs @ [c]) u = Inr t"
    by (cases "format_chunk p offset d s") auto
  from Cons.IH [OF u(2)] chunk_again [OF u(1) Cons.prems(2)] show ?case by simp
qed

end
