(* ===== verification/Discovery.thy ===== *)
theory Discovery
  imports RouteSteps
begin

text \<open>
  Route discovery from end to end: a request that is handed along a line of nodes which have not
  seen it leads to a reply that travels back along the line, after which every node of the line
  has routes to both ends; and data then follows these routes. The line is any number of nodes
  short of the TTL.
\<close>

section \<open>A line of nodes\<close>

text \<open>
  A packet handed along a line: every node receives what the one before it has handed on, if it
  is broadcast or addressed to it at the link layer. The result is the last packet handed on and
  what the nodes have become.
\<close>

definition reaches :: "packet \<Rightarrow> eamrp \<Rightarrow> bool" where
  "reaches p s \<longleftrightarrow> ih_daddr p = IP_BROADCAST \<or> ch_next_hop p = index s"

fun pass_along :: "packet option \<Rightarrow> (ns2 \<times> eamrp) list \<Rightarrow> (packet option \<times> eamrp list) option" where
  "pass_along p [] = Some (p, [])"
| "pass_along None (x # line) = None"
| "pass_along (Some p) ((E, s) # line) =
     (if reaches p s
      then (case recv E p s of
              Inl f \<Rightarrow> None
            | Inr t \<Rightarrow> map_option (apsnd ((#) t)) (pass_along (handed_on s t) line))
      else None)"

text \<open>Each node of the list has a route to \<open>c\<close> through the node before it, the first one through \<open>nb\<close>.\<close>

fun routed :: "nsaddr \<Rightarrow> nsaddr \<Rightarrow> eamrp list \<Rightarrow> bool" where
  "routed c nb [] \<longleftrightarrow> True"
| "routed c nb (s # ss) \<longleftrightarrow> route_via c nb s \<and> routed c (index s) ss"

lemma pass_along_append:
  "pass_along p (xs @ ys) = Option.bind (pass_along p xs) (\<lambda>(q, ss). map_option (apsnd ((@) ss)) (pass_along q ys))"
  by (induction p xs rule: pass_along.induct)
    (auto simp: map_option_case apsnd_def map_prod_def split: sum.split option.splits bind_splits)

lemma routed_append [simp]:
  "routed c nb (xs @ ys) \<longleftrightarrow> routed c nb xs \<and> routed c (last (nb # map index xs)) ys"
  by (induction c nb xs rule: routed.induct) auto

text \<open>The same node later, with the same route to \<open>c\<close>.\<close>

definition same_node :: "nsaddr \<Rightarrow> eamrp \<Rightarrow> eamrp \<Rightarrow> bool" where
  "same_node c s t \<longleftrightarrow> index t = index s \<and> route_of c t = route_of c s \<and> node_inv t \<and> here_addr t = index t"

lemma routed_cong:
  assumes "list_all2 (same_node c) ss ts"
  shows "routed c nb ts = routed c nb ss"
  using assms by (induction ss ts arbitrary: nb rule: list_all2_induct) (simp_all add: route_via_def same_node_def)

lemma same_indices:
  assumes "list_all2 (same_node c) ss ts"
  shows "map index ts = map index ss" "\<forall>t\<in>set ts. node_inv t \<and> here_addr t = index t"
  using assms by (induction rule: list_all2_induct) (auto simp: same_node_def)

section \<open>The request travels out\<close>

text \<open>What a node keeps from the request until the reply comes.\<close>

definition awaiting :: "nsaddr \<Rightarrow> u32 \<Rightarrow> nsaddr \<Rightarrow> eamrp \<Rightarrow> bool" where
  "awaiting a b d t \<longleftrightarrow> node_inv t \<and> here_addr t = index t \<and> index t \<noteq> a \<and> index t \<noteq> d \<and> no_route d t
     \<and> (\<exists>i. id_get (a, b) (bihead t) = Some i \<and> bi_count i = 0)"

text \<open>A node the request can pass: it has not seen it and has no route to the destination.\<close>

definition open_to :: "nsaddr \<Rightarrow> u32 \<Rightarrow> nsaddr \<Rightarrow> u32 \<Rightarrow> eamrp \<Rightarrow> bool" where
  "open_to a b d sq s \<longleftrightarrow> unaware a b sq s \<and> no_route d s \<and> index s \<noteq> d"

lemma request_travels:
  assumes "carries_request a b d sq w prev ttl p" and "int (length line) < ttl"
    and "\<forall>(E, s)\<in>set line. env_ok E \<and> open_to a b d sq s" and "d \<noteq> a"
  shows "\<exists>q ss w'. pass_along (Some p) line = Some (Some q, ss)
    \<and> carries_request a b d sq w' (last (prev # map index ss)) (ttl - int (length line)) q
    \<and> map index ss = map (index \<circ> snd) line \<and> routed a prev ss \<and> (\<forall>t\<in>set ss. awaiting a b d t \<and> known_seqno d t \<le> w')
    \<and> w \<le> w' \<and> w' \<in> insert w (known_seqno d ` snd ` set line)"
  using assms
proof (induction line arbitrary: p w prev ttl)
  case Nil
  then show ?case by auto
next
  case (Cons x line)
  obtain E s where x: "x = (E, s)" by (cases x)
  have s: "env_ok E" "unaware a b sq s" "no_route d s" "index s \<noteq> d" using Cons.prems(3) by (auto simp: x open_to_def)
  let ?w = "max (known_seqno d s) w"
  obtain t q where t: "recv E p s = Inr t" "waiting a b sq prev s t" "handed_on s t = Some q"
    "carries_request a b d sq ?w (index s) (ttl - 1) q"
    using request_passes [OF Cons.prems(1) _ s(1,2,3,4) Cons.prems(4)] Cons.prems(2) by fastforce
  have rest: "int (length line) < ttl - 1" "\<forall>(E, s)\<in>set line. env_ok E \<and> open_to a b d sq s"
    using Cons.prems(2,3) by auto
  have d: "route_of d t = route_of d s" using t(2) Cons.prems(4) by (simp add: waiting_def)
  obtain q' ss w' where IH: "pass_along (Some q) line = Some (Some q', ss)"
    "carries_request a b d sq w' (last (index s # map index ss)) (ttl - 1 - int (length line)) q'"
    "map index ss = map (index \<circ> snd) line" "routed a (index s) ss" "\<forall>t\<in>set ss. awaiting a b d t \<and> known_seqno d t \<le> w'"
    "?w \<le> w'" "w' \<in> insert ?w (known_seqno d ` snd ` set line)"
    using Cons.IH [OF t(4) rest Cons.prems(4)] by blast
  have "reaches p s" using Cons.prems(1) by (simp add: carries_request_def reaches_def)
  moreover have "awaiting a b d t" using t(2) s d by (simp add: waiting_def awaiting_def no_route_def unaware_def)
  moreover have "route_via a prev t" "index t = index s" using t(2) by (auto simp: waiting_def route_via_def)
  moreover have "w' \<in> insert w (known_seqno d ` snd ` set (x # line))" using IH(7) by (auto simp: x max_def)
  ultimately show ?case using t(1,3) IH d
    by (intro exI [of _ q'] exI [of _ "t # ss"] exI [of _ w']) (auto simp: x known_seqno_def algebra_simps)
qed

section \<open>The reply travels back\<close>

text \<open>Where the reply goes next: the line is now read from the destination to the source.\<close>

definition next_back :: "nsaddr \<Rightarrow> eamrp list \<Rightarrow> nsaddr" where
  "next_back a ss = (case ss of [] \<Rightarrow> a | s # _ \<Rightarrow> index s)"

lemma last_index_rev: "last (a # map index ss) = next_back a (rev ss)"
  by (cases ss rule: rev_cases) (simp_all add: next_back_def)

lemma reply_travels:
  assumes "carries_reply a b d n prev (next_back a ss) ttl p" and "int (length ss) < ttl"
    and "\<forall>E\<in>set Es. env_ok E" and "length Es = length ss"
    and "\<forall>s\<in>set ss. awaiting a b d s \<and> known_seqno d s < n" and "routed a a (rev ss)" and "a \<noteq> d"
  shows "\<exists>q ts. pass_along (Some p) (zip Es ss) = Some (Some q, ts)
    \<and> carries_reply a b d n (last (prev # map index ss)) a (ttl - int (length ss)) q
    \<and> routed d prev ts \<and> list_all2 (same_node a) ss ts"
  using assms
proof (induction ss arbitrary: p prev ttl Es)
  case Nil
  then show ?case by (auto simp: next_back_def)
next
  case (Cons s ss)
  obtain E Es' where E: "Es = E # Es'" using Cons.prems(4) by (cases Es) auto
  have s: "node_inv s" "here_addr s = index s" "index s \<noteq> a" "index s \<noteq> d" "known_seqno d s < n"
    using Cons.prems(5) by (auto simp: awaiting_def)
  obtain i where i: "id_get (a, b) (bihead s) = Some i" "bi_count i = 0" using Cons.prems(5) by (auto simp: awaiting_def)
  obtain m where m: "route_of a s = Some (RTF_UP, m, [next_back a ss])"
    using Cons.prems(6) last_index_rev [of a "rev ss"] by (auto simp: route_via_def)
  obtain t q where t: "recv E p s = Inr t" "route_of d t = Some (RTF_UP, n, [prev])" "\<forall>c. c \<noteq> d \<longrightarrow> route_of c t = route_of c s"
    "index t = index s" "node_inv t" "here_addr t = index t"
    "handed_on s t = Some q" "carries_reply a b d n (index s) (next_back a ss) (ttl - 1) q"
    using reply_passes [OF Cons.prems(1) _ _ s(1-4) Cons.prems(7) s(5) m i, of E] Cons.prems(2,3) by (auto simp: E)
  have rest: "int (length ss) < ttl - 1" "\<forall>E\<in>set Es'. env_ok E" "length Es' = length ss"
    "\<forall>s\<in>set ss. awaiting a b d s \<and> known_seqno d s < n" "routed a a (rev ss)"
    using Cons.prems by (auto simp: E)
  obtain q' ts where IH: "pass_along (Some q) (zip Es' ss) = Some (Some q', ts)"
    "carries_reply a b d n (last (index s # map index ss)) a (ttl - 1 - int (length ss)) q'"
    "routed d (index s) ts" "list_all2 (same_node a) ss ts"
    using Cons.IH [OF t(8) rest Cons.prems(7)] by blast
  have "reaches p s" using Cons.prems(1) by (auto simp: carries_reply_def reaches_def next_back_def)
  moreover have "same_node a s t" using t(3-6) Cons.prems(7) by (simp add: same_node_def)
  ultimately show ?case using t(1-7) IH Cons.prems(7)
    by (intro exI [of _ q'] exI [of _ "t # ts"]) (auto simp: E route_via_def algebra_simps)
qed

section \<open>The discovery\<close>

text \<open>The number stored with a route that is down is odd or zero, so the reply's is newer.\<close>

lemma no_route_seqno:
  assumes "node_inv s" and "no_route d s" and "known_seqno d s \<le> n" and "even n" and "n \<noteq> 0"
  shows "known_seqno d s < n"
proof (cases "rt_lookup d (rtable s)")
  case None
  with assms(5) show ?thesis by (simp add: known_seqno_def route_of_def word_gt_0)
next
  case (Some rt)
  have "rt_flags rt \<noteq> RTF_UP" using assms(2) Some by (auto simp: no_route_def route_of_def outline_def)
  then have "odd_or_zero (rt_seqno rt)" using entry_okD(9) table_entry(1) [OF node_invD(3) [OF assms(1)] Some] by blast
  moreover have "known_seqno d s = rt_seqno rt" using Some by (simp add: known_seqno_def route_of_def outline_def)
  ultimately show ?thesis using assms(3,4,5) by (auto simp: odd_or_zero_def le_less)
qed

lemma reply_newer:
  assumes "node_inv t" and own: "seqno t \<noteq> 0" "seqno t \<le> 0xfffffffc" and "w \<le> 0xfffffffc"
    and "node_inv s" "no_route d s" "known_seqno d s \<le> w"
  shows "known_seqno d s < reply_seqno (seqno t) w"
proof -
  have n: "even (reply_seqno (seqno t) w)" "seqno t \<le> reply_seqno (seqno t) w" "w \<le> reply_seqno (seqno t) w"
    using reply_seqno_ge [OF node_invD(1) own(2)] assms(1,4) by auto
  then have "reply_seqno (seqno t) w \<noteq> 0" using own(1) by auto
  with n assms(5-7) show ?thesis by (intro no_route_seqno) auto
qed

text \<open>The source's request.\<close>

lemma request_starts:
  assumes inv: "node_inv s" and rt: "rt_lookup d (rtable s) = Some rt"
    and down: "rt_flags rt \<noteq> RTF_UP" and idle: "rt_req_timeout rt \<le> now E" and cnt: "rt_req_cnt rt \<le> RREQ_RETRIES"
  shows "\<exists>s1 p. sendRequest E d s = Inr s1 \<and> handed_on s s1 = Some p \<and> node_inv s1 \<and> index s1 = index s \<and> here_addr s1 = here_addr s
    \<and> (\<forall>c. route_of c s1 = route_of c s)
    \<and> carries_request (index s) (of_int (bid s)) d (seqno s + 2) (known_seqno d s) (index s) (fst (ring_ttl rt)) p"
proof -
  note e = table_entry [OF node_invD(3) [OF inv] rt]
  obtain ttl rt1 where r: "ring_ttl rt = (ttl, rt1)" by (cases "ring_ttl rt")
  note r1 = ring_ttl_entry [OF e(1) r]
  let ?rt2 = "rt1\<lparr>rt_req_timeout := req_timeout E ttl rt1, rt_expire := 0\<rparr>"
  let ?p = "rreq_packet E d ?rt2 ttl s"
  define s1 where "s1 = emit (Scheduled ?p 0) (s\<lparr>rtable := rt_put ?rt2 (rtable s), bid := bid s + 1, seqno := seqno s + 2\<rparr>)"
  have send: "sendRequest E d s = Inr s1"
    using rt down idle not_less [THEN iffD2, OF cnt] r node_invD(1) [OF inv]
    by (simp add: sendRequest_def Let_def s1_def)
  have "outline ?rt2 = outline rt" using ring_ttl_paths [OF r] r1(3,4) by (simp add: outline_def)
  then have routes: "route_of c s1 = route_of c s" for c
    using route_of_put_same [OF rt, of ?rt2 c] r1(2) e(2) by (simp add: s1_def route_of_def)
  have p: "carries_request (index s) (of_int (bid s)) d (seqno s + 2) (known_seqno d s) (index s) ttl ?p"
    using rreq_packet_wf [OF node_invD(1,2) [OF inv] e(3)] r1(4) rt
    by (simp add: carries_request_def rreq_packet_def Let_def known_seqno_def route_of_def outline_def)
  have "node_inv s1" using sendRequest_ok [OF inv rt, of E] send by simp
  moreover have "handed_on s s1 = Some ?p"
    unfolding s1_def by (rule handed_on_last [where es = "[]"]) simp
  ultimately show ?thesis using send routes p r by (intro exI [of _ s1] exI [of _ ?p]) (simp add: s1_def)
qed

text \<open>A request on its way to \<open>d\<close>, up to the reply.\<close>

lemma request_arrives:
  assumes p: "carries_request a b d sq w a ttl p" "int (length line) < ttl" "d \<noteq> a"
    and line: "\<forall>(E, s)\<in>set line. env_ok E \<and> open_to a b d sq s"
    and t: "unaware a b sq t" "index t = d" and E: "env_ok E"
  shows "\<exists>r ss t' w'. pass_along (Some p) (line @ [(E, t)]) = Some (Some r, ss @ [t'])
    \<and> map index ss = map (index \<circ> snd) line \<and> index t' = d \<and> routed a a (ss @ [t'])
    \<and> (\<forall>x\<in>set ss. awaiting a b d x \<and> known_seqno d x \<le> w')
    \<and> w \<le> w' \<and> w' \<in> insert w (known_seqno d ` snd ` set line)
    \<and> carries_reply a b d (reply_seqno (seqno t) w') d (next_back a (rev ss)) 30 r"
proof -
  obtain q ss w' where q: "pass_along (Some p) line = Some (Some q, ss)"
    "carries_request a b d sq w' (last (a # map index ss)) (ttl - int (length line)) q"
    "map index ss = map (index \<circ> snd) line" "routed a a ss" "\<forall>x\<in>set ss. awaiting a b d x \<and> known_seqno d x \<le> w'"
    "w \<le> w'" "w' \<in> insert w (known_seqno d ` snd ` set line)"
    using request_travels [OF p(1,2) line p(3)] by blast
  obtain t' r where t': "recv E q t = Inr t'" "index t' = d" "route_of a t' = Some (RTF_UP, sq, [last (a # map index ss)])"
    "handed_on t t' = Some r"
    "carries_reply a b d (reply_seqno (seqno t) w') d (last (a # map index ss)) 30 r"
    using request_answered [OF q(2) E t] by blast
  have "reaches q t" using q(2) by (simp add: carries_request_def reaches_def)
  then have "pass_along (Some p) (line @ [(E, t)]) = Some (Some r, ss @ [t'])"
    using q(1) t'(1,4) by (simp add: pass_along_append)
  moreover have "routed a a (ss @ [t'])" using q(4) t'(3) by (simp add: route_via_def)
  ultimately show ?thesis using q(3,5-7) t'(2,5) unfolding last_index_rev [of a ss] by blast
qed

text \<open>The reply on its way back to \<open>a\<close>.\<close>

lemma reply_returns:
  assumes r: "carries_reply a b d n d (next_back a (rev ss)) 30 r" and len: "length ss < 30" and ne: "a \<noteq> d"
    and E: "\<forall>E\<in>set Es. env_ok E" "length Es = length ss" "env_ok E2"
    and ss: "\<forall>x\<in>set ss. awaiting a b d x \<and> known_seqno d x < n" "routed a a (ss @ [t'])"
    and s: "node_inv s1" "index s1 = a" "here_addr s1 = a" "known_seqno d s1 < n"
  shows "\<exists>q ts s'. pass_along (Some r) (zip Es (rev ss) @ [(E2, s1)]) = Some (q, ts @ [s'])
    \<and> map index (s' # rev ts) = a # map index ss \<and> routed d d (ts @ [s']) \<and> routed a a (rev ts @ [t'])
    \<and> (\<forall>x\<in>set (s' # ts). node_inv x \<and> here_addr x = index x)"
proof -
  obtain q ts where nb: "pass_along (Some r) (zip Es (rev ss)) = Some (Some q, ts)"
    "carries_reply a b d n (last (d # map index (rev ss))) a (30 - int (length (rev ss))) q" "routed d d ts"
    "list_all2 (same_node a) (rev ss) ts"
    using reply_travels [of a b d n d "rev ss" 30 r Es] r len E(1,2) ss ne by auto
  have same: "list_all2 (same_node a) ss (rev ts)" using nb(4) list_all2_rev [of _ "rev ss" ts] by simp
  have idx: "map index ts = map index (rev ss)" "map index (rev ts) = map index ss"
    using same_indices(1) [OF nb(4)] same_indices(1) [OF same] by simp_all
  obtain s' where s': "recv E2 q s1 = Inr s'" "route_of d s' = Some (RTF_UP, n, [last (d # map index (rev ss))])"
    "node_inv s'" "index s' = a" "here_addr s' = a"
    using reply_arrives [OF nb(2) E(3) s(1,2) ne s(4)] s(3) by auto
  have "reaches q s1" using nb(2) s(2) by (simp add: carries_reply_def reaches_def)
  then have "pass_along (Some r) (zip Es (rev ss) @ [(E2, s1)]) = Some (handed_on s1 s', ts @ [s'])"
    using nb(1) s'(1) by (simp add: pass_along_append)
  moreover have "routed a a (rev ts @ [t'])" using routed_cong [OF same] ss(2) idx(2) by simp
  moreover have "routed d d (ts @ [s'])" using nb(3) s'(2) idx(1) by (simp add: route_via_def)
  moreover have "\<forall>x\<in>set (s' # ts). node_inv x \<and> here_addr x = index x"
    using same_indices(2) [OF nb(4)] s'(3-5) by auto
  moreover have "map index (s' # rev ts) = a # map index ss" using idx(2) s'(4) by simp
  ultimately show ?thesis by metis
qed

lemma ring_ttl_le: "fst (ring_ttl rt) \<le> 30"
  by (simp add: ring_ttl_def Let_def TTL_START_def TTL_INCREMENT_def TTL_THRESHOLD_def NETWORK_DIAMETER_def)

text \<open>
  C9. Route discovery works on a line of nodes. A node \<open>s\<close> that searches for \<open>d\<close> broadcasts a
  request; let it reach, one after the other, nodes that have not seen it and have no route to
  \<open>d\<close>, fewer than its TTL, and then \<open>d\<close> itself. Then each of them hands it on, \<open>d\<close> answers, the
  answer finds its way back through the same nodes to \<open>s\<close>, no handler faults, and afterwards
  every node of the line has a route to \<open>d\<close> whose only next hop is its successor and a route to
  \<open>s\<close> whose only next hop is its predecessor.
\<close>

theorem route_discovery:
  assumes s: "node_inv s" "index s = a \<and> here_addr s = a" "a \<noteq> d" "rt_lookup d (rtable s) = Some rt" "rt_flags rt \<noteq> RTF_UP"
      "rt_req_timeout rt \<le> now E" "rt_req_cnt rt \<le> RREQ_RETRIES" "int (length line) < fst (ring_ttl rt)"
    and line: "\<forall>(E', x)\<in>set line. env_ok E' \<and> open_to a (of_int (bid s)) d (seqno s + 2) x"
    and small: "\<forall>x\<in>insert s (snd ` set line). known_seqno d x \<le> 0xfffffffc"
    and t: "unaware a (of_int (bid s)) (seqno s + 2) t" "index t = d" "seqno t \<noteq> 0" "seqno t \<le> 0xfffffffc"
    and envs: "env_ok E1" "env_ok E2" "\<forall>E'\<in>set Es. env_ok E'" "length Es = length line"
  shows "\<exists>s1 p ss t' q ts s'. sendRequest E d s = Inr s1
    \<and> pass_along (handed_on s s1) (line @ [(E1, t)]) = Some (p, ss @ [t'])
    \<and> pass_along p (zip Es (rev ss) @ [(E2, s1)]) = Some (q, ts @ [s'])
    \<and> map index (s' # rev ts @ [t']) = a # map (index \<circ> snd) line @ [d]
    \<and> routed d d (ts @ [s']) \<and> routed a a (rev ts @ [t'])
    \<and> (\<forall>x\<in>set (s' # ts). node_inv x \<and> here_addr x = index x)"
proof -
  let ?b = "of_int (bid s)" and ?sq = "seqno s + 2"
  obtain s1 p0 where s1: "sendRequest E d s = Inr s1" "handed_on s s1 = Some p0" "node_inv s1" "index s1 = a" "here_addr s1 = a"
    "\<forall>c. route_of c s1 = route_of c s" "carries_request a ?b d ?sq (known_seqno d s) a (fst (ring_ttl rt)) p0"
    using request_starts [OF s(1,4-7)] s(2) by auto
  obtain r ss t' w' where out: "pass_along (Some p0) (line @ [(E1, t)]) = Some (Some r, ss @ [t'])"
    "map index ss = map (index \<circ> snd) line" "index t' = d" "routed a a (ss @ [t'])"
    "\<forall>x\<in>set ss. awaiting a ?b d x \<and> known_seqno d x \<le> w'"
    "known_seqno d s \<le> w'" "w' \<in> insert (known_seqno d s) (known_seqno d ` snd ` set line)"
    "carries_reply a ?b d (reply_seqno (seqno t) w') d (next_back a (rev ss)) 30 r"
    using request_arrives [OF s1(7) s(8) s(3) [symmetric] line t(1,2) envs(1)] by blast
  have len: "length ss = length line" using out(2) by (metis length_map)
  have "w' \<le> 0xfffffffc" using out(7) small by auto
  note newer = reply_newer [OF _ t(3,4) this]
  have "no_route d s1" using s(4,5) s1(6) by (auto simp: no_route_def route_of_def outline_def)
  moreover have "known_seqno d s1 \<le> w'" using out(6) s1(6) by (simp add: known_seqno_def)
  ultimately have known: "known_seqno d s1 < reply_seqno (seqno t) w'" using newer t(1) s1(3) by (simp add: unaware_def)
  have "\<forall>x\<in>set ss. awaiting a ?b d x \<and> known_seqno d x < reply_seqno (seqno t) w'"
    using out(5) newer t(1) by (simp add: awaiting_def unaware_def)
  moreover have "length ss < 30" using ring_ttl_le [of rt] s(8) len by simp
  ultimately obtain q ts s' where "pass_along (Some r) (zip Es (rev ss) @ [(E2, s1)]) = Some (q, ts @ [s'])"
    "map index (s' # rev ts) = a # map index ss" "routed d d (ts @ [s'])" "routed a a (rev ts @ [t'])"
    "\<forall>x\<in>set (s' # ts). node_inv x \<and> here_addr x = index x"
    using reply_returns [OF out(8) _ s(3) envs(3) _ envs(2) _ out(4) s1(3-5) known] envs(4) len by metis
  moreover have "map index (s' # rev ts @ [t']) = a # map (index \<circ> snd) line @ [d]"
    using calculation(2) out(2,3) by simp
  ultimately show ?thesis using s1(1,2) out(1) by metis
qed

theorem route_discovery_witness:
  "\<exists>s1 p ss t' q ts s'. sendRequest (demo_env 2) 6 searching_node = Inr s1
    \<and> pass_along (handed_on searching_node s1) ([(demo_env 2, connected_node 7)] @ [(demo_env 3, connected_node 6)])
        = Some (p, ss @ [t'])
    \<and> pass_along p (zip [demo_env 3] (rev ss) @ [(demo_env 4, s1)]) = Some (q, ts @ [s'])
    \<and> map index (s' # rev ts @ [t']) = 9 # map (index \<circ> snd) [(demo_env 2, connected_node 7)] @ [6]
    \<and> routed 6 6 (ts @ [s']) \<and> routed 9 9 (rev ts @ [t'])
    \<and> (\<forall>x\<in>set (s' # ts). node_inv x \<and> here_addr x = index x)"
proof (rule route_discovery [OF searching_node_inv, of 9 6 "(new_rt_entry 0)\<lparr>rt_dst := 6\<rparr>"])
  have sel: "index searching_node = 9" "seqno searching_node = 2" "index (connected_node c) = c"
    "here_addr (connected_node c) = c" "bihead (connected_node c) = []" "rtable (connected_node c) = []"
    "seqno (connected_node c) = 2" for c
    by (simp_all add: searching_node_def demo_node_def connected_node_def EAMRP_new_def)
  have unaware: "unaware 9 b (seqno searching_node + 2) (connected_node c)" if "c \<noteq> 9" "c \<noteq> IP_BROADCAST" for b c
    using that connected_node_inv by (simp add: unaware_def sel known_seqno_def route_of_def)
  show "\<forall>(E', x)\<in>set [(demo_env 2, connected_node 7)].
      env_ok E' \<and> open_to 9 (of_int (bid searching_node)) 6 (seqno searching_node + 2) x"
    using unaware [of 7] by (simp add: open_to_def no_route_def route_of_def sel IP_BROADCAST_def)
  show "\<forall>x\<in>insert searching_node (snd ` set [(demo_env 2, connected_node 7)]). known_seqno 6 x \<le> 0xfffffffc"
    by (simp add: known_seqno_def route_of_def sel outline_def new_rt_entry_def)
  show "unaware 9 (of_int (bid searching_node)) (seqno searching_node + 2) (connected_node 6)"
    by (rule unaware) (simp_all add: IP_BROADCAST_def)
  show "int (length [(demo_env 2, connected_node 7)]) < fst (ring_ttl ((new_rt_entry 0)\<lparr>rt_dst := 6\<rparr>))"
    by (simp add: ring_ttl_def new_rt_entry_def INFINITY2_def TTL_THRESHOLD_def NETWORK_DIAMETER_def)
qed (simp_all add: searching_node_def demo_node_def connected_node_def EAMRP_new_def RREQ_RETRIES_def)

section \<open>Data follows the routes\<close>

text \<open>
  The packet a node works on: the one it originates gets the full TTL, one that is passing
  through loses one.
\<close>

definition data_ttl :: "packet \<Rightarrow> eamrp \<Rightarrow> int" where
  "data_ttl p s = (if ih_saddr p = index s then NETWORK_DIAMETER else ih_ttl p - 1)"

lemma data_hop:
  assumes s: "node_inv s" "here_addr s = index s" "index s \<noteq> d" "route_via d nb s"
    and p: "ch_ptype p \<noteq> PT_EAMRP" "ih_daddr p = d" "ih_saddr p = index s \<Longrightarrow> ch_num_forwards p = 0" "data_ttl p s \<noteq> 0"
  shows "\<exists>t q. recv E p s = Inr t \<and> handed_on s t = Some q \<and> content q = content p
    \<and> ih_ttl q = data_ttl p s \<and> ch_next_hop q = nb"
proof -
  obtain n where n: "route_of d s = Some (RTF_UP, n, [nb])" using s(4) by (auto simp: route_via_def)
  then obtain rt where rt: "rt_lookup d (rtable s) = Some rt" "rt_flags rt = RTF_UP"
    by (auto simp: route_of_def outline_def)
  note e = table_entry [OF node_invD(3) [OF s(1)] rt(1)]
  define p1 where "p1 = (if ih_saddr p = index s
      then p\<lparr>ch_size := ch_size p + IP_HDR_LEN E, ch_eamrp_salvage_count := 0, ih_ttl := NETWORK_DIAMETER\<rparr>
      else p\<lparr>ih_ttl := ih_ttl p - 1\<rparr>)"
  define p2 where "p2 = p1\<lparr>ch_xmit_failure := Some Eamrp_rt_failed_callback\<rparr>"
  have p2: "ih_daddr p2 = d" "ih_ttl p2 = data_ttl p s" "content p2 = content p"
    using p(2) by (simp_all add: p2_def p1_def data_ttl_def)
  have "recv E p s = rt_resolve E p1 s"
    using p e(3) node_invD(8) [OF s(1)] by (auto simp: recv_def recv_deliver_def Let_def p1_def data_ttl_def)
  also have "\<dots> = resolve_with E p2 rt s"
    using rt(1) p2(1) by (simp add: rt_resolve_def Let_def p2_def ensure_rt_def)
  also have "\<dots> = forward E (Some d) p2 NO_EAMRP_DELAY s"
    using rt(2) e(2) entry_okD(2) [OF e(1)] by (simp add: resolve_with_def)
  finally have recv: "recv E p s = forward E (Some d) p2 NO_EAMRP_DELAY s" .
  obtain t es where t: "forward E (Some d) p2 NO_EAMRP_DELAY s = Inr t"
    "out t = out s @ es @ [Scheduled (p2\<lparr>ch_addr_type := NS_AF_INET, ch_next_hop := nb, ch_direction := DOWN\<rparr>) 0]"
    using forward_along [OF n p2(1), of E] p2(2) p(4) s(2,3) e(3) by auto
  show ?thesis using recv t handed_on_last [OF t(2)] p2 by simp
qed

lemma data_travels:
  assumes "ch_ptype p \<noteq> PT_EAMRP" "ih_daddr p = d" "ch_next_hop p = next_back d line" "int (length line) < ih_ttl p"
    and "\<forall>x\<in>set line. node_inv x \<and> here_addr x = index x \<and> index x \<noteq> d \<and> index x \<noteq> ih_saddr p"
    and "routed d d (rev line)" and "length Es = length line"
  shows "\<exists>q us. pass_along (Some p) (zip Es line) = Some (Some q, us) \<and> content q = content p
    \<and> ih_ttl q = ih_ttl p - int (length line) \<and> ch_next_hop q = d"
  using assms
proof (induction line arbitrary: p Es)
  case Nil
  then show ?case by (simp add: next_back_def)
next
  case (Cons x line)
  obtain E Es' where E: "Es = E # Es'" using Cons.prems(7) by (cases Es) auto
  have x: "node_inv x" "here_addr x = index x" "index x \<noteq> d" "ih_saddr p \<noteq> index x" using Cons.prems(5) by auto
  have route: "route_via d (next_back d line) x" "routed d d (rev line)"
    using Cons.prems(6) last_index_rev [of d "rev line"] by simp_all
  have ttl: "data_ttl p x = ih_ttl p - 1" using x(4) by (simp add: data_ttl_def)
  obtain t q where t: "recv E p x = Inr t" "handed_on x t = Some q" "content q = content p" "ih_ttl q = ih_ttl p - 1"
    "ch_next_hop q = next_back d line"
    using data_hop [OF x(1-3) route(1) Cons.prems(1,2), of E] x(4) Cons.prems(4) by (auto simp: ttl)
  have c: "ch_ptype q = ch_ptype p" "ih_daddr q = ih_daddr p" "ih_saddr q = ih_saddr p" using t(3) by (simp_all add: content_def)
  obtain q' us where IH: "pass_along (Some q) (zip Es' line) = Some (Some q', us)" "content q' = content q"
    "ih_ttl q' = ih_ttl q - int (length line)" "ch_next_hop q' = d"
    using Cons.IH [OF _ _ t(5) _ _ route(2), of Es'] Cons.prems(1,2,4,5,7) t(4) c by (auto simp: E)
  have "reaches p x" using Cons.prems(3) by (simp add: reaches_def next_back_def)
  then show ?case using t IH by (intro exI [of _ q'] exI [of _ "t # us"]) (simp add: E)
qed

text \<open>
  C10. Routes deliver: along nodes each of which has a route to \<open>d\<close> through the next one, the last
  one through \<open>d\<close> itself, as a discovery leaves them, a data packet that its source \<open>s\<close> hands to
  its agent is passed on by every node and is addressed to \<open>d\<close> at the last hop, unchanged and
  with the TTL counted down from 30 once per intermediate node.
\<close>

theorem data_follows_routes:
  assumes "routed d d (rev (s # line))" and "int (length line) < 30" and "length Es = length line"
    and "\<forall>x\<in>set (s # line). node_inv x \<and> here_addr x = index x \<and> index x \<noteq> d"
    and "\<forall>x\<in>set line. index x \<noteq> index s"
    and "ch_ptype p \<noteq> PT_EAMRP" and "ih_daddr p = d" and "ih_saddr p = index s" and "ch_num_forwards p = 0"
  shows "\<exists>s' q us. recv E p s = Inr s' \<and> pass_along (handed_on s s') (zip Es line) = Some (Some q, us)
    \<and> content q = content p \<and> ch_next_hop q = d \<and> ih_ttl q = 30 - int (length line)"
proof -
  have route: "route_via d (next_back d line) s" "routed d d (rev line)"
    using assms(1) last_index_rev [of d "rev line"] by simp_all
  have ttl: "data_ttl p s = 30" using assms(8) by (simp add: data_ttl_def NETWORK_DIAMETER_def)
  obtain s' q where s': "recv E p s = Inr s'" "handed_on s s' = Some q" "content q = content p" "ih_ttl q = 30"
    "ch_next_hop q = next_back d line"
    using data_hop [OF _ _ _ route(1) assms(6,7), of E] assms(4,9) by (auto simp: ttl)
  have c: "ch_ptype q = ch_ptype p" "ih_daddr q = d" "ih_saddr q = index s" using s'(3) assms(7,8) by (simp_all add: content_def)
  obtain q' us where "pass_along (Some q) (zip Es line) = Some (Some q', us)" "content q' = content q"
    "ih_ttl q' = ih_ttl q - int (length line)" "ch_next_hop q' = d"
    using data_travels [OF _ c(2) s'(5) _ _ route(2) assms(3)] assms(2,4,5,6) c s'(4) by auto
  with s' show ?thesis by simp
qed

definition routing_node :: "nsaddr \<Rightarrow> nsaddr \<Rightarrow> eamrp" where
  "routing_node a nb = (connected_node a)\<lparr>rtable := [fresh_path (demo_env 2) 4 nb 1 10 nb demo_route]\<rparr>"

lemma routing_node_sel [simp]:
  "index (routing_node a nb) = a" "here_addr (routing_node a nb) = a" "route_via 5 nb (routing_node a nb)"
proof -
  have "rt_dst (fresh_path (demo_env 2) 4 nb 1 10 nb demo_route) = 5"
    by (simp add: fresh_path_def Let_def path_delete_all_def path_insert_def)
  then show "route_via 5 nb (routing_node a nb)"
    by (simp add: route_via_def route_of_def routing_node_def outline_fresh)
qed (simp_all add: routing_node_def connected_node_def EAMRP_new_def)

lemma routing_node_inv:
  assumes "a \<noteq> IP_BROADCAST" shows "node_inv (routing_node a nb)"
  unfolding routing_node_def
proof (rule node_inv_rtable [OF connected_node_inv [OF assms]])
  have "rt_dst (fresh_path (demo_env 2) 4 nb 1 10 nb demo_route) = 5"
    by (simp add: fresh_path_def Let_def path_delete_all_def path_insert_def)
  then show "table_ok (eamrp_max_paths (connected_node a)) [fresh_path (demo_env 2) 4 nb 1 10 nb demo_route]"
    using fresh_path_ok [OF demo_env_ok demo_route_ok, of 4 2 nb 1 10 nb]
    by (simp add: table_ok_def IP_BROADCAST_def connected_node_def EAMRP_new_def)
qed

theorem data_follows_routes_witness:
  "\<exists>s' q us. recv (demo_env 3) demo_data (routing_node 9 7) = Inr s'
    \<and> pass_along (handed_on (routing_node 9 7) s') (zip [demo_env 3] [routing_node 7 5]) = Some (Some q, us)
    \<and> content q = content demo_data \<and> ch_next_hop q = 5 \<and> ih_ttl q = 30 - int (length [routing_node 7 5])"
  by (rule data_follows_routes)
    (simp_all add: routing_node_inv IP_BROADCAST_def demo_data_def packet_alloc_def packet_init_def)

end
