(* ===== verification/Logs.thy ===== *)
theory Logs
  imports Agent Printf
begin

text \<open>
  The log functions of the agent (\<^verbatim>\<open>eamrp/eamrp_logs.cc\<close>). Their flag \<^verbatim>\<open>verbose\<close> is 0, so a run of
  the program logs nothing and the other theories leave the calls out; the flag is an argument
  here, so that what they write when it is set can be stated too. \<^verbatim>\<open>God::hops\<close> is a parameter.
\<close>

section \<open>State\<close>

text \<open>The static counters of the three functions, and the lines \<^verbatim>\<open>logtarget\<close> has dumped.\<close>

record eamrp_log =
  link_del :: u32
  link_broke :: u32
  link_kept :: u32
  log_lines :: "string list"

definition verbose :: int where
  "verbose = 0"

text \<open>Printing a line to the buffer and dumping it; \<open>None\<close> if the format string did not fit.\<close>

definition log_dump :: "string option \<Rightarrow> eamrp_log \<Rightarrow> eamrp_log option" where
  "log_dump line L = map_option (\<lambda>t. L\<lparr>log_lines := log_lines L @ [t]\<rparr>) line"

section \<open>The functions\<close>

definition log_link_del ::
  "int \<Rightarrow> ns2 \<Rightarrow> (nsaddr \<Rightarrow> nsaddr \<Rightarrow> int) \<Rightarrow> eamrp \<Rightarrow> nsaddr \<Rightarrow> eamrp_log \<Rightarrow> eamrp_log option" where
  "log_link_del verb E hops s dst L =
     (if \<not> logtarget s \<or> verb = 0 then Some L
      else
        let n = link_del L + 1 in
        log_dump (sprintf ''A %.9f _%d_ deleting LL hop to %d (delete %d is %s)''
            [R (now E), I (index s), I dst, I n, S (if hops (index s) dst \<noteq> 1 then ''VALID'' else ''INVALID'')])
          (L\<lparr>link_del := n\<rparr>))"

definition log_link_broke ::
  "int \<Rightarrow> ns2 \<Rightarrow> eamrp \<Rightarrow> packet \<Rightarrow> u32 \<Rightarrow> eamrp_log \<Rightarrow> eamrp_log option" where
  "log_link_broke verb E s p xmit_reason L =
     (if \<not> logtarget s \<or> verb = 0 then Some L
      else
        let n = link_broke L + 1 in
        log_dump (sprintf ''A %.9f _%d_ LL unable to deliver packet %d to %d (%d) (reason = %d)''
            [R (now E), I (index s), I (of_int (ch_uid p)), I (ch_next_hop p), I n, I xmit_reason])
          (L\<lparr>link_broke := n\<rparr>))"

definition log_link_kept ::
  "int \<Rightarrow> ns2 \<Rightarrow> (nsaddr \<Rightarrow> nsaddr \<Rightarrow> int) \<Rightarrow> eamrp \<Rightarrow> nsaddr \<Rightarrow> eamrp_log \<Rightarrow> eamrp_log option" where
  "log_link_kept verb E hops s dst L =
     (if \<not> logtarget s \<or> verb = 0 then Some L
      else
        let n = link_kept L + 1 in
        log_dump (sprintf ''A %.9f _%d_ keeping LL hop to %d (keep %d is %s)''
            [R (now E), I (index s), I dst, I n, S (if hops (index s) dst = 1 then ''VALID'' else ''INVALID'')])
          (L\<lparr>link_kept := n\<rparr>))"

section \<open>What they do\<close>

text \<open>As the program is built, the log functions change nothing.\<close>

lemma logs_silent:
  "log_link_del verbose E hops s dst L = Some L" "log_link_broke verbose E s p r L = Some L"
  "log_link_kept verbose E hops s dst L = Some L"
  by (simp_all add: log_link_del_def log_link_broke_def log_link_kept_def verbose_def)

text \<open>
  With the flag and a target, each call writes one line and counts in its own counter; whether a
  deletion was right is judged as the opposite of whether a link was rightly kept.
\<close>

lemma log_dump_line:
  "line \<noteq> None \<Longrightarrow> log_lines L = ls \<Longrightarrow> \<exists>t. log_dump line L = Some (L\<lparr>log_lines := ls @ [t]\<rparr>)"
  by (auto simp: log_dump_def)

lemma logs_one_line:
  assumes "verb \<noteq> 0" and "logtarget s"
  shows "\<exists>t. log_link_del verb E hops s dst L = Some (L\<lparr>link_del := link_del L + 1, log_lines := log_lines L @ [t]\<rparr>)"
    and "\<exists>t. log_link_broke verb E s p r L = Some (L\<lparr>link_broke := link_broke L + 1, log_lines := log_lines L @ [t]\<rparr>)"
    and "\<exists>t. log_link_kept verb E hops s dst L = Some (L\<lparr>link_kept := link_kept L + 1, log_lines := log_lines L @ [t]\<rparr>)"
proof -
  have go: "\<not> (\<not> logtarget s \<or> verb = 0)" using assms by simp
  note step = log_dump_line [rotated]
  show "\<exists>t. log_link_del verb E hops s dst L = Some (L\<lparr>link_del := link_del L + 1, log_lines := log_lines L @ [t]\<rparr>)"
    unfolding log_link_del_def Let_def if_not_P [OF go] by (rule step) (simp_all add: sprintf_Cons conv_at_def)
  show "\<exists>t. log_link_broke verb E s p r L = Some (L\<lparr>link_broke := link_broke L + 1, log_lines := log_lines L @ [t]\<rparr>)"
    unfolding log_link_broke_def Let_def if_not_P [OF go] by (rule step) (simp_all add: sprintf_Cons conv_at_def)
  show "\<exists>t. log_link_kept verb E hops s dst L = Some (L\<lparr>link_kept := link_kept L + 1, log_lines := log_lines L @ [t]\<rparr>)"
    unfolding log_link_kept_def Let_def if_not_P [OF go] by (rule step) (simp_all add: sprintf_Cons conv_at_def)
qed

end
