(* ===== verification/Dump.thy ===== *)
theory Dump
  imports NsPacket RTable Printf
begin

text \<open>
  The two functions that print data for a person to read: \<^verbatim>\<open>rt_dumptable\<close> the routing table, and
  \<^verbatim>\<open>Packet::dump_header\<close> a stretch of the header memory of a packet. What they print is the list of
  the texts of their \<^verbatim>\<open>printf\<close> calls, \<open>None\<close> where a format string does not fit its arguments.
\<close>

definition newline :: string where
  "newline = [CHR 0x0A]"

section \<open>The routing table\<close>

definition printPath :: "EAMRP_Path \<Rightarrow> string option" where
  "printPath p = sprintf (''                        %6d  %6d  %6d'' @ newline)
     [I (nexthop p), I (ucast (hopcount p)), I (lasthop p)]"

text \<open>
  \<^verbatim>\<open>printPaths\<close> is called on the first path of a list; if there is none, on a null pointer, which is
  undefined in C++.
\<close>

definition printPaths :: "EAMRP_Path list \<Rightarrow> fault + string option list" where
  "printPaths ps = (if ps = [] then Inl Null_deref else Inr (map printPath ps))"

definition rt_dumpentry :: "eamrp_rt_entry \<Rightarrow> string option list \<Rightarrow> fault + string option list" where
  "rt_dumpentry rt printed =
     bindE (printPaths (rt_path_list rt)) (\<lambda>paths.
       Inr (printed
         @ [sprintf ''%6s  %6s  '' [S ''Dest'', S ''Seq#''],
            sprintf (''%6s  %6s  %6s  %6s'' @ newline) [S ''Advhop'', S ''Nxthop'', S ''Hopcnt'', S ''Lsthop''],
            sprintf ''%6d  %6d  '' [I (rt_dst rt), I (rt_seqno rt)],
            sprintf (''%6d'' @ newline) [I (ucast (rt_advertised_hops rt))]]
         @ paths @ [sprintf newline []]))"

definition rt_dumptable :: "eamrp_rt_entry list \<Rightarrow> fault + string option list" where
  "rt_dumptable tb = foldE rt_dumpentry tb []"

text \<open>Every format fits: five texts for an entry and one for each of its paths.\<close>

lemma rt_dumpentry_prints:
  "rt_path_list rt \<noteq> [] \<Longrightarrow> \<exists>new. rt_dumpentry rt printed = Inr (printed @ new) \<and> None \<notin> set new
    \<and> length new = 5 + length (rt_path_list rt)"
  by (auto simp: rt_dumpentry_def printPaths_def printPath_def sprintf_Cons conv_at_def newline_def)

lemma rt_dumptable_prints:
  assumes "\<forall>rt\<in>set tb. rt_path_list rt \<noteq> []"
  shows "\<exists>ls. rt_dumptable tb = Inr ls \<and> None \<notin> set ls \<and> length ls = (\<Sum>rt\<leftarrow>tb. 5 + length (rt_path_list rt))"
proof -
  have "\<exists>ls. foldE rt_dumpentry tb printed = Inr ls \<and> None \<notin> set ls
      \<and> length ls = length printed + (\<Sum>rt\<leftarrow>tb. 5 + length (rt_path_list rt))" if "None \<notin> set printed" for printed
    using assms that
  proof (induction tb arbitrary: printed)
    case (Cons rt tb)
    then obtain new where "rt_dumpentry rt printed = Inr (printed @ new)" "None \<notin> set new"
      "length new = 5 + length (rt_path_list rt)" using rt_dumpentry_prints [of rt printed] by auto
    with Cons.IH [of "printed @ new"] Cons.prems show ?case by auto
  qed simp
  from this [of "[]"] show ?thesis by (simp add: rt_dumptable_def)
qed

text \<open>A destination without a path makes it fail.\<close>

lemma rt_dumptable_null:
  assumes "\<exists>rt\<in>set tb. rt_path_list rt = []" shows "rt_dumptable tb = Inl Null_deref"
proof -
  have "foldE rt_dumpentry tb printed = Inl Null_deref" for printed
    using assms
    by (induction tb arbitrary: printed) (auto simp: rt_dumpentry_def printPaths_def)
  then show ?thesis by (simp add: rt_dumptable_def)
qed

section \<open>The header of a packet\<close>

text \<open>The header memory is a list of \<^verbatim>\<open>hdrlen_\<close> bytes; where a header lies in it is up to the simulator.\<close>

definition bits_at :: "u8 list \<Rightarrow> int \<Rightarrow> fault + u8" where
  "bits_at bits i = (if 0 \<le> i \<and> i < int (length bits) then Inr (bits ! nat i) else Inl Array_overflow)"

definition dump_row :: "u8 list \<Rightarrow> int \<Rightarrow> string option list \<Rightarrow> fault + string option list" where
  "dump_row bits from printed =
     bindE (foldE (\<lambda>j bs. bindE (bits_at bits (from + int j)) (\<lambda>b. Inr (bs @ [I (ucast b)]))) [0..<16] []) (\<lambda>bs.
       Inr (printed @ [sprintf
         (''%02x %02x %02x %02x %02x %02x %02x %02x %02x %02x %02x %02x %02x %02x %02x %02x'' @ newline) bs]))"

definition dump_header :: "packet \<Rightarrow> u8 list \<Rightarrow> int \<Rightarrow> int \<Rightarrow> fault + string option list" where
  "dump_header p bits offset len =
     bindE (assertE Header_fits (offset + len \<le> int (length bits))) (\<lambda>_.
       foldE (\<lambda>k. dump_row bits (offset + 16 * int k)) [0..<nat ((len + 15) div 16)]
         [sprintf (newline @ ''Packet ID: %d'' @ newline) [I (of_int (ch_uid p))]])"

lemma row_bytes:
  assumes "0 \<le> from" and "from + int n \<le> int (length bits)"
  shows "foldE (\<lambda>j bs. bindE (bits_at bits (from + int j)) (\<lambda>b. Inr (bs @ [I (ucast b)]))) [0..<n] []
    = Inr (map (\<lambda>b. I (ucast b)) (take n (drop (nat from) bits)))"
  using assms
proof (induction n)
  case (Suc n)
  then have "nat (from + int n) = nat from + n" "nat from + n < length bits" by linarith+
  with Suc show ?case by (simp add: foldE_append bits_at_def take_Suc_conv_app_nth)
qed simp

lemma row_overread:
  assumes "0 \<le> from" "from \<le> int (length bits)" and "int (length bits) < from + int n"
  shows "foldE (\<lambda>j bs. bindE (bits_at bits (from + int j)) (\<lambda>b. Inr (bs @ [I (ucast b)]))) [0..<n] [] = Inl Array_overflow"
  using assms(3)
proof (induction n)
  case (Suc n)
  show ?case
  proof (cases "int (length bits) < from + int n")
    case False
    with row_bytes [OF assms(1), of n bits] Suc.prems show ?thesis by (simp add: foldE_append bits_at_def)
  qed (simp add: foldE_append Suc.IH)
qed (use assms(2) in simp)

lemma rows_print:
  assumes "0 \<le> offset" and "offset + 16 * int n \<le> int (length bits)" and "None \<notin> set printed"
  shows "\<exists>ls. foldE (\<lambda>k. dump_row bits (offset + 16 * int k)) [0..<n] printed = Inr ls
    \<and> None \<notin> set ls \<and> length ls = length printed + n"
  using assms(2)
proof (induction n)
  case (Suc n)
  then obtain ls where ls: "foldE (\<lambda>k. dump_row bits (offset + 16 * int k)) [0..<n] printed = Inr ls"
    "None \<notin> set ls" "length ls = length printed + n" by auto
  let ?bs = "take 16 (drop (nat (offset + 16 * int n)) bits)"
  have "length ?bs = 16" using assms(1) Suc.prems by simp
  then obtain a where "?bs = map (\<lambda>j. a j) [0..<16]" by (metis map_nth)
  then have "\<exists>r. dump_row bits (offset + 16 * int n) ls = Inr (ls @ [Some r])"
    using row_bytes [of "offset + 16 * int n" 16 bits] assms(1) Suc.prems
    by (simp add: dump_row_def upt_rec sprintf_Cons conv_at_def newline_def)
  with ls show ?case by (auto simp: foldE_append)
qed (use assms(3) in simp)

text \<open>
  With a length that is a multiple of sixteen it prints all rows. The assertion bounds the length
  asked for, not the full rows that are printed: a last row that is not full is read past the
  memory when too little follows.
\<close>

lemma first_line [simp]: "sprintf (newline @ ''Packet ID: %d'' @ newline) [I x] \<noteq> None"
  by (simp add: sprintf_Cons conv_at_def newline_def)

lemma dump_header_prints:
  assumes "0 \<le> offset" "0 \<le> len" and "offset + 16 * ((len + 15) div 16) \<le> int (length bits)"
  shows "\<exists>ls. dump_header p bits offset len = Inr ls \<and> None \<notin> set ls \<and> length ls = 1 + nat ((len + 15) div 16)"
proof -
  have "offset + len \<le> int (length bits)" "int (nat ((len + 15) div 16)) = (len + 15) div 16"
    using assms by linarith+
  moreover have "None \<notin> set [sprintf (newline @ ''Packet ID: %d'' @ newline) [I (of_int (ch_uid p))]]"
    using first_line [of "of_int (ch_uid p)"] by (auto simp del: first_line)
  ultimately show ?thesis
    using rows_print [OF assms(1), of "nat ((len + 15) div 16)" bits] assms(3)
    by (fastforce simp: dump_header_def assertE_def)
qed

lemma dump_header_overread:
  assumes "0 \<le> offset" "0 < len" "offset + len \<le> int (length bits)"
    and "int (length bits) < offset + 16 * ((len + 15) div 16)"
  shows "dump_header p bits offset len = Inl Array_overflow"
proof -
  define n where "n = nat ((len - 1) div 16)"
  have n: "int n = (len - 1) div 16" using assms(2) by (simp add: n_def pos_imp_zdiv_nonneg_iff)
  have rows: "(len + 15) div 16 = int n + 1" using div_add_self2 [of 16 "len - 1"] by (simp add: n)
  have "16 * int n \<le> len - 1" using mult_div_mod_eq [of 16 "len - 1"] pos_mod_sign [of 16 "len - 1"] by (simp add: n)
  then have b: "offset + 16 * int n \<le> int (length bits)" "int (length bits) < offset + 16 * int n + 16"
    using assms(3,4) rows by simp_all
  have "nat ((len + 15) div 16) = Suc n" using rows by simp
  moreover have "None \<notin> set [sprintf (newline @ ''Packet ID: %d'' @ newline) [I (of_int (ch_uid p))]]"
    using first_line [of "of_int (ch_uid p)"] by (auto simp del: first_line)
  moreover have "dump_row bits (offset + 16 * int n) ls = Inl Array_overflow" for ls
    using row_overread [of "offset + 16 * int n" bits 16] assms(1) b by (simp add: dump_row_def)
  moreover obtain ls where "foldE (\<lambda>k. dump_row bits (offset + 16 * int k)) [0..<n]
      [sprintf (newline @ ''Packet ID: %d'' @ newline) [I (of_int (ch_uid p))]] = Inr ls"
    using rows_print [OF assms(1) b(1) calculation(2)] by blast
  ultimately show ?thesis using assms(3) by (simp add: dump_header_def assertE_def foldE_append)
qed

end
