(* ===== verification/Spec2Isabelle.thy ===== *)
theory Spec2Isabelle
  imports Machine AgentProps AgentFlow PoolProps KnowNet LoopFree Builds TraceProps Discovery Logs Dump
begin

text \<open>
  \<^bold>\<open>EAMRP\<close>, a multipath on-demand routing protocol for the network simulator ns-2
  (\<^verbatim>\<open>src/EAMRP\<close>). A routing agent sits in every simulated node. It finds routes by flooding
  requests, keeps for every destination several paths that share neither their next nor their
  last hop, answers and relays replies along reverse paths, reports broken routes, buffers data
  packets while it searches, and watches its neighbours by hello messages. The simulator calls
  it for every packet and timer; it schedules packets, sets timers and drops packets in return.

  \<^bold>\<open>The parts and their theories.\<close> A definition has the name of the function or field it models;
  the loops and long branches of a function are definitions of their own, named after it.

  \<^item> \<^verbatim>\<open>common/packet.h\<close>, \<^verbatim>\<open>eamrp/eamrp_packet.h\<close>: theory \<^theory_text>\<open>NsPacket\<close> has packet types and their
    classification, the names of types, the common and EAMRP headers (the header union is the
    datatype \<open>hdr_all_eamrp\<close>) and header sizes. Theory \<^theory_text>\<open>PacketPool\<close> has the memory of packets:
    the free list, the in-use flag, references, copies and user data; \<^theory_text>\<open>PoolProps\<close> its properties.
  \<^item> \<^verbatim>\<open>eamrp/eamrp_rtable.h,.cc\<close>: theory \<^theory_text>\<open>RTable\<close>, the routing table, its entries and path lists.
  \<^item> \<^verbatim>\<open>eamrp/eamrp.h\<close> and the cache functions of \<^verbatim>\<open>eamrp.cc\<close>: theory \<^theory_text>\<open>Caches\<close>, the broadcast ID
    cache and the neighbour list.
  \<^item> \<^verbatim>\<open>eamrp/eamrp_rqueue.h,.cc\<close>: theory \<^theory_text>\<open>RQueuePtr\<close> has the linked cells of the send buffer with
    its pointer operations and its own consistency check, \<^theory_text>\<open>RQueue\<close> the list queue they implement.
  \<^item> \<^verbatim>\<open>queue/priqueue.cc\<close>: theory \<^theory_text>\<open>PriQueue\<close>, the interface queue of the link layer.
  \<^item> \<^verbatim>\<open>eamrp/eamrp.cc\<close>: theory \<^theory_text>\<open>Agent\<close> has the state (record \<open>eamrp\<close>) and the operations that send,
    break and resolve routes and salvage packets; \<^theory_text>\<open>AgentRecv\<close> the handlers of packets and
    messages; \<^theory_text>\<open>AgentTimers\<close> the timers, the purge of the table and the Tcl command. \<^theory_text>\<open>Builds\<close> has
    two sections that the switches of \<^verbatim>\<open>eamrp.h\<close> leave out, with what they promise.
  \<^item> \<^verbatim>\<open>eamrp/eamrp_logs.cc\<close>: theory \<^theory_text>\<open>Logs\<close>, the log functions, silent as the program is built.
    Theory \<^theory_text>\<open>Dump\<close> has \<^verbatim>\<open>rt_dumptable\<close> and \<^verbatim>\<open>Packet::dump_header\<close>, which print for a reader.
  \<^item> \<^verbatim>\<open>trace/cmu-trace.h,.cc\<close>: theory \<^theory_text>\<open>Printf\<close> interprets the format strings of \<^verbatim>\<open>printf\<close>, so that
    the formatter quotes them from the source; \<^theory_text>\<open>CMUTrace\<close> has the state of a \<^verbatim>\<open>CMUTrace\<close> object
    (record \<open>cmu_trace\<close>), the tracers added at run time and the MAC part of a line, \<^theory_text>\<open>CMUFormat\<close>
    the part of each protocol, \<^theory_text>\<open>CMUNam\<close> the lines of the network animator, the dispatch on the
    packet type, and what the object does with a packet.
  \<^item> \<^theory_text>\<open>Machine\<close> drives the agent: one input per call of the simulator (\<open>node_step\<close>), runs of a
    node, and the network (\<open>net_step\<close>), whose nodes receive what others have scheduled.

  \<^bold>\<open>What the lemmas show.\<close>

  \<^item> \<^theory_text>\<open>EntryInv\<close> and \<^theory_text>\<open>NodeInv\<close> define the invariant of an entry (flag, paths, counters, parity of
    sequence numbers, bounds of hop counts) and of a node; \<^theory_text>\<open>HandlerInv\<close>, \<^theory_text>\<open>RecvInv\<close> and
    \<^theory_text>\<open>TimerInv\<close> show that every operation keeps it and which faults it can end in. \<^theory_text>\<open>Machine\<close>
    puts them together through the locale \<open>machine\<close>, the contract between a fallible machine and
    its driver.
  \<^item> \<^theory_text>\<open>TableProps\<close> and \<^theory_text>\<open>QueueProps\<close> give the exact effect of the table and queue operations. The
    locales \<open>keyed_list\<close>, \<open>keyed_store\<close> and \<open>send_buffer\<close> hold the laws of the lists searched by a
    key and of the send buffer; each is interpreted on the operations of the code.
  \<^item> \<^theory_text>\<open>AgentProps\<close> and \<^theory_text>\<open>AgentFlow\<close> say what single handlers promise: exact treatment of link
    failures, no propagation of duplicates, rate limits, what is sent, dropped or kept.
  \<^item> \<^theory_text>\<open>Knowledge\<close> is an abstract specification of how nodes may handle sequence numbers;
    \<^theory_text>\<open>KnowSim\<close> and \<^theory_text>\<open>KnowRecv\<close> show that every call of the simulator refines it, and \<^theory_text>\<open>KnowNet\<close>
    carries it to the network: freshness is monotone, and nobody knows better than the
    destination.
  \<^item> \<^theory_text>\<open>Offers\<close> says what it means that a node stands by the hop counts it has ever advertised
    (\<open>promises\<close>, \<open>honest\<close>), \<^theory_text>\<open>OfferSteps\<close> shows it for transmission, broken routes and timers,
    \<^theory_text>\<open>OfferRecv\<close> for the handlers of messages. \<^theory_text>\<open>History\<close> carries it to the network (\<open>faithful\<close>): each
    path, message and promise rests on a promise of a node one hop nearer. \<^theory_text>\<open>LoopFree\<close> draws the
    conclusions: an edge of the routes to a destination leads to a newer number, or to the same
    number and a smaller advertised hop count; hop counts stay below the number of nodes; the hop
    count assertions of the handlers hold; a node has at most as many routes as there are nodes.
  \<^item> \<^theory_text>\<open>RouteSteps\<close> says what one node does with a message of a discovery, \<^theory_text>\<open>Discovery\<close> puts the
    nodes of a line together (\<open>pass_along\<close>): the request reaches the destination, the reply the
    source, and data packets then follow the routes both have left.
  \<^item> \<^theory_text>\<open>TraceProps\<close> shows for every packet type which events a tracer causes, and that the line of a
    route request determines the request.

  \<^bold>\<open>Representation.\<close>

  \<^item> Errors: an operation that can fail has type \<open>fault + 'a\<close>. A failed assertion, a null pointer,
    an index past an array, the exit on a bad type and a loop that does not end are values of
    \<open>fault\<close>; that they do not occur is proved, not assumed.
  \<^item> Integers: addresses, sequence numbers, hop counts and counters of the headers are words of
    their C width, and wrap; \<^verbatim>\<open>int\<close> counters that cannot reach their limits are \<open>int\<close>.
  \<^item> Times are exact reals, where the code has \<^verbatim>\<open>double\<close>.
  \<^item> Pointers to routing entries and neighbours are represented by their keys: entries are never
    deleted, keys are unique, and an update through the pointer is an update of the list at the
    key. The send buffer and the packet pool keep real pointers, as numbers.
  \<^item> Calls into the simulator (scheduling a packet or timer, dropping, freeing, handing up a packet
    for this node) are appended to the field \<open>out\<close> of the state in order. Handing up does not call
    back into the agent.
  \<^item> The record \<open>ns2\<close> holds what an operation reads from its surroundings: the clock, the stream of
    random numbers (the state counts the draws), ns-2's packet queue, the constants the sources
    use and do not define, and the value of uninitialised memory. \<open>env_ok\<close> and \<open>pq_lawful\<close> are the
    documented behaviour of these: random numbers in the unit interval, a queue that is a list.
    \<^verbatim>\<open>INFINITY\<close> is one of the undefined constants, since \<^verbatim>\<open>eamrp.h\<close> has its definition commented out.

  \<^bold>\<open>Bounds and fuel.\<close> The loop over the send buffer runs with the number of buffered packets as fuel,
  the salvage loop with the length of the interface queue, \<^verbatim>\<open>PriQueue::filter\<close> with the length of
  the queue, the pointer walks with the length of the list; each is shown never to run out. Route
  errors have arrays of 100 slots as in the code; more broken destinations are the fault
  \<open>Array_overflow\<close>. The network theorems about sequence numbers assume room below \<open>2 ^ 32\<close>
  (\<open>net_room\<close>), since the counters of the code wrap. Loop freedom assumes that no message the
  nodes accept has hop count 255 (\<open>hop_room\<close>), since the byte wraps at the next node, which up to 255
  nodes is proved, and that \<^verbatim>\<open>INFINITY\<close> is one constant of at least 256 (\<open>infty_is\<close>).

  \<^bold>\<open>The network\<close> has a node for every address but the broadcast address. A packet once scheduled stays
  in the air and may be delivered to anybody any number of times, which covers loss, duplication,
  delay and reordering. Messages whose sequence number has wrapped to zero are not delivered.

  \<^bold>\<open>The build that is modelled:\<close> \<^verbatim>\<open>EAMRP_NODE_DISJOINT_PATHS\<close> is defined; \<^verbatim>\<open>EAMRP_LINK_DISJOINT_PATHS\<close>,
  \<^verbatim>\<open>EAMRP_LINK_LAYER_DETECTION\<close>, \<^verbatim>\<open>DYNAMIC_RREQ_RETRY_TIMEOUT\<close> and \<^verbatim>\<open>DEBUG\<close> are not. What \<^theory_text>\<open>Builds\<close>
  has of the first two stands beside the machine: local repair leaves routes in a third state,
  which the invariant of a node excludes.

  \<^bold>\<open>The trace formatter\<close> reads headers of protocols whose files are not in the repository. They are
  records of the fields it reads, and their constants are the parameter \<open>hconst\<close>. Numbers are
  printed exactly; a \<^verbatim>\<open>double\<close> is the real number it stands for. The names \<^verbatim>\<open>HDR_eamrp\<close> and
  \<^verbatim>\<open>eamrpTYPE_RREQ\<close> of \<^verbatim>\<open>format_eamrp\<close> are read as those \<^verbatim>\<open>eamrp_packet.h\<close> defines.

  \<^bold>\<open>Not modelled.\<close> The attribute that
  \<^verbatim>\<open>nam_format\<close> stores in the 802.15.4 header; the classes that register the objects with Tcl; the
  transmission stamps of packets, which no code here reads; destructors; the Tcl and awk scripts;
  \<^verbatim>\<open>packet.h.bak\<close>, an old copy. Of the sections the build leaves out: salvaging switched off, and
  what only prints.
\<close>

section \<open>The whole agent\<close>

lemma demo_data_forwarded:
  "\<exists>s'. recv (demo_env 3) demo_data demo_node = Inr s'"
proof -
  obtain q where "path_find demo_route = Some q"
    by (simp add: path_find_def demo_route_def path_insert_def new_rt_entry_def)
  moreover have "ih_daddr demo_data = 5" "here_addr demo_node = 9" "target demo_node"
    "rt_hops demo_route = 0" "ih_saddr demo_data = 9" "ch_num_forwards demo_data = 0" "ch_ptype demo_data = PT_CBR"
    by (simp_all add: demo_route_def path_insert_def new_rt_entry_def demo_data_def demo_node_def
        connected_node_def EAMRP_new_def packet_alloc_def packet_init_def)
  ultimately show ?thesis
    by (simp add: recv_def recv_deliver_def rt_resolve_def resolve_with_def forward_def ensure_rt_def assertE_def
        Let_def NETWORK_DIAMETER_def IP_BROADCAST_def INFINITY2_def)
qed



text \<open>
  C2. Over any sequence of such calls, from a node that is created and connected: unless the
  run aborts in one of those two ways, every entry of its routing table is up exactly when it
  has a path, has at most three paths that share neither a next hop nor a last hop, and
  advertises a hop count that no path exceeds.
\<close>

theorem run_keeps_disjoint_paths:
  assumes "a \<noteq> IP_BROADCAST" and "\<forall>(E, i)\<in>set tr. env_ok E \<and> input_ok i"
  shows "case node_run tr (connected_node a) of
      Inl f \<Rightarrow> f = Assert_failed Hopcount_match \<or> f = Array_overflow
    | Inr s' \<Rightarrow> (\<forall>rt\<in>set (rtable s').
        (rt_flags rt = RTF_UP \<longleftrightarrow> rt_path_list rt \<noteq> [])
        \<and> int (length (rt_path_list rt)) \<le> max 1 (eamrp_max_paths s')
        \<and> distinct (map nexthop (rt_path_list rt)) \<and> distinct (map lasthop (rt_path_list rt))
        \<and> (\<forall>p\<in>set (rt_path_list rt). 1 \<le> uint (hopcount p) \<and> hopcount p \<le> rt_advertised_hops rt))"
proof -
  have "safe step_faults node_inv (node_run tr (connected_node a))"
    unfolding node_run_def by (rule agent.run_safe [OF assms(2) connected_node_inv [OF assms(1)]])
  moreover have "entry_ok (eamrp_max_paths s') rt" if "node_inv s'" "rt \<in> set (rtable s')" for s' rt
    using node_invD(3) [OF that(1)] that(2) by (simp add: table_ok_def)
  ultimately show ?thesis
    by (fastforce simp: safe_def step_faults_def entry_ok_def paths_ok_def hops_ok_def split: sum.splits)
qed

theorem run_keeps_disjoint_paths_witness:
  "\<exists>s'. node_run [(demo_env 3, Bcast_expired), (demo_env 4, Hello_expired)] (connected_node 9) = Inr s'
    \<and> (\<forall>rt\<in>set (rtable s'). distinct (map nexthop (rt_path_list rt)))"
proof -
  have "\<exists>s'. node_run [(demo_env 3, Bcast_expired), (demo_env 4, Hello_expired)] (connected_node 9) = Inr s'"
    by (simp add: node_run_def broadcast_timer_def hello_timer_def Let_def uniform_def connected_node_def
        EAMRP_new_def emit_def assertE_def demo_env_def MinHelloInterval_def MaxHelloInterval_def HELLO_INTERVAL_def)
  then show ?thesis
    using run_keeps_disjoint_paths [of 9 "[(demo_env 3, Bcast_expired), (demo_env 4, Hello_expired)]"]
    by (auto simp: IP_BROADCAST_def)
qed

text \<open>
  C3. In a network of such nodes, whatever the order, loss, duplication and delay of messages:
  every routing message in the air goes from routing port to routing port; requests carry an
  even source and replies an even destination sequence number, requests are broadcast and
  replies are not, and an error lists at most 100 destinations.
\<close>

theorem network_messages_well_formed:
  assumes start: "nodes n0 = connected_node" "air n0 = {}"
    and reach: "net_reach n0 n" and p: "p \<in> air n" and eamrp: "ch_ptype p = PT_EAMRP"
  shows "ih_sport p = RT_PORT \<and> ih_dport p = RT_PORT \<and>
    (case hdr p of
       Rreq rq \<Rightarrow> even (rq_src_seqno rq) \<and> ih_daddr p = IP_BROADCAST
     | Rrep rp \<Rightarrow> even (rp_dst_seqno rp) \<and> ih_daddr p \<noteq> IP_BROADCAST
     | Hello rp \<Rightarrow> even (rp_dst_seqno rp)
     | Rerr re \<Rightarrow> unat (DestCount re) \<le> 100
     | Raw t \<Rightarrow> False)"
proof -
  have "net_inv n0" using start connected_node_inv by (simp add: net_inv_def)
  from net_reach_inv [OF reach this] p have "msg_wf p" by (simp add: net_inv_def)
  with eamrp show ?thesis
    by (auto simp: msg_wf_def re_ok_def EAMRP_MAX_ERRORS_def split: hdr_all_eamrp.splits)
qed

definition demo_net :: net where
  "demo_net = \<lparr>nodes = connected_node, air = {}\<rparr>"

text \<open>Node 9 is handed a packet for node 7 and broadcasts a request for it.\<close>

lemma demo_search_exact:
  "\<exists>s' q. recv (demo_env 1) (demo_data\<lparr>ih_daddr := 7\<rparr>) (connected_node 9) = Inr s'
    \<and> out s' = [Scheduled q 0] \<and> carries_request 9 1 7 4 0 9 30 q \<and> offers q = {(9, 9, 4, 0)}"
  by (simp add: recv_def recv_deliver_def rt_resolve_def resolve_with_def ensure_rt_def rt_add_def assertE_def
      Let_def IP_BROADCAST_def demo_data_def connected_node_def EAMRP_new_def new_rt_entry_def sendRequest_def
      buffer_packet_def rq_enque_def rq_new_def rq_len_def rq_purge_def remove_all_loop_filter
      ring_ttl_def rreq_packet_def packet_alloc_def packet_init_def emit_def EAMRP_RTQ_MAX_LEN_def RREQ_RETRIES_def TTL_THRESHOLD_def
      INFINITY2_def RTF_DOWN_def RTF_UP_def carries_request_def offers_def msg_wf_def NETWORK_DIAMETER_def)

lemma demo_search:
  "\<exists>s' q. recv (demo_env 1) (demo_data\<lparr>ih_daddr := 7\<rparr>) (connected_node 9) = Inr s'
    \<and> Scheduled q 0 \<in> set (out s') \<and> ch_ptype q = PT_EAMRP"
  using demo_search_exact by (fastforce simp: carries_request_def)

theorem network_messages_well_formed_witness:
  "\<exists>n q. net_reach demo_net n \<and> q \<in> air n \<and> ch_ptype q = PT_EAMRP \<and> ih_sport q = RT_PORT"
proof -
  obtain s' q where s': "recv (demo_env 1) (demo_data\<lparr>ih_daddr := 7\<rparr>) (connected_node 9) = Inr s'"
    "Scheduled q 0 \<in> set (out s')" "ch_ptype q = PT_EAMRP"
    using demo_search by blast
  have "nodes demo_net 9 = connected_node 9" "(9 :: nsaddr) \<noteq> IP_BROADCAST"
    by (simp_all add: demo_net_def IP_BROADCAST_def)
  then have "net_step demo_net (put_node 9 s' demo_net)"
    using s'(1) by (intro net_step.originate [where p = "demo_data\<lparr>ih_daddr := 7\<rparr>" and E = "demo_env 1"])
      (simp_all add: demo_data_def)
  then have r: "net_reach demo_net (put_node 9 s' demo_net)" by (rule net_reach.step [OF net_reach.start])
  have q: "q \<in> air (put_node 9 s' demo_net)" using s'(2) by (auto simp: put_node_def sent_def)
  have start: "nodes demo_net = connected_node" "air demo_net = {}" by (simp_all add: demo_net_def)
  from network_messages_well_formed [OF start r q s'(3)] r q s'(3) show ?thesis by blast
qed

section \<open>Sequence numbers\<close>

text \<open>
  C8. Refinement of a protocol of sequence numbers: what a node stores about destinations and
  tells others changes, in every call the simulator makes, only by the rules of the abstract
  specification, namely meeting a destination, adopting a newer number it was told by this
  message, making the number of a route it gives up odd, hearing and conceding to a route error,
  raising its own number, and telling what it was told, what it stores or its own number.
  It raises its own number at most once, or in a timer at most once per neighbour or entry.
\<close>

theorem step_refines_knowledge:
  assumes "node_inv s" and "env_ok E" and "node_step E i s = Inr s'"
  shows "index s' = index s \<and> (\<exists>n\<le>raises i s. know_run (index s) (heard i) n (know s) (know s'))"
  using node_step_knows [OF assms] by (simp add: knows_def)

theorem step_refines_knowledge_witness:
  "\<exists>s' n. node_step (demo_env 3) (Recv demo_data) demo_node = Inr s' \<and> know_run 9 {} n (know demo_node) (know s')"
proof -
  obtain s' where s': "node_step (demo_env 3) (Recv demo_data) demo_node = Inr s'"
    using demo_data_forwarded by auto
  have "heard (Recv demo_data) = {}" by (simp add: demo_data_def)
  with step_refines_knowledge [OF demo_node_inv demo_env_ok s'] s' show ?thesis
    by (auto simp del: node_step.simps heard.simps)
qed

text \<open>
  C11. Freshness: over any run of a node, the sequence number it stores for a destination and the
  highest number it heard for it in route errors never decrease, and no entry disappears.
\<close>

theorem freshness_never_decreases:
  assumes "node_inv s" and "\<forall>(E, i)\<in>set tr. env_ok E \<and> input_ok i" and "node_run tr s = Inr s'"
    and "rt_lookup d (rtable s) = Some rt"
  shows "\<exists>rt'. rt_lookup d (rtable s') = Some rt' \<and> rt_seqno rt \<le> rt_seqno rt'
    \<and> rt_highest_seqno_heard rt \<le> rt_highest_seqno_heard rt'"
  using assms by (blast intro: node_run_fresh)

theorem freshness_never_decreases_witness:
  "\<exists>s' rt'. node_run [(demo_env 3, Recv demo_data)] demo_node = Inr s'
    \<and> rt_lookup 5 (rtable s') = Some rt' \<and> 4 \<le> rt_seqno rt'"
proof -
  obtain s' where "node_step (demo_env 3) (Recv demo_data) demo_node = Inr s'"
    using demo_data_forwarded by auto
  then have s': "node_run [(demo_env 3, Recv demo_data)] demo_node = Inr s'"
    by (simp add: node_run_def del: node_step.simps)
  have "input_ok (Recv demo_data)" by (simp add: demo_data_def msg_wf_def msg_live_def)
  then have ok: "\<forall>(E, i)\<in>set [(demo_env 3, Recv demo_data)]. env_ok E \<and> input_ok i" by simp
  have rt: "rt_lookup 5 (rtable demo_node) = Some demo_route" by simp
  from freshness_never_decreases [OF demo_node_inv ok s' rt] s' show ?thesis by auto
qed

text \<open>
  C4. Nobody knows better than the destination: in a network of nodes, as long as no node is
  about to wrap its own counter, every number stored or under way for a destination is at most
  the destination's own number plus one, and the number of a usable route is at most the
  destination's own. So no node ever accepts a claim its destination did not make.
\<close>

theorem destination_knows_best:
  assumes start: "nodes n0 = connected_node" "air n0 = {}" and reach: "room_reach n0 n"
  shows "(\<forall>a rt. a \<noteq> IP_BROADCAST \<longrightarrow> rt \<in> set (rtable (nodes n a)) \<longrightarrow>
      unat (rt_seqno rt) \<le> Suc (unat (seqno (nodes n (rt_dst rt))))
      \<and> (rt_flags rt = RTF_UP \<longrightarrow> rt_seqno rt \<le> seqno (nodes n (rt_dst rt))))
    \<and> (\<forall>p\<in>air n. \<forall>(d, m)\<in>claims p. unat m \<le> Suc (unat (seqno (nodes n d))))"
proof -
  note cap = room_reach_capped [OF reach start]
  have "net_inv n0" using start connected_node_inv by (simp add: net_inv_def)
  then have inv: "net_inv n" by (rule net_reach_inv [OF room_reach_net_reach [OF reach]])
  show ?thesis
    using stored_limit [OF cap inv] stored_up_limit [OF cap inv] cap
    by (fastforce simp: net_capped_def up_to_def limit_def)
qed

theorem destination_knows_best_witness:
  "\<exists>n q. room_reach demo_net n \<and> q \<in> air n \<and> ch_ptype q = PT_EAMRP
    \<and> (\<forall>(d, m)\<in>claims q. unat m \<le> Suc (unat (seqno (nodes n d))))"
proof -
  obtain s' q where s': "recv (demo_env 1) (demo_data\<lparr>ih_daddr := 7\<rparr>) (connected_node 9) = Inr s'"
    "Scheduled q 0 \<in> set (out s')" "ch_ptype q = PT_EAMRP"
    using demo_search by blast
  have start: "nodes demo_net = connected_node" "air demo_net = {}" by (simp_all add: demo_net_def)
  have "net_room demo_net"
    by (simp add: net_room_def demo_net_def connected_node_def EAMRP_new_def)
  moreover have "net_step demo_net (put_node 9 s' demo_net)"
    using s'(1) start by (intro net_step.originate [where p = "demo_data\<lparr>ih_daddr := 7\<rparr>" and E = "demo_env 1"])
      (simp_all add: demo_data_def IP_BROADCAST_def)
  ultimately have r: "room_reach demo_net (put_node 9 s' demo_net)"
    by (rule room_reach.room_step [OF room_reach.room_start])
  have "q \<in> air (put_node 9 s' demo_net)" using s'(2) by (auto simp: put_node_def sent_def)
  with destination_knows_best [OF start r] r s'(3) show ?thesis by blast
qed

section \<open>Loop freedom\<close>

lemma demo_env_infty [simp]: "infty_is 0xffff (demo_env t)"
  by (simp add: infty_is_def demo_env_def)

text \<open>A run of two steps: node 9 searches for node 7, and node 7 hears the request.\<close>

lemma demo_run:
  "\<exists>n1 n2 q. route_step 0xffff 9 demo_net n1 \<and> air n1 = {q} \<and> offers q = {(9, 9, 4, 0)} \<and> input_ok (Recv q)
    \<and> route_step 0xffff 7 n1 n2 \<and> (7, 9) \<in> next_hops n2 9"
proof -
  obtain s' q where s': "recv (demo_env 1) (demo_data\<lparr>ih_daddr := 7\<rparr>) (connected_node 9) = Inr s'"
    "out s' = [Scheduled q 0]" "carries_request 9 1 7 4 0 9 30 q" "offers q = {(9, 9, 4, 0)}"
    using demo_search_exact by blast
  have start: "nodes demo_net = connected_node" "air demo_net = {}" by (simp_all add: demo_net_def)
  let ?n1 = "put_node 9 s' demo_net"
  have n1: "route_step 0xffff 9 demo_net ?n1"
    using s'(1) by (intro route_stepI [where E = "demo_env 1" and i = "Recv (demo_data\<lparr>ih_daddr := 7\<rparr>)"])
      (simp_all add: start demo_data_def IP_BROADCAST_def msg_wf_def msg_live_def)
  have air: "air ?n1 = {q}" using s'(2) by (auto simp: put_node_def start sent_def)
  have "unaware 9 1 4 (connected_node 7)"
    using connected_node_inv [of 7] by (simp add: unaware_def known_seqno_def route_of_def IP_BROADCAST_def connected_node_def EAMRP_new_def)
  then obtain t where t: "recv (demo_env 2) q (connected_node 7) = Inr t" "index t = 7" "route_of 9 t = Some (RTF_UP, 4, [9])"
    using request_answered [OF s'(3) demo_env_ok, of "connected_node 7"] by (auto simp: connected_node_def EAMRP_new_def)
  have q: "input_ok (Recv q)" using s'(3) by (auto simp: carries_request_def msg_live_def)
  let ?n2 = "put_node 7 t ?n1"
  have "nodes ?n1 7 = connected_node 7" by (simp add: start)
  then have "route_step 0xffff 7 ?n1 ?n2"
    using t(1) q air by (intro route_stepI [where E = "demo_env 2" and i = "Recv q"])
      (auto simp: IP_BROADCAST_def same_message_def)
  moreover have "(7, 9) \<in> next_hops ?n2 9"
    using t(3) by (auto simp: next_hops_def route_of_def outline_def IP_BROADCAST_def)
  ultimately show ?thesis using n1 air s'(4) q by blast
qed

lemma demo_net_start: "nodes demo_net = connected_node" "air demo_net = {}"
  by (simp_all add: demo_net_def)







end
